(* ===== verification/Prelude.thy ===== *)
theory Prelude
  imports Main "HOL-Library.Word" "HOL-Library.Char_ord" "HOL-Library.List_Lexorder"
    "HOL-Library.Finite_Map"
begin

text \<open>
  Shared vocabulary of the development. A Go \<open>string\<close> is a list of 8-bit characters, which
  is what Isabelle's \<open>string\<close> is (a \<open>char\<close> is a byte); a Go \<open>[]byte\<close> is a list of
  \<open>8 word\<close>; the conversions \<open>[]byte(s)\<close> and \<open>string(b)\<close> are \<open>bytes_of\<close> and \<open>string_of\<close>. Strings are
  ordered as Go orders them, lexicographically by byte, through the instances of
  \<open>Char_ord\<close> and \<open>List_Lexorder\<close>. A Go map is a finite map \<open>fmap\<close>.
\<close>

unbundle bit_operations_syntax

subsection \<open>Types\<close>

type_synonym byte = "8 word"
type_synonym bytes = "byte list"
type_synonym u32 = "32 word"
type_synonym u64 = "64 word"

text \<open>Facts that unfold the plumbing of the string and byte functions.\<close>

named_theorems go_simps

subsection \<open>Strings and bytes\<close>

definition bytes_of :: "string \<Rightarrow> bytes" where
  "bytes_of s = map of_char s"

definition string_of :: "bytes \<Rightarrow> string" where
  "string_of b = map (\<lambda>w. char_of (unat w)) b"

lemma unat_of_char_byte [simp]: "unat (of_char c :: byte) = (of_char c :: nat)"
proof -
  have "(of_char c :: byte) = of_nat (of_char c :: nat)"
    by (rule of_nat_of_char [symmetric])
  moreover have "(of_char c :: nat) mod 256 = of_char c"
    by simp
  ultimately show ?thesis
    by (simp only: unat_of_nat) simp
qed

lemma of_char_byte_inject [simp]: "(of_char c :: byte) = of_char d \<longleftrightarrow> c = d"
  by (metis unat_of_char_byte of_char_eq_iff)

lemma of_char_char_of_unat [simp]: "(of_char (char_of (unat w) :: char) :: byte) = w"
proof -
  have "unat w < 256"
    using unsigned_less [of w] by simp
  then have "unat (of_char (char_of (unat w) :: char) :: byte) = unat w"
    by (simp only: unat_of_char_byte of_char_of) simp
  then show ?thesis by (rule word_unat_eq_iff [THEN iffD2])
qed

lemma string_of_bytes_of [simp]: "string_of (bytes_of s) = s"
  by (induction s) (simp_all add: string_of_def bytes_of_def)

lemma bytes_of_string_of [simp]: "bytes_of (string_of b) = b"
  by (induction b) (simp_all add: string_of_def bytes_of_def)

lemma bytes_of_inject [simp]: "bytes_of s = bytes_of t \<longleftrightarrow> s = t"
  by (metis string_of_bytes_of)

lemma bytes_of_append [simp]: "bytes_of (s @ t) = bytes_of s @ bytes_of t"
  by (simp add: bytes_of_def)

lemma bytes_of_Nil [simp]: "bytes_of [] = []"
  by (simp add: bytes_of_def)

lemma bytes_of_Cons [simp]: "bytes_of (c # s) = of_char c # bytes_of s"
  by (simp add: bytes_of_def)

lemma length_bytes_of [simp]: "length (bytes_of s) = length s"
  by (simp add: bytes_of_def)

lemma length_string_of [simp]: "length (string_of b) = length b"
  by (simp add: string_of_def)

lemma of_char_byte_eq_0 [simp]: "(of_char c :: byte) = 0 \<longleftrightarrow> c = CHR 0x00"
  using of_char_byte_inject [of c "CHR 0x00"] by (simp del: of_char_byte_inject)

lemma zero_in_bytes_of [simp]: "0 \<in> set (bytes_of s) \<longleftrightarrow> CHR 0x00 \<in> set s"
  by (induction s) auto

subsection \<open>Exclusive or\<close>

lemma xor_cancel_left [simp]: "(a :: 'a :: len word) XOR b = a XOR c \<longleftrightarrow> b = c"
  by (metis xor.assoc xor_self_eq xor.left_neutral)

lemma xor_cancel_right [simp]: "(b :: 'a :: len word) XOR a = c XOR a \<longleftrightarrow> b = c"
  by (metis xor.assoc xor_self_eq xor.right_neutral)

lemma xor_eq_0_iff: "(a :: 'a :: len word) XOR b = 0 \<longleftrightarrow> a = b"
  using xor_cancel_right [of a b b] by simp

subsection \<open>Big-endian integers\<close>

text \<open>\<open>binary.BigEndian.PutUint32\<close>, its 64-bit companion, and \<open>Uint32\<close>.\<close>

definition putUint32 :: "u32 \<Rightarrow> bytes" where
  "putUint32 w = [ucast (drop_bit 24 w), ucast (drop_bit 16 w), ucast (drop_bit 8 w), ucast w]"

definition putUint64 :: "u64 \<Rightarrow> bytes" where
  "putUint64 w = putUint32 (ucast (drop_bit 32 w)) @ putUint32 (ucast w)"

definition getUint32 :: "byte \<Rightarrow> byte \<Rightarrow> byte \<Rightarrow> byte \<Rightarrow> u32" where
  "getUint32 a b c d =
     push_bit 24 (ucast a) OR push_bit 16 (ucast b) OR push_bit 8 (ucast c) OR ucast d"

lemma length_putUint32 [simp]: "length (putUint32 w) = 4"
  by (simp add: putUint32_def)

lemma length_putUint64 [simp]: "length (putUint64 w) = 8"
  by (simp add: putUint64_def)

lemma getUint32_put [simp]:
  "getUint32 (ucast (drop_bit 24 w)) (ucast (drop_bit 16 w)) (ucast (drop_bit 8 w)) (ucast w) = w"
proof (rule bit_eqI)
  fix n assume "possible_bit TYPE(u32) n"
  then have "n < 32" by simp
  then consider "n < 8" | "8 \<le> n" "n < 16" | "16 \<le> n" "n < 24" | "24 \<le> n" "n < 32"
    by linarith
  then show "bit (getUint32 (ucast (drop_bit 24 w)) (ucast (drop_bit 16 w))
      (ucast (drop_bit 8 w)) (ucast w)) n = bit w n"
    by cases (auto simp: getUint32_def bit_simps)
qed

end
