(* ===== verification/Golib.thy ===== *)
theory Golib
  imports Prelude
begin

text \<open>
  The functions of \<open>strings\<close>, \<open>strconv\<close> and \<open>fmt\<close> that the program calls: prefixes and
  suffixes, decimal formatting with and without zero padding (\<open>%d\<close>, \<open>%020d\<close>), and
  \<open>strconv.ParseUint\<close> with its value on errors.
\<close>

subsection \<open>Package strings\<close>

definition HasPrefix :: "string \<Rightarrow> string \<Rightarrow> bool" where
  "HasPrefix s p \<longleftrightarrow> length p \<le> length s \<and> take (length p) s = p"

definition HasSuffix :: "string \<Rightarrow> string \<Rightarrow> bool" where
  "HasSuffix s p \<longleftrightarrow> length p \<le> length s \<and> drop (length s - length p) s = p"

definition TrimPrefix :: "string \<Rightarrow> string \<Rightarrow> string" where
  "TrimPrefix s p = (if HasPrefix s p then drop (length p) s else s)"

definition TrimSuffix :: "string \<Rightarrow> string \<Rightarrow> string" where
  "TrimSuffix s p = (if HasSuffix s p then take (length s - length p) s else s)"

fun Contains :: "string \<Rightarrow> string \<Rightarrow> bool" where
  "Contains [] p \<longleftrightarrow> p = []"
| "Contains (c # s) p \<longleftrightarrow> HasPrefix (c # s) p \<or> Contains s p"

lemma HasPrefix_append [simp]: "HasPrefix (p @ s) p"
  by (simp add: HasPrefix_def)

lemma HasPrefix_iff: "HasPrefix s p \<longleftrightarrow> (\<exists>t. s = p @ t)"
  unfolding HasPrefix_def by (metis append_eq_conv_conj append_take_drop_id length_append le_add1)

lemma HasPrefix_Nil [simp]: "HasPrefix s []"
  by (simp add: HasPrefix_def)

lemma HasSuffix_append [simp]: "HasSuffix (s @ p) p"
  by (simp add: HasSuffix_def)

lemma TrimPrefix_append [simp]: "TrimPrefix (p @ s) p = s"
  by (simp add: TrimPrefix_def)

lemma TrimSuffix_append [simp]: "TrimSuffix (s @ p) p = s"
  by (simp add: TrimSuffix_def)

subsection \<open>Decimal formatting\<close>

definition dchar :: "nat \<Rightarrow> char" where
  "dchar d = char_of (48 + d)"

fun dec :: "nat \<Rightarrow> string" where
  "dec n = (if n < 10 then [dchar n] else dec (n div 10) @ [dchar (n mod 10)])"

declare dec.simps [simp del]

definition pad0 :: "nat \<Rightarrow> string \<Rightarrow> string" where
  "pad0 w s = replicate (w - length s) (CHR ''0'') @ s"

definition dval :: "char \<Rightarrow> nat option" where
  "dval c = (let n = of_char c :: nat in if 48 \<le> n \<and> n \<le> 57 then Some (n - 48) else None)"

lemma dval_dchar [simp]: "d < 10 \<Longrightarrow> dval (dchar d) = Some d"
  by (simp add: dval_def dchar_def)

lemma dval_0 [simp]: "dval (CHR ''0'') = Some 0"
  by (simp add: dval_def)

lemma dec_not_Nil [simp]: "dec n \<noteq> []"
  by (subst dec.simps) simp

lemma dchar_digit: "d < 10 \<Longrightarrow> (of_char (dchar d) :: nat) = 48 + d"
  by (simp add: dchar_def of_char_of)

lemma set_dec: "c \<in> set (dec n) \<Longrightarrow> 48 \<le> (of_char c :: nat) \<and> of_char c \<le> (57 :: nat)"
proof (induction n rule: dec.induct)
  case (1 n)
  show ?case
  proof (cases "n < 10")
    case True
    with 1(2) show ?thesis by (subst (asm) dec.simps) (simp add: dchar_digit)
  next
    case False
    with 1(2) have "c \<in> set (dec (n div 10)) \<or> c = dchar (n mod 10)"
      by (subst (asm) dec.simps) auto
    with 1(1) False dchar_digit [of "n mod 10"] show ?thesis by auto
  qed
qed

lemma dec_no_sign: "hd (dec n) \<noteq> CHR ''-''" "hd (dec n) \<noteq> CHR ''+''" "\<not> HasPrefix (dec n) ''0x''"
proof -
  have h: "hd (dec n) \<in> set (dec n)" by simp
  show "hd (dec n) \<noteq> CHR ''-''" "hd (dec n) \<noteq> CHR ''+''"
    using set_dec [OF h] by auto
  show "\<not> HasPrefix (dec n) ''0x''"
  proof
    assume "HasPrefix (dec n) ''0x''"
    then have "CHR ''x'' \<in> set (dec n)" by (auto simp: HasPrefix_iff)
    from set_dec [OF this] show False by simp
  qed
qed

subsection \<open>Package strconv\<close>

datatype num_error = ErrSyntax | ErrRange

text \<open>
  \<open>ParseUint(s, 10, 64)\<close>: the value is 0 after a syntax error and the largest 64-bit value
  after a range error; callers that drop the error see these values.
\<close>

fun parseUint_loop :: "nat \<Rightarrow> string \<Rightarrow> nat \<times> num_error option" where
  "parseUint_loop n [] = (n, None)"
| "parseUint_loop n (c # s) =
     (case dval c of
        None \<Rightarrow> (0, Some ErrSyntax)
      | Some d \<Rightarrow>
          (if 2 ^ 64 \<le> n * 10 + d then (2 ^ 64 - 1, Some ErrRange)
           else parseUint_loop (n * 10 + d) s))"

definition ParseUint :: "string \<Rightarrow> nat \<times> num_error option" where
  "ParseUint s = (if s = [] then (0, Some ErrSyntax) else parseUint_loop 0 s)"

lemma parseUint_loop_append:
  "parseUint_loop n s = (m, None) \<Longrightarrow> parseUint_loop n (s @ t) = parseUint_loop m t"
  by (induction s arbitrary: n) (auto split: option.splits if_splits)

lemma parseUint_loop_zeros [simp]:
  "parseUint_loop 0 (replicate k (CHR ''0'') @ s) = parseUint_loop 0 s"
  by (induction k) simp_all

lemma parseUint_loop_dec: "n < 2 ^ 64 \<Longrightarrow> parseUint_loop 0 (dec n) = (n, None)"
proof (induction n rule: dec.induct)
  case (1 n)
  show ?case
  proof (cases "n < 10")
    case True
    then show ?thesis by (subst dec.simps) simp
  next
    case False
    then have "parseUint_loop 0 (dec (n div 10)) = (n div 10, None)"
      using 1 by simp
    then have "parseUint_loop 0 (dec n) = parseUint_loop (n div 10) [dchar (n mod 10)]"
      using False by (subst dec.simps) (simp add: parseUint_loop_append)
    also have "\<dots> = (n, None)"
      using "1.prems" by (simp add: mult.commute [of "n div 10"])
    finally show ?thesis .
  qed
qed

lemma ParseUint_pad_dec: "n < 2 ^ 64 \<Longrightarrow> ParseUint (pad0 w (dec n)) = (n, None)"
  by (simp add: ParseUint_def pad0_def parseUint_loop_dec)

lemma ParseUint_bound: "fst (ParseUint s) < 2 ^ 64"
proof -
  have "n < 2 ^ 64 \<Longrightarrow> fst (parseUint_loop n s) < 2 ^ 64" for n
    by (induction s arbitrary: n) (auto split: option.splits)
  from this [of 0] show ?thesis by (simp add: ParseUint_def)
qed

lemma pad0_dec_inject:
  "m < 2 ^ 64 \<Longrightarrow> n < 2 ^ 64 \<Longrightarrow> pad0 w (dec m) = pad0 w (dec n) \<Longrightarrow> m = n"
  by (metis ParseUint_pad_dec prod.inject)

end
