(* ===== verification/Model.thy ===== *)
theory Model
  imports Golib
begin

text \<open>
  The data model, \<open>internal/model/model.go\<close>: operations, transactions, block headers,
  blocks, snapshots and the status report, each a record with the fields of the Go struct in
  their order, under a prefix that names the struct. Heights, nonces and counters keep their
  64 bits and the schema its 32.

  A \<open>[]byte\<close> field whose nil value the code can tell from an empty slice (\<open>Operation.Value\<close>,
  which JSON writes as null or as an empty string) is a \<open>bytes option\<close> with \<open>None\<close> for nil;
  everywhere else the two behave alike and the field is a plain list. A \<open>time.Time\<close> is always
  a UTC time here, given by its calendar fields.
\<close>

record gotime =
  tYear :: nat
  tMonth :: nat
  tDay :: nat
  tHour :: nat
  tMinute :: nat
  tSecond :: nat
  tNano :: nat

record Operation =
  opKey :: string
  opValue :: "bytes option"
  opDelete :: bool

record Transaction =
  txID :: string
  txTimestamp :: gotime
  txSender :: string
  txNonce :: u64
  txOps :: "Operation list"
  txPayload :: bytes
  txKind :: string

record BlockHeader =
  hHeight :: u64
  hTimestamp :: gotime
  hPrevHash :: string
  hTxRoot :: string
  hStateRoot :: string
  hContractRoot :: string
  hAccountRoot :: string
  hContractCodeRoot :: string
  hContractStorageRoot :: string
  hLogRoot :: string
  hZKRoot :: string
  hReceiptRoot :: string
  hRecordHash :: string
  hSchema :: u32
  hCompression :: string

record Block =
  bHeader :: BlockHeader
  bTransactions :: "Transaction list"

type_synonym state = "(string, bytes) fmap"

record Snapshot =
  snFormat :: string
  snCreatedAt :: gotime
  snHeight :: u64
  snLatestHash :: string
  snStateRoot :: string
  snState :: state
  snBlockCount :: u64
  snTxCount :: u64
  snChecksum :: string

record Status =
  stHeight :: u64
  stLatestHash :: string
  stStateRoot :: string
  stContractRoot :: string
  stAccountRoot :: string
  stContractCodeRoot :: string
  stContractStorageRoot :: string
  stLogRoot :: string
  stZKRoot :: string
  stReceiptRoot :: string
  stKeys :: nat
  stAccounts :: nat
  stContracts :: nat
  stContractSlots :: nat
  stZKFields :: nat
  stReceipts :: nat
  stLogs :: nat
  stTransactions :: u64
  stOperations :: u64
  stAirGapped :: bool
  stVerified :: bool
  stSegments :: nat
  stStorageBytes :: nat
  stSnapshots :: nat
  stStorage :: string
  stEngine :: string
  stCompression :: string
  stFormatVersion :: string
  stDurability :: string

text \<open>The contents of a byte slice, nil or not: what \<open>append([]byte{}, v...)\<close> copies.\<close>

definition slice :: "bytes option \<Rightarrow> bytes" where
  "slice v = (case v of None \<Rightarrow> [] | Some b \<Rightarrow> b)"

lemma slice_simps [simp]: "slice None = []" "slice (Some b) = b"
  by (simp_all add: slice_def)

subsection \<open>Errors\<close>

text \<open>
  The operating-system calls of the storage layer that can fail, each named by its place in
  the code. An environment says which of them fail and how many bytes of a failing write to a
  segment or a plain file reach the file. A read from an open file delivers its contents.
\<close>

datatype syscall =
    MkdirAll
  | LockCreate
  | ReadDirData
  | OpenSegment u64
  | TruncateSegment u64
  | OpenActive
  | StatActive
  | BlockOpen u64
  | BlockSeek u64
  | SyncActive
  | CloseActive
  | SegmentWrite
  | SegmentSync
  | WalWrite
  | WalRead
  | WalRemove
  | SnapshotWrite
  | SnapshotRead
  | LockRemove
  | AtomicWrite
  | RenameData
  | RenameCompacted
  | RenameBack
  | RestoreMkdir
  | RestoreRename
  | FileCreate
  | FileWrite

record env =
  fails :: "syscall \<Rightarrow> bool"
  shortWrite :: nat

definition healthy :: env where
  "healthy = \<lparr>fails = (\<lambda>_. False), shortWrite = 0\<rparr>"

lemma healthy_simps [simp]: "fails healthy c = False" "shortWrite healthy = 0"
  by (simp_all add: healthy_def)

text \<open>
  Every error value the modelled code returns, by the call that makes it, and the run-time panic of
  \<open>make\<close> for a capacity that is negative.
\<close>

datatype error =
    LockUnavailable
  | NotExist
  | UnexpectedEOF
  | EOF
  | InvalidMagic
  | InvalidRecordSize nat
  | CRCMismatch
  | InflateFailed
  | GobDecodeFailed
  | GobEncodeFailed
  | RecordExceedsSegment
  | IOFailed syscall
  | HeightDiscontinuity u64 u64
  | PrevHashMismatch u64
  | RecordHashMismatch u64
  | StateRootMismatch u64
  | ContractRootMismatch u64
  | AccountRootMismatch u64
  | ContractCodeRootMismatch u64
  | ContractStorageRootMismatch u64
  | LogRootMismatch u64
  | ZKRootMismatch u64
  | ReceiptRootMismatch u64
  | EmptyBlock
  | TransactionIDRequired
  | EmptyKeyError
  | NoStateChange
  | SnapshotPathRequired
  | UnsupportedSnapshotFormat string
  | SnapshotStateRootMismatch
  | SnapshotChecksumMismatch
  | InvalidJSON string
  | UnsupportedZKField string
  | InvalidFieldElement
  | FieldElementOutside string
  | NodeIDRequired
  | ConfigDecodeFailed
  | NegativeRetention string
  | TargetRequired
  | TargetNotEmpty
  | TargetExists
  | UnsupportedBackupFormat
  | PassphraseRequired
  | EncryptedTruncated
  | DecryptFailed
  | ArchiveFailed
  | UnsafeBackupPath
  | PathConflict string
  | Usage string
  | UnknownCommand string
  | FlagRequired string
  | AirgapRefused
  | KeyNotFound string
  | ProofFailed
  | JSONDecodeFailed
  | CapacityPanic

end
