(* ===== verification/Crc32c.thy ===== *)
theory Crc32c
  imports Prelude
begin

text \<open>
  \<open>hash/crc32\<close> with the Castagnoli table, the checksum the segment frames carry: the table
  of \<open>crc32.MakeTable\<close>, the update step and \<open>crc32.Checksum\<close>. The table-driven step is
  proved equal to eight single-bit shifts, from which the error-detection lemma follows: a
  change confined to four consecutive bytes always changes the checksum.
\<close>

subsection \<open>The table-driven checksum\<close>

definition castagnoli :: u32 where
  "castagnoli = 0x82F63B78"

definition crc_shift :: "u32 \<Rightarrow> u32" where
  "crc_shift x = (if x AND 1 = 1 then drop_bit 1 x XOR castagnoli else drop_bit 1 x)"

fun crc_shifts :: "nat \<Rightarrow> u32 \<Rightarrow> u32" where
  "crc_shifts 0 x = x"
| "crc_shifts (Suc n) x = crc_shifts n (crc_shift x)"

definition crcTable :: "byte \<Rightarrow> u32" where
  "crcTable i = crc_shifts 8 (ucast i)"

definition crc_step :: "byte \<Rightarrow> u32 \<Rightarrow> u32" where
  "crc_step v crc = crcTable (ucast crc XOR v) XOR drop_bit 8 crc"

definition crc32c :: "bytes \<Rightarrow> u32" where
  "crc32c p = NOT (fold crc_step p 0xFFFFFFFF)"

subsection \<open>The shift register is linear and injective\<close>

lemma crc_shift_bit:
  "crc_shift x = (if bit x 0 then drop_bit 1 x XOR castagnoli else drop_bit 1 x)"
  by (simp add: crc_shift_def and_one_eq bit_0 odd_iff_mod_2_eq_one)

lemma crc_shift_xor: "crc_shift (x XOR y) = crc_shift x XOR crc_shift y"
  by (rule bit_eqI) (auto simp: crc_shift_bit bit_simps)

lemma crc_shifts_xor: "crc_shifts n (x XOR y) = crc_shifts n x XOR crc_shifts n y"
  by (induction n arbitrary: x y) (simp_all add: crc_shift_xor)

lemma crc_shifts_add: "crc_shifts (n + m) x = crc_shifts m (crc_shifts n x)"
  by (induction n arbitrary: x) simp_all

lemma crc_shift_0 [simp]: "crc_shift 0 = 0"
  by (simp add: crc_shift_bit)

lemma crc_shift_bit31: "bit (crc_shift x) 31 = bit x 0"
proof -
  have "\<not> bit x 32" using bit_imp_le_length [of x 32] by auto
  then show ?thesis
    by (simp add: crc_shift_bit bit_xor_iff bit_drop_bit_eq castagnoli_def)
qed

lemma crc_shift_eq_0: "crc_shift x = 0 \<longleftrightarrow> x = 0"
proof
  assume z: "crc_shift x = 0"
  then have b0: "\<not> bit x 0" by (metis crc_shift_bit31 bit_0_eq bot_apply bot_bool_def)
  with z have d: "drop_bit 1 x = 0" by (simp add: crc_shift_bit)
  show "x = 0"
  proof (rule bit_eqI)
    fix n
    show "bit x n \<longleftrightarrow> bit 0 n"
    proof (cases n)
      case 0
      with b0 show ?thesis by simp
    next
      case (Suc m)
      have "bit (drop_bit 1 x) m = bit x n" by (simp add: bit_drop_bit_eq Suc)
      with d show ?thesis by simp
    qed
  qed
qed simp

lemma crc_shifts_eq_0: "crc_shifts n x = 0 \<longleftrightarrow> x = 0"
  by (induction n arbitrary: x) (simp_all add: crc_shift_eq_0)

lemma crc_shifts_inject: "crc_shifts n x = crc_shifts n y \<longleftrightarrow> x = y"
proof -
  have "crc_shifts n x = crc_shifts n y \<longleftrightarrow> crc_shifts n (x XOR y) = 0"
    by (simp add: crc_shifts_xor xor_eq_0_iff)
  also have "\<dots> \<longleftrightarrow> x = y"
    by (simp add: crc_shifts_eq_0 xor_eq_0_iff)
  finally show ?thesis .
qed

text \<open>While the low bits are zero, shifting is a plain right shift.\<close>

lemma crc_shifts_low_zero: "(\<forall>i<n. \<not> bit x i) \<Longrightarrow> crc_shifts n x = drop_bit n x"
proof (induction n arbitrary: x)
  case 0
  then show ?case by simp
next
  case (Suc n)
  have "crc_shift x = drop_bit 1 x"
    using Suc.prems by (simp add: crc_shift_bit)
  moreover have "\<forall>i<n. \<not> bit (drop_bit 1 x) i"
    using Suc.prems by (auto simp: bit_drop_bit_eq)
  ultimately show ?case
    using Suc.IH [of "drop_bit 1 x"] by (simp add: drop_bit_drop_bit)
qed

lemma crc_shifts_8:
  "crc_shifts 8 x = crc_shift (crc_shift (crc_shift (crc_shift
     (crc_shift (crc_shift (crc_shift (crc_shift x)))))))"
  by (simp add: numeral_eq_Suc)

lemmas crc_eval = crc32c_def crc_step_def crcTable_def crc_shifts_8 crc_shift_def castagnoli_def

text \<open>The table step is the bitwise step: fold a byte into the low end and shift eight times.\<close>

lemma crc_step_bitwise: "crc_step v crc = crc_shifts 8 (crc XOR ucast v)"
proof -
  let ?hi = "push_bit 8 (drop_bit 8 crc)"
  have split: "crc XOR ucast v = ucast (ucast crc XOR v) XOR ?hi"
    by (rule bit_eqI) (auto simp: bit_simps)
  have "drop_bit 8 (push_bit 8 (drop_bit 8 crc)) = drop_bit 8 crc"
    by (rule bit_eqI) (auto simp: bit_simps dest: bit_imp_le_length)
  then have "crc_shifts 8 ?hi = drop_bit 8 crc"
    by (subst crc_shifts_low_zero) (auto simp: bit_simps)
  then show ?thesis
    by (simp only: split crc_shifts_xor crc_step_def crcTable_def)
qed

subsection \<open>Burst detection\<close>

text \<open>
  Up to four bytes enter the register as one 32-bit word, first byte in the low end, so two
  different runs of the same length leave different registers.
\<close>

fun le_word :: "bytes \<Rightarrow> u32" where
  "le_word [] = 0"
| "le_word (b # bs) = ucast b XOR push_bit 8 (le_word bs)"

lemma le_word_bits: "bit (le_word bs) n \<Longrightarrow> n < 8 * length bs"
proof (induction bs arbitrary: n)
  case (Cons b bs)
  show ?case
  proof (cases "n < 8")
    case False
    with Cons.prems have "bit (le_word bs) (n - 8)"
      by (auto simp: bit_simps dest: bit_imp_le_length)
    with Cons.IH [of "n - 8"] False show ?thesis by simp
  qed simp
qed simp

lemma le_word_push: "length bs \<le> 3 \<Longrightarrow> drop_bit 8 (push_bit 8 (le_word bs)) = le_word bs"
  by (rule bit_eqI) (auto simp: bit_simps dest: le_word_bits)

lemma crc_step_fold: "length u \<le> 4 \<Longrightarrow>
  fold crc_step u s = crc_shifts (8 * length u) (s XOR le_word u)"
proof (induction u arbitrary: s)
  case (Cons b bs)
  let ?p = "push_bit 8 (le_word bs)"
  have "crc_shifts 8 ?p = le_word bs"
    using Cons.prems by (subst crc_shifts_low_zero) (auto simp: bit_simps le_word_push)
  then have step: "crc_step b s XOR le_word bs = crc_shifts 8 (s XOR le_word (b # bs))"
    by (simp add: crc_step_bitwise crc_shifts_xor xor.assoc)
  have "fold crc_step (b # bs) s = crc_shifts (8 * length bs) (crc_step b s XOR le_word bs)"
    using Cons by simp
  also have "\<dots> = crc_shifts (8 * length (b # bs)) (s XOR le_word (b # bs))"
    by (simp only: step crc_shifts_add [symmetric]) simp
  finally show ?case .
qed simp

lemma le_word_inject:
  "length u = length v \<Longrightarrow> length u \<le> 4 \<Longrightarrow> le_word u = le_word v \<Longrightarrow> u = v"
proof (induction u v rule: list_induct2)
  case (Cons b bs c cs)
  have low: "b = c"
  proof (rule bit_eqI)
    fix n assume "possible_bit TYPE(byte) n"
    then have n: "n < 8" by simp
    have "bit (le_word (b # bs)) n = bit b n" "bit (le_word (c # cs)) n = bit c n"
      using n by (simp_all add: bit_simps)
    with Cons.prems show "bit b n = bit c n" by simp
  qed
  then have "push_bit 8 (le_word bs) = push_bit 8 (le_word cs)"
    using Cons.prems by simp
  then have "drop_bit 8 (push_bit 8 (le_word bs)) = drop_bit 8 (push_bit 8 (le_word cs))"
    by simp
  then have "le_word bs = le_word cs"
    using Cons by (simp add: le_word_push)
  with Cons low show ?case by simp
qed simp

lemma crc_step_inject: "crc_step v s = crc_step v t \<longleftrightarrow> s = t"
  by (simp add: crc_step_bitwise crc_shifts_inject)

lemma crc_fold_inject: "fold crc_step q s = fold crc_step q t \<longleftrightarrow> s = t"
  by (induction q arbitrary: s t) (simp_all add: crc_step_inject)

lemma crc32c_burst:
  assumes "length u = length v" and "length u \<le> 4" and "u \<noteq> v"
  shows "crc32c (p @ u @ q) \<noteq> crc32c (p @ v @ q)"
proof
  let ?s = "fold crc_step p 0xFFFFFFFF"
  assume "crc32c (p @ u @ q) = crc32c (p @ v @ q)"
  then have "fold crc_step u ?s = fold crc_step v ?s"
    by (simp add: crc32c_def crc_fold_inject)
  then have "?s XOR le_word u = ?s XOR le_word v"
    using assms(1,2) by (simp only: crc_step_fold crc_shifts_inject)
  then have "le_word u = le_word v" by simp
  with assms le_word_inject show False by blast
qed

lemma crc32c_check: "crc32c (bytes_of ''123456789'') = 0xE3069283"
  by (simp add: crc_eval)

end
