(* ===== verification/Frame.thy ===== *)
theory Frame
  imports Model Crc32c
begin

text \<open>
  The record framing of \<open>internal/storage/files.go\<close>: \<open>frame\<close> writes a 16-byte header (magic,
  length, CRC32C and schema, big-endian) and a payload that is compressed when this makes it
  shorter; \<open>readFrame\<close> reads one record back.

  \<open>encoding/gob\<close> and \<open>compress/zlib\<close> are the parameter \<open>codec\<close>: a gob stream depends on type
  numbers the process hands out at run time, so its bytes are not a function of the source.
  What the code relies on is \<open>codec_laws\<close>: what was encoded decodes, up to the empty slices
  that gob does not transmit, and what was compressed decompresses.
\<close>

record codec =
  gobEncode :: "Block \<Rightarrow> bytes option"
  gobDecode :: "bytes \<Rightarrow> Block option"
  gobEncodeSnapshot :: "Snapshot \<Rightarrow> bytes option"
  gobDecodeSnapshot :: "bytes \<Rightarrow> Snapshot option"
  deflate :: "bytes \<Rightarrow> bytes option"
  inflate :: "bytes \<Rightarrow> bytes option"

text \<open>gob leaves out fields of length zero: an empty slice comes back as nil.\<close>

definition gobOperation :: "Operation \<Rightarrow> Operation" where
  "gobOperation op = op\<lparr>opValue := (if opValue op = Some [] then None else opValue op)\<rparr>"

definition gobTransaction :: "Transaction \<Rightarrow> Transaction" where
  "gobTransaction tx = tx\<lparr>txOps := map gobOperation (txOps tx)\<rparr>"

definition gobBlock :: "Block \<Rightarrow> Block" where
  "gobBlock b = b\<lparr>bTransactions := map gobTransaction (bTransactions b)\<rparr>"

definition codec_laws :: "codec \<Rightarrow> bool" where
  "codec_laws cx \<longleftrightarrow>
     (\<forall>b p. gobEncode cx b = Some p \<longrightarrow> p \<noteq> [] \<and> gobDecode cx p = Some (gobBlock b)) \<and>
     (\<forall>s p. gobEncodeSnapshot cx s = Some p \<longrightarrow> p \<noteq> [] \<and> gobDecodeSnapshot cx p = Some s) \<and>
     (\<forall>p z. deflate cx p = Some z \<longrightarrow> z \<noteq> [] \<and> inflate cx z = Some p)"

lemma codec_lawsD:
  assumes "codec_laws cx"
  shows "gobEncode cx b = Some p \<Longrightarrow> p \<noteq> []"
    and "gobEncode cx b = Some p \<Longrightarrow> gobDecode cx p = Some (gobBlock b)"
    and "gobEncodeSnapshot cx s = Some p \<Longrightarrow> p \<noteq> []"
    and "gobEncodeSnapshot cx s = Some p \<Longrightarrow> gobDecodeSnapshot cx p = Some s"
    and "deflate cx q = Some z \<Longrightarrow> z \<noteq> []"
    and "deflate cx q = Some z \<Longrightarrow> inflate cx z = Some q"
  using assms unfolding codec_laws_def by blast+

subsection \<open>Writing\<close>

definition magic :: u32 where
  "magic = 0x41474932"

definition maxRecordSize :: nat where
  "maxRecordSize = 256 * 2 ^ 20"

definition frameBody :: "codec \<Rightarrow> bytes \<Rightarrow> bytes" where
  "frameBody cx payload =
     (case deflate cx payload of
        None \<Rightarrow> payload
      | Some encoded \<Rightarrow> if length payload \<le> length encoded then payload else encoded)"

definition frameHeader :: "nat \<Rightarrow> u32 \<Rightarrow> u32 \<Rightarrow> bytes" where
  "frameHeader len crc schema =
     putUint32 magic @ putUint32 (of_nat len) @ putUint32 crc @ putUint32 schema"

definition frame :: "codec \<Rightarrow> bytes \<Rightarrow> bytes" where
  "frame cx payload =
     (let encoded = frameBody cx payload;
          schema = (if length encoded = length payload then 1 else 2)
      in frameHeader (length encoded) (crc32c encoded) schema @ encoded)"

subsection \<open>Reading\<close>

text \<open>
  The result and the number of bytes consumed. \<open>io.ReadFull\<close> reports \<open>EOF\<close> when nothing could
  be read and \<open>UnexpectedEOF\<close> when the input ends in the middle; both reads, of the header
  and of the payload, pass its error on.
\<close>

definition ReadFull :: "nat \<Rightarrow> bytes \<Rightarrow> error + bytes" where
  "ReadFull n r =
     (if n \<le> length r then Inr (take n r) else if r = [] then Inl EOF else Inl UnexpectedEOF)"

definition headerWord :: "bytes \<Rightarrow> nat \<Rightarrow> u32" where
  "headerWord h i = getUint32 (h ! i) (h ! (i + 1)) (h ! (i + 2)) (h ! (i + 3))"

definition readFrame :: "codec \<Rightarrow> bytes \<Rightarrow> (error + bytes) \<times> nat" where
  "readFrame cx r =
     (case ReadFull 16 r of
        Inl e \<Rightarrow> (Inl e, if e = EOF then 0 else length r)
      | Inr h \<Rightarrow>
          if headerWord h 0 \<noteq> magic then (Inl InvalidMagic, 16)
          else let l = unat (headerWord h 4) in
            if l = 0 \<or> maxRecordSize < l then (Inl (InvalidRecordSize l), 16)
            else case ReadFull l (drop 16 r) of
                Inl e \<Rightarrow> (Inl e, 16 + length (drop 16 r))
              | Inr p \<Rightarrow>
                  if crc32c p \<noteq> headerWord h 8 then (Inl CRCMismatch, 16 + l)
                  else if headerWord h 12 = 2 then
                    (case inflate cx p of
                       None \<Rightarrow> (Inl InflateFailed, 16 + l)
                     | Some q \<Rightarrow> (Inr q, 16 + l))
                  else (Inr p, 16 + l))"

subsection \<open>Reading what was written\<close>

lemma length_frameHeader [simp]: "length (frameHeader len crc schema) = 16"
  by (simp add: frameHeader_def)

lemma frameHeader_not_Nil [simp]: "frameHeader len crc schema \<noteq> []"
  by (simp add: frameHeader_def putUint32_def)

lemma headerWord_frameHeader [simp]:
  "headerWord (frameHeader len crc schema) 0 = magic"
  "headerWord (frameHeader len crc schema) 4 = of_nat len"
  "headerWord (frameHeader len crc schema) 8 = crc"
  "headerWord (frameHeader len crc schema) 12 = schema"
  by (simp_all add: headerWord_def frameHeader_def putUint32_def)

lemma length_frame [simp]: "length (frame cx p) = 16 + length (frameBody cx p)"
  by (simp add: frame_def Let_def)

lemma ReadFull_append [simp]: "n = length x \<Longrightarrow> ReadFull n (x @ r) = Inr x"
  by (simp add: ReadFull_def)

lemma ReadFull_eq: "length x = n \<Longrightarrow> ReadFull n x = Inr x"
  by (simp add: ReadFull_def)

text \<open>Any well-formed header followed by enough bytes reads as the payload check says.\<close>

lemma readFrame_header:
  assumes "0 < length body" and "length body \<le> maxRecordSize"
  shows "readFrame cx (frameHeader (length body) crc schema @ body @ r) =
    (if crc32c body \<noteq> crc then Inl CRCMismatch
     else if schema = 2 then (case inflate cx body of None \<Rightarrow> Inl InflateFailed | Some q \<Rightarrow> Inr q)
     else Inr body, 16 + length body)"
proof -
  have "unat (of_nat (length body) :: u32) = length body"
    using assms(2) by (simp add: unat_of_nat maxRecordSize_def)
  with assms show ?thesis
    by (simp add: readFrame_def Let_def split: option.splits)
qed

lemma frameBody_cases:
  obtains (raw) "frameBody cx p = p"
  | (compressed) z where "deflate cx p = Some z" "frameBody cx p = z" "length z < length p"
proof (cases "deflate cx p")
  case None
  then show ?thesis by (intro raw) (simp add: frameBody_def)
next
  case (Some z)
  then show ?thesis
    by (cases "length p \<le> length z") (auto simp: frameBody_def intro: raw compressed)
qed

lemma frameBody_not_Nil: "codec_laws cx \<Longrightarrow> p \<noteq> [] \<Longrightarrow> frameBody cx p \<noteq> []"
  by (rule frameBody_cases [of cx p]) (auto dest: codec_lawsD(5))

lemma readFrame_frame:
  assumes "codec_laws cx" and "p \<noteq> []" and "length (frameBody cx p) \<le> maxRecordSize"
  shows "readFrame cx (frame cx p @ r) = (Inr p, length (frame cx p))"
proof -
  have "0 < length (frameBody cx p)" using frameBody_not_Nil [OF assms(1,2)] by simp
  note rd = readFrame_header [OF this assms(3)]
  show ?thesis
  proof (cases rule: frameBody_cases [of cx p])
    case raw
    then show ?thesis using rd [of cx _ 1 r] by (simp add: frame_def Let_def)
  next
    case (compressed z)
    then show ?thesis using rd [of cx _ 2 r] codec_lawsD(6) [OF assms(1)]
      by (simp add: frame_def Let_def)
  qed
qed

lemma readFrame_torn:
  fixes crc schema
  assumes "0 < length body" and "length body \<le> maxRecordSize"
    and "n < 16 + length body"
  shows "readFrame cx (take n (frameHeader (length body) crc schema @ body)) = (Inl (if n = 0 \<or> n = 16 then EOF else UnexpectedEOF), n)"
proof -
  let ?r = "take n (frameHeader (length body) crc schema @ body)"
  have u: "unat (of_nat (length body) :: u32) = length body"
    using assms(2) by (simp add: unat_of_nat maxRecordSize_def)
  show ?thesis
  proof (cases "n < 16")
    case True
    then show ?thesis by (auto simp: readFrame_def ReadFull_def)
  next
    case False
    then have "?r = frameHeader (length body) crc schema @ take (n - 16) body"
      by simp
    with False assms(1-3) u show ?thesis
      by (simp only:) (auto simp: readFrame_def ReadFull_def Let_def)
  qed
qed

lemma readFrame_Inr_consumes: "readFrame cx r = (Inr p, n) \<Longrightarrow> 16 < n \<and> n \<le> length r"
  by (auto simp: readFrame_def ReadFull_def Let_def split: if_splits option.splits)

subsection \<open>A codec over a table of blocks\<close>

text \<open>
  A concrete codec, for witnesses: it encodes the blocks of a list by their position and
  compresses one particular payload.
\<close>

definition tableCodec :: "Block list \<Rightarrow> codec" where
  "tableCodec bs =
     \<lparr>gobEncode = (\<lambda>b. if b \<in> set bs then Some (replicate (Suc (length (takeWhile (\<lambda>c. c \<noteq> b) bs))) 1)
                     else None),
      gobDecode = (\<lambda>p. if 0 < length p \<and> length p \<le> length bs
                     then Some (gobBlock (bs ! (length p - 1))) else None),
      gobEncodeSnapshot = (\<lambda>s. None),
      gobDecodeSnapshot = (\<lambda>p. None),
      deflate = (\<lambda>p. if p = replicate 32 0 then Some [5, 5] else None),
      inflate = (\<lambda>z. if z = [5, 5] then Some (replicate 32 0) else None)\<rparr>"

lemma tableCodec_laws [simp]: "codec_laws (tableCodec bs)"
proof -
  have "length (takeWhile (\<lambda>c. c \<noteq> b) bs) < length bs \<and> bs ! length (takeWhile (\<lambda>c. c \<noteq> b) bs) = b"
    if "b \<in> set bs" for b
    using that by (induction bs) auto
  then show ?thesis
    by (auto simp: codec_laws_def tableCodec_def Suc_le_eq split: if_splits)
qed

subsection \<open>Properties\<close>

text \<open>
  C34: A record read back from the bytes that were framed is the payload that went in,
  compressed or not, and the reader consumes exactly the frame, whatever follows it.
\<close>

theorem readFrame_inverts_frame:
  "codec_laws cx \<Longrightarrow> p \<noteq> [] \<Longrightarrow> length (frameBody cx p) \<le> maxRecordSize \<Longrightarrow>
   readFrame cx (frame cx p @ r) = (Inr p, length (frame cx p))"
  by (rule readFrame_frame)

theorem readFrame_inverts_frame_witness:
  "readFrame (tableCodec []) (frame (tableCodec []) (replicate 32 0) @ [1, 2, 3])
     = (Inr (replicate 32 0), 18)"
proof -
  let ?p = "replicate 32 0 :: bytes"
  have b: "frameBody (tableCodec []) ?p = [5, 5]"
    by (simp add: frameBody_def tableCodec_def)
  then have "length (frameBody (tableCodec []) ?p) \<le> maxRecordSize"
    by (simp add: maxRecordSize_def numeral_3_eq_3)
  from readFrame_inverts_frame [OF tableCodec_laws _ this, of "[1, 2, 3]"] b
  show ?thesis by simp
qed

text \<open>
  C35: Corruption of up to four consecutive bytes of a stored record body, compressed or not,
  is always reported as a CRC mismatch.
\<close>

theorem readFrame_detects_burst:
  assumes "0 < length (pre @ u @ post)" and "length (pre @ u @ post) \<le> maxRecordSize"
    and "length u = length v" and "length u \<le> 4" and "u \<noteq> v"
  shows "fst (readFrame cx (frameHeader (length (pre @ u @ post)) (crc32c (pre @ u @ post)) schema
           @ (pre @ v @ post) @ r)) = Inl CRCMismatch"
proof -
  have len: "length (pre @ u @ post) = length (pre @ v @ post)" using assms(3) by simp
  show ?thesis
    using assms crc32c_burst [of u v pre post]
    by (subst len, subst readFrame_header) auto
qed

theorem readFrame_detects_burst_witness:
  "fst (readFrame (tableCodec []) (frameHeader 3 (crc32c [1, 2, 3]) 1 @ [1, 7, 3])) = Inl CRCMismatch"
  using readFrame_detects_burst [of "[1]" "[2]" "[3]" "[7]" "tableCodec []" 1 "[]"] by (simp add: maxRecordSize_def numeral_3_eq_3)

text \<open>
  A record cut short is reported as \<open>EOF\<close>, the answer of a cleanly ended file, when nothing
  of it is left and also when exactly its 16-byte header is left; at every other length it is
  reported as an unexpected end.
\<close>

theorem readFrame_cut_short:
  "0 < length body \<Longrightarrow> length body \<le> maxRecordSize \<Longrightarrow> n < 16 + length body \<Longrightarrow>
   readFrame cx (take n (frameHeader (length body) crc schema @ body))
     = (Inl (if n = 0 \<or> n = 16 then EOF else UnexpectedEOF), n)"
  by (rule readFrame_torn)

theorem readFrame_cut_short_witness:
  "readFrame (tableCodec []) (frameHeader 3 7 1) = (Inl EOF, 16)"
  using readFrame_cut_short [of "[1, 2, 3]" 16 "tableCodec []" 7 1] by (simp add: maxRecordSize_def numeral_3_eq_3)

end
