(* ===== verification/Storage.thy ===== *)
theory Storage
  imports Frame
begin

text \<open>
  \<open>internal/storage/files.go\<close>: the segment files, the write-ahead log and the snapshots of one
  database directory. The directory is the record \<open>disk\<close> (the file contents by name), the
  struct \<open>Files\<close> is the record of its in-memory fields. Every operation takes an environment
  that says which operating-system calls fail and passes the disk and the struct on.
\<close>

record disk =
  dLock :: bool
  dData :: "(string, bytes) fmap"
  dWal :: "bytes option"
  dSnapshots :: "(string, bytes) fmap"

definition emptyDisk :: disk where
  "emptyDisk = \<lparr>dLock = False, dData = fmempty, dWal = None, dSnapshots = fmempty\<rparr>"

record Location =
  locSegment :: u64
  locOffset :: nat
  locLength :: u32

text \<open>The field \<open>active\<close>: nil, an open handle on a segment, or a handle that was closed.\<close>

datatype handle = NoFile | OpenFile u64 | ClosedFile

record Files =
  fSegmentSize :: nat
  fActiveID :: u64
  fActive :: handle
  fActiveSize :: nat
  fIndex :: "(u64, Location) fmap"

definition defaultSegmentSize :: nat where
  "defaultSegmentSize = 256 * 2 ^ 20"

definition segmentPath :: "u64 \<Rightarrow> string" where
  "segmentPath n = ''segment-'' @ pad0 20 (dec (unat n)) @ ''.agi''"

definition dataFile :: "disk \<Rightarrow> u64 \<Rightarrow> bytes" where
  "dataFile d n = slice (fmlookup (dData d) (segmentPath n))"

definition setData :: "u64 \<Rightarrow> bytes \<Rightarrow> disk \<Rightarrow> disk" where
  "setData n c d = d\<lparr>dData := fmupd (segmentPath n) c (dData d)\<rparr>"

subsection \<open>Recovery\<close>

text \<open>
  The loop of \<open>recoverSegments\<close> over one segment: \<open>off\<close> is the offset of \<open>rest\<close> in the file.
  The second component of the result is the length to truncate the file to, if any.
\<close>

function recoverLoop :: "codec \<Rightarrow> u64 \<Rightarrow> nat \<Rightarrow> bytes \<Rightarrow> (u64, Location) fmap \<Rightarrow>
    error + (u64, Location) fmap \<times> nat option" where
  "recoverLoop cx sid off rest idx =
     (case readFrame cx rest of
        (Inl e, _) \<Rightarrow> Inr (idx, if e = EOF then None else Some off)
      | (Inr p, n) \<Rightarrow>
          (case gobDecode cx p of
             None \<Rightarrow> Inl GobDecodeFailed
           | Some b \<Rightarrow> recoverLoop cx sid (off + n) (drop n rest)
               (fmupd (hHeight (bHeader b))
                  \<lparr>locSegment = sid, locOffset = off, locLength = of_nat n\<rparr> idx)))"
  by pat_completeness auto
termination
  by (relation "measure (\<lambda>(cx, sid, off, rest, idx). length rest)")
    (auto dest!: readFrame_Inr_consumes [OF sym])

declare recoverLoop.simps [simp del]

definition recoverSegment :: "env \<Rightarrow> codec \<Rightarrow> u64 \<Rightarrow> disk \<times> (u64, Location) fmap \<Rightarrow>
    (error + (u64, Location) fmap) \<times> disk" where
  "recoverSegment env cx sid s =
     (case s of (d, idx) \<Rightarrow>
       (case fmlookup (dData d) (segmentPath sid) of
          None \<Rightarrow> (Inl NotExist, d)
        | Some content \<Rightarrow>
            if fails env (OpenSegment sid) then (Inl (IOFailed (OpenSegment sid)), d)
            else (case recoverLoop cx sid 0 content idx of
                    Inl e \<Rightarrow> (Inl e, d)
                  | Inr (idx', None) \<Rightarrow> (Inr idx', d)
                  | Inr (idx', Some off) \<Rightarrow>
                      if fails env (TruncateSegment sid)
                      then (Inl (IOFailed (TruncateSegment sid)), d)
                      else (Inr idx', setData sid (take off content) d))))"

fun recoverAll :: "env \<Rightarrow> codec \<Rightarrow> u64 list \<Rightarrow> disk \<Rightarrow> (u64, Location) fmap \<Rightarrow>
    (error + (u64, Location) fmap) \<times> disk" where
  "recoverAll env cx [] d idx = (Inr idx, d)"
| "recoverAll env cx (sid # ids) d idx =
     (case recoverSegment env cx sid (d, idx) of
        (Inl e, d') \<Rightarrow> (Inl e, d')
      | (Inr idx', d') \<Rightarrow> recoverAll env cx ids d' idx')"

text \<open>The ids of the directory's segment files; the error of \<open>ParseUint\<close> is dropped.\<close>

definition segmentId :: "string \<Rightarrow> u64" where
  "segmentId name = of_nat (fst (ParseUint (TrimSuffix (TrimPrefix name ''segment-'') ''.agi'')))"

definition segmentIds :: "disk \<Rightarrow> u64 list" where
  "segmentIds d = sort (map segmentId
     (filter (\<lambda>name. HasPrefix name ''segment-'') (sorted_list_of_fset (fmdom (dData d)))))"

definition recoverSegments :: "env \<Rightarrow> codec \<Rightarrow> disk \<Rightarrow> Files \<Rightarrow> (error + Files) \<times> disk" where
  "recoverSegments env cx d f =
     (if fails env ReadDirData then (Inl (IOFailed ReadDirData), d)
      else case recoverAll env cx (segmentIds d) d (fIndex f) of
          (Inl e, d') \<Rightarrow> (Inl e, d')
        | (Inr idx, d') \<Rightarrow>
            (Inr (f\<lparr>fIndex := idx, fActiveID := fold max (segmentIds d) (fActiveID f)\<rparr>), d'))"

subsection \<open>The active segment\<close>

definition openActive :: "env \<Rightarrow> disk \<Rightarrow> Files \<Rightarrow> (error + unit) \<times> disk \<times> Files" where
  "openActive env d f =
     (let f = f\<lparr>fActiveID := (if fActiveID f = 0 then 1 else fActiveID f)\<rparr>;
          sid = fActiveID f
      in if fails env OpenActive then (Inl (IOFailed OpenActive), d, f)
         else let d = (if fmlookup (dData d) (segmentPath sid) = None then setData sid [] d else d)
           in if fails env StatActive then (Inl (IOFailed StatActive), d, f)
              else (Inr (), d,
                    f\<lparr>fActive := OpenFile sid, fActiveSize := length (dataFile d sid)\<rparr>))"

definition rotate :: "env \<Rightarrow> disk \<Rightarrow> Files \<Rightarrow> (error + unit) \<times> disk \<times> Files" where
  "rotate env d f =
     (case fActive f of
        NoFile \<Rightarrow> openActive env d (f\<lparr>fActiveID := fActiveID f + 1\<rparr>)
      | ClosedFile \<Rightarrow> (Inl (IOFailed SyncActive), d, f)
      | OpenFile _ \<Rightarrow>
          if fails env SyncActive then (Inl (IOFailed SyncActive), d, f)
          else if fails env CloseActive
            then (Inl (IOFailed CloseActive), d, f\<lparr>fActive := ClosedFile\<rparr>)
          else openActive env d (f\<lparr>fActive := ClosedFile, fActiveID := fActiveID f + 1\<rparr>))"

subsection \<open>Open and Close\<close>

definition Storage_Open :: "env \<Rightarrow> codec \<Rightarrow> disk \<Rightarrow> (error + Files) \<times> disk" where
  "Storage_Open env cx d =
     (if fails env MkdirAll then (Inl (IOFailed MkdirAll), d)
      else if dLock d \<or> fails env LockCreate then (Inl LockUnavailable, d)
      else let d = d\<lparr>dLock := True\<rparr>;
               f = \<lparr>fSegmentSize = defaultSegmentSize, fActiveID = 0, fActive = NoFile,
                    fActiveSize = 0, fIndex = fmempty\<rparr>
        in case recoverSegments env cx d f of
             (Inl e, d) \<Rightarrow> (Inl e, d)
           | (Inr f, d) \<Rightarrow>
               (case openActive env d f of
                  (Inl e, d, _) \<Rightarrow> (Inl e, d)
                | (Inr _, d, f) \<Rightarrow> (Inr f, d)))"

text \<open>The first error wins; the handle is dropped and the lock removed whatever happens.\<close>

definition Storage_Close :: "env \<Rightarrow> disk \<Rightarrow> Files \<Rightarrow> (error + unit) \<times> disk \<times> Files" where
  "Storage_Close env d f =
     (if fActive f = NoFile then (Inr (), d, f)
      else let err = (if fails env SyncActive \<or> fActive f = ClosedFile
                      then Inl (IOFailed SyncActive)
                      else if fails env CloseActive then Inl (IOFailed CloseActive) else Inr ());
               f = f\<lparr>fActive := NoFile\<rparr>
        in if fails env LockRemove
           then (if err = Inr () then Inl (IOFailed LockRemove) else err, d, f)
           else (err, d\<lparr>dLock := False\<rparr>, f))"

subsection \<open>Blocks\<close>

definition AppendBlock :: "env \<Rightarrow> codec \<Rightarrow> Block \<Rightarrow> disk \<Rightarrow> Files \<Rightarrow>
    (error + unit) \<times> disk \<times> Files" where
  "AppendBlock env cx block d f =
     (case gobEncode cx block of
        None \<Rightarrow> (Inl GobEncodeFailed, d, f)
      | Some p \<Rightarrow>
         (let fr = frame cx p in
          if fSegmentSize f < length fr then (Inl RecordExceedsSegment, d, f)
          else case (if fSegmentSize f < fActiveSize f + length fr then rotate env d f
                     else (Inr (), d, f)) of
              (Inl e, d, f) \<Rightarrow> (Inl e, d, f)
            | (Inr _, d, f) \<Rightarrow>
               (case fActive f of
                  OpenFile sid \<Rightarrow>
                    if fails env SegmentWrite
                    then (Inl (IOFailed SegmentWrite),
                          setData sid (dataFile d sid @ take (shortWrite env) fr) d, f)
                    else let d = setData sid (dataFile d sid @ fr) d in
                      if fails env SegmentSync then (Inl (IOFailed SegmentSync), d, f)
                      else (Inr (), d,
                            f\<lparr>fActiveSize := fActiveSize f + length fr,
                              fIndex := fmupd (hHeight (bHeader block))
                                \<lparr>locSegment = fActiveID f, locOffset = fActiveSize f,
                                 locLength = of_nat (length fr)\<rparr> (fIndex f)\<rparr>)
                | _ \<Rightarrow> (Inl (IOFailed SegmentWrite), d, f))))"

text \<open>A missing segment file is its own error; opening one that is there and seeking in it can fail, too.\<close>

definition ReadBlock :: "env \<Rightarrow> codec \<Rightarrow> disk \<Rightarrow> Files \<Rightarrow> u64 \<Rightarrow> error + Block" where
  "ReadBlock env cx d f height =
     (case fmlookup (fIndex f) height of
        None \<Rightarrow> Inl NotExist
      | Some loc \<Rightarrow>
         (case fmlookup (dData d) (segmentPath (locSegment loc)) of
            None \<Rightarrow> Inl NotExist
          | Some content \<Rightarrow>
              if fails env (BlockOpen height) then Inl (IOFailed (BlockOpen height))
              else if fails env (BlockSeek height) then Inl (IOFailed (BlockSeek height))
              else (case fst (readFrame cx (drop (locOffset loc) content)) of
                      Inl e \<Rightarrow> Inl e
                    | Inr p \<Rightarrow> (case gobDecode cx p of
                                  None \<Rightarrow> Inl GobDecodeFailed
                                | Some b \<Rightarrow> Inr b))))"

fun readHeights :: "env \<Rightarrow> codec \<Rightarrow> disk \<Rightarrow> Files \<Rightarrow> u64 list \<Rightarrow> error + Block list" where
  "readHeights env cx d f [] = Inr []"
| "readHeights env cx d f (h # hs) =
     (case ReadBlock env cx d f h of
        Inl e \<Rightarrow> Inl e
      | Inr b \<Rightarrow> (case readHeights env cx d f hs of Inl e \<Rightarrow> Inl e | Inr bs \<Rightarrow> Inr (b # bs)))"

definition ReadAll :: "env \<Rightarrow> codec \<Rightarrow> disk \<Rightarrow> Files \<Rightarrow> error + Block list" where
  "ReadAll env cx d f = readHeights env cx d f (sorted_list_of_fset (fmdom (fIndex f)))"

subsection \<open>The write-ahead log\<close>

text \<open>
  The log is written to a temporary file, synced and renamed over \<open>commit.wal\<close>: a failure of
  any of these calls leaves \<open>commit.wal\<close> as it was, so they count as one.
\<close>

definition WriteWAL :: "env \<Rightarrow> codec \<Rightarrow> Block \<Rightarrow> disk \<Rightarrow> (error + unit) \<times> disk" where
  "WriteWAL env cx block d =
     (case gobEncode cx block of
        None \<Rightarrow> (Inl GobEncodeFailed, d)
      | Some p \<Rightarrow>
          if fails env WalWrite then (Inl (IOFailed WalWrite), d)
          else (Inr (), d\<lparr>dWal := Some (frame cx p)\<rparr>))"

definition ReadWAL :: "env \<Rightarrow> codec \<Rightarrow> disk \<Rightarrow> error + Block option" where
  "ReadWAL env cx d =
     (case dWal d of
        None \<Rightarrow> Inr None
      | Some content \<Rightarrow>
          if fails env WalRead then Inl (IOFailed WalRead)
          else (case fst (readFrame cx content) of
                  Inl e \<Rightarrow> Inl e
                | Inr p \<Rightarrow> (case gobDecode cx p of
                              None \<Rightarrow> Inl GobDecodeFailed
                            | Some b \<Rightarrow> Inr (Some b))))"

definition ClearWAL :: "env \<Rightarrow> disk \<Rightarrow> (error + unit) \<times> disk" where
  "ClearWAL env d =
     (if dWal d = None then (Inr (), d)
      else if fails env WalRemove then (Inl (IOFailed WalRemove), d)
      else (Inr (), d\<lparr>dWal := None\<rparr>))"

subsection \<open>Counts and snapshots\<close>

definition SegmentCount :: "Files \<Rightarrow> nat" where
  "SegmentCount f =
     (let seen = locSegment |`| fmran (fIndex f) in
      if seen = {||} \<and> fActiveID f > 0 then 1 else fcard seen)"

definition StorageBytes :: "env \<Rightarrow> disk \<Rightarrow> nat" where
  "StorageBytes env d =
     (if fails env ReadDirData then 0
      else sum_list (map (\<lambda>name. length (slice (fmlookup (dData d) name)))
             (sorted_list_of_fset (fmdom (dData d)))))"

definition SnapshotCount :: "disk \<Rightarrow> nat" where
  "SnapshotCount d = fcard (ffilter (\<lambda>name. HasSuffix name ''.agsnap'') (fmdom (dSnapshots d)))"

definition snapshotName :: "u64 \<Rightarrow> string" where
  "snapshotName h = ''snapshot-'' @ pad0 20 (dec (unat h)) @ ''.agsnap''"

text \<open>Snapshots are written as the log is: temporary file, sync, rename.\<close>

definition WriteSnapshot :: "env \<Rightarrow> codec \<Rightarrow> Snapshot \<Rightarrow> disk \<Rightarrow> (error + string) \<times> disk" where
  "WriteSnapshot env cx s d =
     (case gobEncodeSnapshot cx s of
        None \<Rightarrow> (Inl GobEncodeFailed, d)
      | Some p \<Rightarrow>
          if fails env SnapshotWrite then (Inl (IOFailed SnapshotWrite), d)
          else (Inr (snapshotName (snHeight s)),
                d\<lparr>dSnapshots := fmupd (snapshotName (snHeight s)) (frame cx p) (dSnapshots d)\<rparr>))"

definition ReadSnapshot :: "env \<Rightarrow> codec \<Rightarrow> disk \<Rightarrow> string \<Rightarrow> error + Snapshot" where
  "ReadSnapshot env cx d path =
     (if path = [] then Inl SnapshotPathRequired
      else case fmlookup (dSnapshots d) path of
          None \<Rightarrow> Inl NotExist
        | Some content \<Rightarrow>
            if fails env SnapshotRead then Inl (IOFailed SnapshotRead)
            else (case fst (readFrame cx content) of
                    Inl e \<Rightarrow> Inl e
                  | Inr p \<Rightarrow> (case gobDecodeSnapshot cx p of
                                None \<Rightarrow> Inl GobDecodeFailed
                              | Some s \<Rightarrow> Inr s)))"

end
