(* ===== verification/Digests.thy ===== *)
theory Digests
  imports Sha256
begin

text \<open>
  SHA-256 digests evaluated by the kernel: the test vector of FIPS 180-4 for the message abc,
  and the digests of the two leaves and the root of the two-key state that the witnesses of
  the Merkle theorems use.
\<close>

lemma sha256_abc:
  "sha256 (bytes_of ''abc'') =
     [186, 120, 22, 191, 143, 1, 207, 234, 65, 65, 64, 222, 93, 174, 34, 35,
      176, 3, 97, 163, 150, 23, 122, 156, 180, 16, 255, 97, 242, 0, 21, 173]"
  by code_simp

lemma sha256_leaf_a:
  "sha256 [97, 0, 14] =
     [213, 0, 231, 254, 32, 14, 220, 207, 148, 215, 58, 53, 87, 110, 141, 91,
      133, 198, 208, 190, 103, 59, 74, 98, 71, 199, 210, 84, 124, 185, 72, 13]"
  by code_simp

lemma sha256_leaf_b:
  "sha256 [98, 0, 2] =
     [96, 131, 58, 133, 244, 225, 203, 68, 22, 203, 123, 190, 30, 93, 139, 183,
      41, 85, 190, 123, 24, 163, 145, 149, 2, 147, 92, 52, 16, 54, 108, 172]"
  by code_simp

lemma sha256_node_ab:
  "sha256
     [213, 0, 231, 254, 32, 14, 220, 207, 148, 215, 58, 53, 87, 110, 141, 91,
      133, 198, 208, 190, 103, 59, 74, 98, 71, 199, 210, 84, 124, 185, 72, 13,
      96, 131, 58, 133, 244, 225, 203, 68, 22, 203, 123, 190, 30, 93, 139, 183,
      41, 85, 190, 123, 24, 163, 145, 149, 2, 147, 92, 52, 16, 54, 108, 172] =
     [32, 44, 213, 14, 34, 2, 61, 77, 29, 40, 198, 70, 180, 254, 79, 59,
      144, 4, 251, 96, 89, 164, 169, 209, 98, 202, 180, 80, 25, 135, 242, 250]"
  by code_simp

end
