(* ===== verification/Merkle.thy ===== *)
theory Merkle
  imports Digests Golib Model
begin

text \<open>
  \<open>internal/merkle/merkle.go\<close>: the binary Merkle tree over a list of leaves whose last node is
  paired with itself on a level of odd length, the state and prefix roots over the sorted keys
  of a map, inclusion proofs and their verification.

  The lemmas show that a proof made for a present key verifies, that a verified proof whose
  path has the depth of the tree speaks of a leaf of the tree unless two of the byte strings
  hashed on the way collide, and what the leaf encoding (key, a zero byte, value) does and
  does not bind.
\<close>

subsection \<open>Hash and Root\<close>

definition Hash :: "bytes \<Rightarrow> string" where
  "Hash b = EncodeToString (sha256 b)"

text \<open>The body of the loop: the node right of an even position, or the node itself.\<close>

definition partner :: "bytes list \<Rightarrow> nat \<Rightarrow> bytes" where
  "partner hs i = (if i + 1 < length hs then hs ! (i + 1) else hs ! i)"

definition nextLevel :: "bytes list \<Rightarrow> bytes list" where
  "nextLevel hs =
     map (\<lambda>j. sha256 (hs ! (2 * j) @ partner hs (2 * j))) [0..<(length hs + 1) div 2]"

lemma length_nextLevel [simp]: "length (nextLevel hs) = (length hs + 1) div 2"
  by (simp add: nextLevel_def)

function foldLevels :: "bytes list \<Rightarrow> bytes" where
  "foldLevels hs = (if 1 < length hs then foldLevels (nextLevel hs) else hs ! 0)"
  by pat_completeness auto
termination
  by (relation "measure length") auto

declare foldLevels.simps [simp del]

definition Root :: "bytes list \<Rightarrow> string" where
  "Root leaves =
     (if leaves = [] then Hash []
      else EncodeToString (foldLevels (map sha256 leaves)))"

subsection \<open>Roots of a map\<close>

definition leafBytes :: "string \<Rightarrow> bytes \<Rightarrow> bytes" where
  "leafBytes k v = bytes_of (k @ [CHR 0x00]) @ v"

definition lookup0 :: "state \<Rightarrow> string \<Rightarrow> bytes" where
  "lookup0 s k = slice (fmlookup s k)"

definition prefixKeys :: "state \<Rightarrow> string \<Rightarrow> string list" where
  "prefixKeys s p = sorted_list_of_fset (ffilter (\<lambda>k. p = [] \<or> HasPrefix k p) (fmdom s))"

definition PrefixRoot :: "state \<Rightarrow> string \<Rightarrow> string" where
  "PrefixRoot s p = Root (map (\<lambda>k. leafBytes k (lookup0 s k)) (prefixKeys s p))"

definition StateRoot :: "state \<Rightarrow> string" where
  "StateRoot s = PrefixRoot s []"

definition PrefixCount :: "state \<Rightarrow> string \<Rightarrow> nat" where
  "PrefixCount s p = fcard (ffilter (\<lambda>k. HasPrefix k p) (fmdom s))"

subsection \<open>Inclusion proofs\<close>

record ProofStep =
  psHash :: string
  psLeft :: bool

record Proof =
  pKey :: string
  pValue :: bytes
  pExists :: bool
  pLeafHash :: string
  pRoot :: string
  pIndex :: int
  pTotal :: int
  pPath :: "ProofStep list"

text \<open>\<open>sort.SearchStrings\<close> on a sorted slice: the first position not below the key.\<close>

definition SearchStrings :: "string list \<Rightarrow> string \<Rightarrow> nat" where
  "SearchStrings ks key = length (takeWhile (\<lambda>k. k < key) ks)"

definition siblingIndex :: "bytes list \<Rightarrow> nat \<Rightarrow> nat" where
  "siblingIndex level pos = (let sib = pos XOR 1 in if length level \<le> sib then pos else sib)"

function proofPath :: "bytes list \<Rightarrow> nat \<Rightarrow> ProofStep list" where
  "proofPath level pos =
     (if 1 < length level then
        \<lparr>psHash = EncodeToString (level ! siblingIndex level pos),
         psLeft = siblingIndex level pos < pos\<rparr> # proofPath (nextLevel level) (pos div 2)
      else [])"
  by pat_completeness auto
termination
  by (relation "measure (\<lambda>(level, pos). length level)") auto

declare proofPath.simps [simp del]

definition stateKeys :: "state \<Rightarrow> string list" where
  "stateKeys s = sorted_list_of_fset (fmdom s)"

definition stateLeaves :: "state \<Rightarrow> bytes list" where
  "stateLeaves s = map (\<lambda>k. leafBytes k (lookup0 s k)) (stateKeys s)"

definition StateProof :: "state \<Rightarrow> string \<Rightarrow> Proof" where
  "StateProof s key =
     (let ks = stateKeys s;
          idx = SearchStrings ks key;
          exists = (idx < length ks \<and> ks ! idx = key);
          p = \<lparr>pKey = key, pValue = [], pExists = exists, pLeafHash = [], pRoot = StateRoot s,
               pIndex = int idx, pTotal = int (length ks), pPath = []\<rparr>;
          leaves = map sha256 (stateLeaves s)
      in if \<not> exists then p
         else p\<lparr>pValue := lookup0 s key, pLeafHash := EncodeToString (leaves ! idx),
                pPath := proofPath leaves idx\<rparr>)"

text \<open>The input of one hash on the way up, and the walk; \<open>None\<close> for a bad hex string.\<close>

definition stepInput :: "bool \<Rightarrow> bytes \<Rightarrow> bytes \<Rightarrow> bytes" where
  "stepInput left sib cur = (if left then sib @ cur else cur @ sib)"

fun walkPath :: "bytes \<Rightarrow> ProofStep list \<Rightarrow> bytes option" where
  "walkPath cur [] = Some cur"
| "walkPath cur (st # path) =
     (case DecodeString (psHash st) of
        None \<Rightarrow> None
      | Some sib \<Rightarrow> walkPath (sha256 (stepInput (psLeft st) sib cur)) path)"

definition VerifyProof :: "Proof \<Rightarrow> bool" where
  "VerifyProof p =
     (if \<not> pExists p then False
      else let cur = sha256 (leafBytes (pKey p) (pValue p)) in
        if EncodeToString cur \<noteq> pLeafHash p then False
        else case walkPath cur (pPath p) of
               None \<Rightarrow> False
             | Some res \<Rightarrow> EncodeToString res = pRoot p)"

subsection \<open>Completeness: the walk over the proof path reaches the root\<close>

lemma xor_one_nat: "(n :: nat) XOR 1 = (if even n then n + 1 else n - 1)"
  by (simp add: xor_one_eq del: One_nat_def)

lemma siblingIndex_even:
  "even pos \<Longrightarrow> siblingIndex level pos = (if pos + 1 < length level then pos + 1 else pos)"
  unfolding siblingIndex_def xor_one_nat Let_def by auto

lemma siblingIndex_odd:
  "odd pos \<Longrightarrow> pos < length level \<Longrightarrow> siblingIndex level pos = pos - 1"
  unfolding siblingIndex_def xor_one_nat Let_def by auto

lemma nextLevel_nth:
  "2 * j < length hs \<Longrightarrow> nextLevel hs ! j = sha256 (hs ! (2 * j) @ partner hs (2 * j))"
proof -
  assume "2 * j < length hs"
  then have "j < (length hs + 1) div 2" by linarith
  then show ?thesis unfolding nextLevel_def by (subst nth_map) simp_all
qed

lemma stepInput_sibling:
  assumes "pos < length level"
  shows "sha256 (stepInput (siblingIndex level pos < pos) (level ! siblingIndex level pos)
           (level ! pos)) = nextLevel level ! (pos div 2)"
proof (cases "even pos")
  case True
  then have "2 * (pos div 2) = pos" by simp
  with True assms show ?thesis
    by (auto simp: siblingIndex_even stepInput_def nextLevel_nth partner_def)
next
  case False
  then have "2 * (pos div 2) = pos - 1" "0 < pos"
    by (simp_all add: odd_pos odd_two_times_div_two_nat)
  with False assms show ?thesis
    by (auto simp: siblingIndex_odd stepInput_def nextLevel_nth partner_def)
qed

lemma walkPath_proofPath:
  "pos < length level \<Longrightarrow> walkPath (level ! pos) (proofPath level pos) = Some (foldLevels level)"
proof (induction level pos rule: proofPath.induct)
  case (1 level pos)
  show ?case
  proof (cases "1 < length level")
    case True
    with 1 have "walkPath (nextLevel level ! (pos div 2))
        (proofPath (nextLevel level) (pos div 2)) = Some (foldLevels (nextLevel level))"
      by auto
    with True 1 show ?thesis
      by (simp add: proofPath.simps [of level pos] foldLevels.simps [of level] stepInput_sibling)
  next
    case False
    with 1 have "pos = 0" by linarith
    with False show ?thesis
      by (simp add: proofPath.simps [of level 0] foldLevels.simps [of level])
  qed
qed

text \<open>The depth of the tree over \<open>n\<close> leaves, which is the length of every proof path.\<close>

fun treeDepth :: "nat \<Rightarrow> nat" where
  "treeDepth n = (if 1 < n then Suc (treeDepth ((n + 1) div 2)) else 0)"

declare treeDepth.simps [simp del]

lemma length_proofPath: "length (proofPath level pos) = treeDepth (length level)"
proof (induction level pos rule: proofPath.induct)
  case (1 level pos)
  then show ?case
    by (simp add: proofPath.simps [of level pos] treeDepth.simps [of "length level"])
qed

subsection \<open>Sorted keys\<close>

lemma set_stateKeys [simp]: "set (stateKeys s) = fmdom' s"
  by (simp add: stateKeys_def fmdom'_alt_def)

lemma sorted_stateKeys: "sorted (stateKeys s)" and distinct_stateKeys: "distinct (stateKeys s)"
  by (simp_all add: stateKeys_def sorted_list_of_fset.rep_eq)

lemma prefixKeys_Nil: "prefixKeys s [] = stateKeys s"
proof -
  have "ffilter (\<lambda>k. True) (fmdom s) = fmdom s" by (rule fset_eqI) simp
  then show ?thesis by (simp add: prefixKeys_def stateKeys_def)
qed

lemma StateRoot_alt: "StateRoot s = Root (stateLeaves s)"
  by (simp add: StateRoot_def PrefixRoot_def prefixKeys_Nil stateLeaves_def)

lemma SearchStrings_nth:
  assumes "sorted ks" and "distinct ks" and "key \<in> set ks"
  shows "SearchStrings ks key < length ks \<and> ks ! SearchStrings ks key = key"
proof -
  obtain as bs where ks: "ks = as @ key # bs" using assms(3) by (auto simp: in_set_conv_decomp)
  with assms have "\<forall>k \<in> set as. k < key"
    by (auto simp: sorted_append order.strict_iff_order)
  then have "takeWhile (\<lambda>k. k < key) ks = as" by (simp add: ks)
  then show ?thesis by (simp add: SearchStrings_def ks)
qed

lemma StateProof_present:
  assumes "key \<in> fmdom' s"
  defines "idx \<equiv> SearchStrings (stateKeys s) key"
  shows "idx < length (stateKeys s)" and "stateLeaves s ! idx = leafBytes key (lookup0 s key)"
    and "StateProof s key =
      \<lparr>pKey = key, pValue = lookup0 s key, pExists = True,
       pLeafHash = EncodeToString (map sha256 (stateLeaves s) ! idx), pRoot = StateRoot s,
       pIndex = int idx, pTotal = int (length (stateKeys s)),
       pPath = proofPath (map sha256 (stateLeaves s)) idx\<rparr>"
  using SearchStrings_nth [OF sorted_stateKeys distinct_stateKeys, of key s] assms
  by (simp_all add: StateProof_def stateLeaves_def Let_def)

lemma length_stateLeaves [simp]: "length (stateLeaves s) = length (stateKeys s)"
  by (simp add: stateLeaves_def)

lemma Root_nonempty: "leaves \<noteq> [] \<Longrightarrow> Root leaves = EncodeToString (foldLevels (map sha256 leaves))"
  by (simp add: Root_def)

subsection \<open>Soundness: what a verified proof binds\<close>

text \<open>
  The byte strings that \<open>Root\<close> and \<open>VerifyProof\<close> hash, in the order they hash them. Absence of
  collisions is injectivity of SHA-256 on these lists.
\<close>

definition levelInputs :: "bytes list \<Rightarrow> bytes list" where
  "levelInputs hs = map (\<lambda>j. hs ! (2 * j) @ partner hs (2 * j)) [0..<(length hs + 1) div 2]"

function treeInputs :: "bytes list \<Rightarrow> bytes list" where
  "treeInputs hs = (if 1 < length hs then levelInputs hs @ treeInputs (nextLevel hs) else [])"
  by pat_completeness auto
termination
  by (relation "measure length") auto

declare treeInputs.simps [simp del]

definition rootInputs :: "bytes list \<Rightarrow> bytes list" where
  "rootInputs leaves =
     (if leaves = [] then [[]] else leaves @ treeInputs (map sha256 leaves))"

fun walkInputs :: "bytes \<Rightarrow> ProofStep list \<Rightarrow> bytes list" where
  "walkInputs cur [] = []"
| "walkInputs cur (st # path) =
     (case DecodeString (psHash st) of
        None \<Rightarrow> []
      | Some sib \<Rightarrow> (let x = stepInput (psLeft st) sib cur in x # walkInputs (sha256 x) path))"

definition proofInputs :: "Proof \<Rightarrow> bytes list" where
  "proofInputs p = leafBytes (pKey p) (pValue p)
     # walkInputs (sha256 (leafBytes (pKey p) (pValue p))) (pPath p)"

definition noCollision :: "bytes list \<Rightarrow> bool" where
  "noCollision xs \<longleftrightarrow> inj_on sha256 (set xs)"

lemma noCollisionD: "noCollision xs \<Longrightarrow> x \<in> set xs \<Longrightarrow> y \<in> set xs \<Longrightarrow> sha256 x = sha256 y \<Longrightarrow> x = y"
  by (auto simp: noCollision_def dest: inj_onD)

lemma noCollision_mono: "noCollision xs \<Longrightarrow> set ys \<subseteq> set xs \<Longrightarrow> noCollision ys"
  by (auto simp: noCollision_def intro: inj_on_subset)

lemma nextLevel_inputs: "nextLevel hs = map sha256 (levelInputs hs)"
  by (simp add: nextLevel_def levelInputs_def)

lemma nextLevel_length32: "x \<in> set (nextLevel hs) \<Longrightarrow> length x = 32"
  by (auto simp: nextLevel_inputs)

lemma levelInputs_halves:
  assumes "x \<in> set (levelInputs hs)"
  obtains l r where "x = l @ r" "l \<in> set hs" "r \<in> set hs"
proof -
  from assms obtain j where j: "j < (length hs + 1) div 2"
      and x: "x = hs ! (2 * j) @ partner hs (2 * j)"
    by (auto simp: levelInputs_def)
  from j have "2 * j < length hs" by linarith
  then have "hs ! (2 * j) \<in> set hs" "partner hs (2 * j) \<in> set hs"
    by (auto simp: partner_def)
  with x that show ?thesis by blast
qed

lemma stepInput_halves:
  assumes "stepInput left sib cur = l @ r"
    and "length l = 32" and "length r = 32" and "length cur = 32"
  shows "cur = l \<or> cur = r"
proof (cases left)
  case True
  with assms(1) have e: "sib @ cur = l @ r" by (simp add: stepInput_def)
  then have "length sib = length l" using assms(2-4) by (metis add_right_cancel length_append)
  with e show ?thesis by simp
next
  case False
  with assms show ?thesis by (simp add: stepInput_def)
qed

lemma walkPath_sound:
  assumes "level \<noteq> []" and "\<forall>x \<in> set level. length x = 32" and "length cur = 32"
    and "length path = treeDepth (length level)"
    and "walkPath cur path = Some (foldLevels level)"
    and "noCollision (treeInputs level @ walkInputs cur path)"
  shows "cur \<in> set level"
  using assms
proof (induction level arbitrary: cur path rule: foldLevels.induct)
  case (1 level)
  show ?case
  proof (cases "1 < length level")
    case True
    with "1.prems"(4) obtain st path' where path: "path = st # path'"
      and len: "length path' = treeDepth (length (nextLevel level))"
      by (cases path) (auto simp: treeDepth.simps [of "length level"])
    from "1.prems"(5) path obtain sib where sib: "DecodeString (psHash st) = Some sib"
      by (auto split: option.splits)
    let ?x = "stepInput (psLeft st) sib cur"
    have inputs: "noCollision (levelInputs level @ treeInputs (nextLevel level)
        @ ?x # walkInputs (sha256 ?x) path')"
      using "1.prems"(6) True by (simp add: treeInputs.simps [of level] path sib Let_def)
    have "sha256 ?x \<in> set (nextLevel level)"
    proof (rule "1.IH" [OF True])
      show "nextLevel level \<noteq> []"
        using True by (simp add: length_0_conv [symmetric] del: length_0_conv)
      show "walkPath (sha256 ?x) path' = Some (foldLevels (nextLevel level))"
        using "1.prems"(5) True by (simp add: path sib foldLevels.simps [of level])
      show "noCollision (treeInputs (nextLevel level) @ walkInputs (sha256 ?x) path')"
        using inputs by (rule noCollision_mono) auto
    qed (auto simp: nextLevel_length32 len)
    then obtain y where y: "y \<in> set (levelInputs level)" "sha256 ?x = sha256 y"
      by (auto simp: nextLevel_inputs)
    have "?x = y" using noCollisionD [OF inputs _ _ y(2)] y(1) by simp
    from y(1) obtain l r where "y = l @ r" and lr: "l \<in> set level" "r \<in> set level"
      by (rule levelInputs_halves)
    with \<open>?x = y\<close> have "cur = l \<or> cur = r"
      using "1.prems"(2,3) by (intro stepInput_halves [of "psLeft st" sib]) auto
    with lr show ?thesis by blast
  next
    case False
    with "1.prems"(4) have "path = []" by (simp add: treeDepth.simps [of "length level"])
    with "1.prems"(5) False have "cur = level ! 0" by (simp add: foldLevels.simps [of level])
    with "1.prems"(1) show ?thesis by simp
  qed
qed

text \<open>Keys without a zero byte make the leaf encoding injective.\<close>

definition nulFree :: "string \<Rightarrow> bool" where
  "nulFree k \<longleftrightarrow> CHR 0x00 \<notin> set k"

lemma leafBytes_inject:
  assumes "nulFree k" and "nulFree k'"
  shows "leafBytes k v = leafBytes k' v' \<longleftrightarrow> k = k' \<and> v = v'"
proof
  assume "leafBytes k v = leafBytes k' v'"
  then have e: "bytes_of k @ 0 # v = bytes_of k' @ 0 # v'"
    by (simp add: leafBytes_def)
  have "takeWhile (\<lambda>b. b \<noteq> 0) (bytes_of k @ 0 # v) = bytes_of k"
    "takeWhile (\<lambda>b. b \<noteq> 0) (bytes_of k' @ 0 # v') = bytes_of k'"
    using assms by (auto simp: nulFree_def takeWhile_append simp flip: zero_in_bytes_of)
  with e have "bytes_of k = bytes_of k'" by metis
  with e show "k = k' \<and> v = v'" by simp
qed simp

lemma leafBytes_not_Nil [simp]: "leafBytes k v \<noteq> []"
  by (simp add: leafBytes_def)

lemma stepInput_level:
  assumes "pos < length level"
  shows "stepInput (siblingIndex level pos < pos) (level ! siblingIndex level pos) (level ! pos)
           = levelInputs level ! (pos div 2)"
proof -
  have j: "pos div 2 < (length level + 1) div 2" using assms by linarith
  show ?thesis
  proof (cases "even pos")
    case True
    then have "2 * (pos div 2) = pos" by simp
    with True assms j show ?thesis
      by (auto simp: siblingIndex_even stepInput_def levelInputs_def partner_def simp del: upt_Suc)
  next
    case False
    then have "2 * (pos div 2) = pos - 1" "0 < pos"
      by (simp_all add: odd_pos odd_two_times_div_two_nat)
    with False assms j show ?thesis
      by (auto simp: siblingIndex_odd stepInput_def levelInputs_def partner_def simp del: upt_Suc)
  qed
qed

lemma walkInputs_proofPath:
  "pos < length level \<Longrightarrow>
   set (walkInputs (level ! pos) (proofPath level pos)) \<subseteq> set (treeInputs level)"
proof (induction level pos rule: proofPath.induct)
  case (1 level pos)
  show ?case
  proof (cases "1 < length level")
    case True
    have "pos div 2 < length (nextLevel level)" using "1.prems" by simp
    moreover have "pos div 2 < length (levelInputs level)"
      using calculation by (simp add: levelInputs_def)
    moreover have "sha256 (levelInputs level ! (pos div 2)) = nextLevel level ! (pos div 2)"
      using calculation(2) by (simp add: nextLevel_inputs)
    ultimately show ?thesis
      using "1.IH" [OF True] "1.prems" True
      by (auto simp: proofPath.simps [of level pos] treeInputs.simps [of level] Let_def
          stepInput_sibling stepInput_level)
  next
    case False
    then show ?thesis by (simp add: proofPath.simps [of level pos])
  qed
qed

lemma proofInputs_StateProof:
  assumes "key \<in> fmdom' s"
  shows "set (proofInputs (StateProof s key)) \<subseteq> set (rootInputs (stateLeaves s))"
proof -
  note P = StateProof_present [OF assms]
  let ?idx = "SearchStrings (stateKeys s) key"
  have ne: "stateLeaves s \<noteq> []" using P(1) by (auto simp flip: length_0_conv)
  have "leafBytes key (lookup0 s key) \<in> set (stateLeaves s)"
    using P(1,2) nth_mem [of ?idx "stateLeaves s"] by simp
  moreover have "set (walkInputs (map sha256 (stateLeaves s) ! ?idx)
      (proofPath (map sha256 (stateLeaves s)) ?idx)) \<subseteq> set (treeInputs (map sha256 (stateLeaves s)))"
    using P(1) by (intro walkInputs_proofPath) simp
  moreover have "map sha256 (stateLeaves s) ! ?idx = sha256 (leafBytes key (lookup0 s key))"
    using P(1,2) by simp
  ultimately show ?thesis
    by (auto simp: P(3) proofInputs_def rootInputs_def ne)
qed

text \<open>The two-key state the witnesses use.\<close>

definition exState :: state where
  "exState = fmupd ''b'' [2] (fmupd ''a'' [14] fmempty)"

lemma exState_keys: "stateKeys exState = [''a'', ''b'']"
  by (simp add: stateKeys_def exState_def sorted_list_of_fset.rep_eq)

lemma exState_leaves: "stateLeaves exState = [[97, 0, 14], [98, 0, 2]]"
proof -
  have "fmlookup exState ''a'' = Some [14]" "fmlookup exState ''b'' = Some [2]"
    by (simp_all add: exState_def)
  then show ?thesis by (simp add: stateLeaves_def exState_keys leafBytes_def lookup0_def)
qed

lemma exState_noCollision: "noCollision (rootInputs (stateLeaves exState))"
proof -
  have "treeInputs [sha256 [97, 0, 14], sha256 [98, 0, 2]] = [sha256 [97, 0, 14] @ sha256 [98, 0, 2]]"
    by (simp add: treeInputs.simps levelInputs_def nextLevel_def partner_def)
  then show ?thesis
    by (simp add: noCollision_def rootInputs_def exState_leaves sha256_leaf_a sha256_leaf_b
        sha256_node_ab)
qed

subsection \<open>Properties\<close>

lemma StateProof_correct:
  "VerifyProof (StateProof s key) = (fmlookup s key \<noteq> None)
   \<and> pRoot (StateProof s key) = StateRoot s \<and> pValue (StateProof s key) = lookup0 s key"
proof (cases "key \<in> fmdom' s")
  case True
  note P = StateProof_present [OF True]
  let ?idx = "SearchStrings (stateKeys s) key"
  have "stateLeaves s \<noteq> []" using P(1) by (auto simp flip: length_0_conv)
  then have "StateRoot s = EncodeToString (foldLevels (map sha256 (stateLeaves s)))"
    by (simp add: StateRoot_alt Root_nonempty)
  moreover have "walkPath (map sha256 (stateLeaves s) ! ?idx)
      (proofPath (map sha256 (stateLeaves s)) ?idx) = Some (foldLevels (map sha256 (stateLeaves s)))"
    using P(1) by (intro walkPath_proofPath) simp
  moreover have "map sha256 (stateLeaves s) ! ?idx = sha256 (leafBytes key (lookup0 s key))"
    using P(1,2) by simp
  moreover have "fmlookup s key \<noteq> None" using True by (auto simp: fmlookup_dom'_iff)
  ultimately show ?thesis
    by (simp add: P(3) VerifyProof_def Let_def)
next
  case False
  then have n: "fmlookup s key = None" by (simp add: fmdom'_notD)
  from False have "\<not> (SearchStrings (stateKeys s) key < length (stateKeys s) \<and>
      stateKeys s ! SearchStrings (stateKeys s) key = key)"
    by (metis nth_mem set_stateKeys)
  then show ?thesis
    by (simp add: StateProof_def VerifyProof_def Let_def lookup0_def n)
qed

text \<open>
  C15: An inclusion proof built for a key verifies exactly when the key is in the state; it
  carries the state's root and the value stored under the key (no bytes for an absent key).
\<close>

theorem StateProof_complete:
  "VerifyProof (StateProof s key) = (fmlookup s key \<noteq> None)
   \<and> pRoot (StateProof s key) = StateRoot s \<and> pValue (StateProof s key) = lookup0 s key"
  by (rule StateProof_correct)

text \<open>
  C16: Soundness of inclusion proofs. If a proof verifies, names the root of a state and has a
  path of the depth of that state's tree, then the state holds exactly the proof's value under
  the proof's key, provided keys have no zero byte and no two of the byte strings hashed for
  the root and for the proof collide under SHA-256.
\<close>

theorem VerifyProof_sound:
  assumes "VerifyProof p" and "pRoot p = StateRoot s"
    and "length (pPath p) = treeDepth (length (stateKeys s))"
    and "noCollision (rootInputs (stateLeaves s) @ proofInputs p)"
    and "nulFree (pKey p)" and "\<forall>k \<in> fmdom' s. nulFree k"
  shows "fmlookup s (pKey p) = Some (pValue p)"
proof -
  let ?leaf = "leafBytes (pKey p) (pValue p)"
  let ?hs = "map sha256 (stateLeaves s)"
  from assms(1) obtain res where walk: "walkPath (sha256 ?leaf) (pPath p) = Some res"
    and res: "EncodeToString res = pRoot p"
    by (auto simp: VerifyProof_def Let_def split: if_splits option.splits)
  have ne: "stateLeaves s \<noteq> []"
  proof
    assume e: "stateLeaves s = []"
    then have "length (stateKeys s) = 0" by (metis length_0_conv length_stateLeaves)
    with assms(3) have "pPath p = []" by (simp add: treeDepth.simps [of 0])
    with walk have "sha256 ?leaf = res" by simp
    also have "\<dots> = sha256 []" using res assms(2) e by (simp add: StateRoot_alt Root_def Hash_def)
    finally have "sha256 ?leaf = sha256 []" .
    then have "?leaf = []"
      by (rule noCollisionD [OF assms(4), rotated 2]) (simp_all add: e rootInputs_def proofInputs_def)
    then show False by simp
  qed
  have "sha256 ?leaf \<in> set ?hs"
  proof (rule walkPath_sound)
    show "walkPath (sha256 ?leaf) (pPath p) = Some (foldLevels ?hs)"
      using walk res assms(2) ne by (simp add: StateRoot_alt Root_nonempty)
    show "noCollision (treeInputs ?hs @ walkInputs (sha256 ?leaf) (pPath p))"
      using assms(4) by (rule noCollision_mono) (auto simp: rootInputs_def proofInputs_def ne)
  qed (use assms(3) ne in auto)
  then obtain l where l: "l \<in> set (stateLeaves s)" "sha256 ?leaf = sha256 l" by auto
  from l(2) have "?leaf = l"
    by (rule noCollisionD [OF assms(4), rotated 2])
      (simp_all add: rootInputs_def proofInputs_def ne l(1))
  with l(1) obtain k where k: "k \<in> fmdom' s" "?leaf = leafBytes k (lookup0 s k)"
    by (auto simp: stateLeaves_def)
  with assms(5,6) have "pKey p = k" "pValue p = lookup0 s k" by (auto simp: leafBytes_inject)
  with k(1) show ?thesis by (auto simp: lookup0_def fmlookup_dom'_iff)
qed

theorem VerifyProof_sound_witness:
  "fmlookup exState ''a'' = Some (pValue (StateProof exState ''a''))"
proof -
  let ?p = "StateProof exState ''a''"
  have a: "''a'' \<in> fmdom' exState" by (simp add: exState_def)
  note P = StateProof_present [OF a]
  have "fmlookup exState (pKey ?p) = Some (pValue ?p)"
  proof (rule VerifyProof_sound)
    show "VerifyProof ?p" using StateProof_correct [of exState "''a''"] a by (auto simp: fmlookup_dom'_iff)
    show "pRoot ?p = StateRoot exState" using StateProof_correct [of exState "''a''"] by simp
    show "length (pPath ?p) = treeDepth (length (stateKeys exState))"
      by (simp add: P(3) length_proofPath)
    show "noCollision (rootInputs (stateLeaves exState) @ proofInputs ?p)"
      by (rule noCollision_mono [OF exState_noCollision]) (use proofInputs_StateProof [OF a] in auto)
  qed (simp_all add: P(3), simp_all add: nulFree_def exState_def)
  then show ?thesis by (simp add: P(3))
qed

lemma foldLevels_inject:
  assumes "length hs = length gs" and "hs \<noteq> []"
    and "\<forall>x \<in> set hs \<union> set gs. length x = 32"
    and "foldLevels hs = foldLevels gs"
    and "noCollision (treeInputs hs @ treeInputs gs)"
  shows "hs = gs"
  using assms
proof (induction hs arbitrary: gs rule: foldLevels.induct)
  case (1 hs)
  show ?case
  proof (cases "1 < length hs")
    case True
    have nc: "noCollision ((levelInputs hs @ treeInputs (nextLevel hs)) @ levelInputs gs @ treeInputs (nextLevel gs))"
      using "1.prems"(1,5) True by (simp add: treeInputs.simps [of hs] treeInputs.simps [of gs])
    have "nextLevel hs = nextLevel gs"
    proof (rule "1.IH" [OF True])
      show "nextLevel hs \<noteq> []"
        using True by (simp add: length_0_conv [symmetric] del: length_0_conv)
      show "foldLevels (nextLevel hs) = foldLevels (nextLevel gs)"
        using "1.prems"(1,4) True by (simp add: foldLevels.simps [of hs] foldLevels.simps [of gs])
      show "noCollision (treeInputs (nextLevel hs) @ treeInputs (nextLevel gs))"
        using nc by (rule noCollision_mono) auto
    qed (use "1.prems"(1) in \<open>auto simp: nextLevel_length32\<close>)
    then have "map sha256 (levelInputs hs) = map sha256 (levelInputs gs)"
      by (simp add: nextLevel_inputs)
    then have eq: "levelInputs hs = levelInputs gs"
      by (rule map_inj_on) (use nc in \<open>auto simp: noCollision_def intro: inj_on_subset\<close>)
    show ?thesis
    proof (rule nth_equalityI)
      fix i assume i: "i < length hs"
      let ?j = "i div 2"
      have j: "?j < (length hs + 1) div 2" "2 * ?j < length hs" using i by linarith+
      have "levelInputs hs ! ?j = hs ! (2 * ?j) @ partner hs (2 * ?j)"
        "levelInputs gs ! ?j = gs ! (2 * ?j) @ partner gs (2 * ?j)"
        using j(1) "1.prems"(1) by (simp_all add: levelInputs_def del: upt_Suc)
      moreover have "length (hs ! (2 * ?j)) = 32" "length (gs ! (2 * ?j)) = 32"
        using j(2) "1.prems"(1,3) by auto
      ultimately have "hs ! (2 * ?j) = gs ! (2 * ?j)" "partner hs (2 * ?j) = partner gs (2 * ?j)"
        using eq by auto
      then show "hs ! i = gs ! i"
        using i "1.prems"(1) by (cases "even i") (auto simp: partner_def elim!: oddE)
    qed (use "1.prems"(1) in simp)
  next
    case False
    with "1.prems" show ?thesis
      by (cases hs; cases gs) (simp_all add: foldLevels.simps [of "[x]" for x])
  qed
qed

text \<open>
  C17: The state root binds the state: two states with the same number of keys and the same
  root are equal, provided keys have no zero byte and the byte strings hashed for the two roots
  do not collide under SHA-256.
\<close>

theorem StateRoot_binding:
  assumes "StateRoot s = StateRoot t" and "length (stateKeys s) = length (stateKeys t)"
    and "noCollision (rootInputs (stateLeaves s) @ rootInputs (stateLeaves t))"
    and "\<forall>k \<in> fmdom' s \<union> fmdom' t. nulFree k"
  shows "s = t"
proof -
  have leaves: "stateLeaves s = stateLeaves t"
  proof (cases "stateLeaves s = []")
    case True
    with assms(2) show ?thesis by (metis length_0_conv length_stateLeaves)
  next
    case False
    with assms(2) have ne: "stateLeaves t \<noteq> []" by (metis length_0_conv length_stateLeaves)
    have "map sha256 (stateLeaves s) = map sha256 (stateLeaves t)"
    proof (rule foldLevels_inject)
      show "foldLevels (map sha256 (stateLeaves s)) = foldLevels (map sha256 (stateLeaves t))"
        using assms(1) False ne by (simp add: StateRoot_alt Root_nonempty)
      show "noCollision (treeInputs (map sha256 (stateLeaves s)) @ treeInputs (map sha256 (stateLeaves t)))"
        using assms(3) by (rule noCollision_mono) (auto simp: rootInputs_def False ne)
    qed (use assms(2) False in auto)
    then show ?thesis
      by (rule map_inj_on)
        (use assms(3) in \<open>auto simp: noCollision_def rootInputs_def False ne intro: inj_on_subset\<close>)
  qed
  have pw: "k = k' \<and> lookup0 s k = lookup0 t k'"
    if "(k, k') \<in> set (zip (stateKeys s) (stateKeys t))" for k k'
  proof -
    from that have kk: "k \<in> fmdom' s" "k' \<in> fmdom' t" by (auto dest: set_zip_leftD set_zip_rightD)
    from that obtain i where i: "i < length (stateKeys s)" "stateKeys s ! i = k" "stateKeys t ! i = k'"
      using assms(2) by (auto simp: in_set_zip)
    have "stateLeaves s ! i = stateLeaves t ! i" by (simp add: leaves)
    then have "leafBytes k (lookup0 s k) = leafBytes k' (lookup0 t k')"
      using i assms(2) by (simp add: stateLeaves_def)
    with kk assms(4) show ?thesis by (auto simp: leafBytes_inject)
  qed
  have "stateKeys s ! i = stateKeys t ! i" if "i < length (stateKeys s)" for i
    using that assms(2) pw [of "stateKeys s ! i" "stateKeys t ! i"] by (simp add: set_zip) blast
  then have keys: "stateKeys s = stateKeys t"
    using assms(2) by (simp add: nth_equalityI)
  then have dom: "fmdom' s = fmdom' t" by (metis set_stateKeys)
  have vals: "lookup0 s k = lookup0 t k" if "k \<in> fmdom' s" for k
    using that dom pw [of k k] keys by (simp add: zip_same)
  show ?thesis
  proof (rule fmap_ext)
    fix k
    show "fmlookup s k = fmlookup t k"
    proof (cases "k \<in> fmdom' s")
      case True
      with dom obtain v w where "fmlookup s k = Some v" "fmlookup t k = Some w"
        by (metis fmlookup_dom'_iff)
      with vals [OF True] show ?thesis by (simp add: lookup0_def)
    next
      case False
      with dom show ?thesis by (metis fmdom'_notD)
    qed
  qed
qed

theorem StateRoot_binding_witness: "exState = fmupd ''a'' [14] (fmupd ''b'' [2] fmempty)"
proof (rule StateRoot_binding)
  let ?t = "fmupd ''a'' [14] (fmupd ''b'' [2] fmempty) :: state"
  have t: "stateKeys ?t = stateKeys exState"
    by (simp add: exState_keys) (simp add: stateKeys_def sorted_list_of_fset.rep_eq)
  have leaves: "stateLeaves ?t = stateLeaves exState"
    by (simp add: stateLeaves_def t) (simp add: exState_keys lookup0_def exState_def)
  then show "StateRoot exState = StateRoot ?t" by (simp add: StateRoot_alt)
  show "length (stateKeys exState) = length (stateKeys ?t)" by (simp add: t)
  show "noCollision (rootInputs (stateLeaves exState) @ rootInputs (stateLeaves ?t))"
    by (rule noCollision_mono [OF exState_noCollision]) (simp add: leaves)
qed (simp add: nulFree_def exState_def)

text \<open>
  C40: A leaf is the key, a zero byte and the value, with no length: when a stored key contains
  a zero byte, the proof for it, relabelled with the part before the zero byte as the key and
  the rest pushed into the value, still verifies against the same state root.
\<close>

theorem leaf_encoding_ambiguous:
  assumes "fmlookup s (k1 @ CHR 0x00 # k2) = Some v"
  defines "p \<equiv> (StateProof s (k1 @ CHR 0x00 # k2))\<lparr>pKey := k1, pValue := bytes_of k2 @ 0 # v\<rparr>"
  shows "VerifyProof p \<and> pRoot p = StateRoot s"
proof -
  let ?k = "k1 @ CHR 0x00 # k2"
  have "leafBytes k1 (bytes_of k2 @ 0 # v) = leafBytes ?k (lookup0 s ?k)"
    using assms(1) by (simp add: leafBytes_def lookup0_def)
  moreover have "VerifyProof (StateProof s ?k)" "pRoot (StateProof s ?k) = StateRoot s"
     "pKey (StateProof s ?k) = ?k"  "pValue (StateProof s ?k) = lookup0 s ?k"
    using assms(1) StateProof_correct [of s ?k] by (simp_all add: StateProof_def Let_def)
  ultimately show ?thesis by (auto simp: p_def VerifyProof_def Let_def split: if_splits option.splits)
qed

theorem leaf_encoding_ambiguous_witness:
  "let s = fmupd (''a'' @ CHR 0x00 # ''b'') [99] fmempty;
       p = (StateProof s (''a'' @ CHR 0x00 # ''b''))\<lparr>pKey := ''a'', pValue := [98, 0, 99]\<rparr>
   in fmlookup s ''a'' = None \<and> VerifyProof p \<and> pRoot p = StateRoot s"
  using leaf_encoding_ambiguous [of "fmupd (''a'' @ CHR 0x00 # ''b'') [99] fmempty" "''a''" "''b''" "[99]"]
  by (simp add: Let_def)

text \<open>
  Pairing the last node of an odd level with itself makes roots blind to repeating the last
  leaf: a leaf list of odd length at least three has the root of the list with its last leaf
  written twice. Transaction roots are computed over such lists.
\<close>

theorem Root_duplicate_last_leaf: "even (length xs) \<Longrightarrow> xs \<noteq> [] \<Longrightarrow> Root (xs @ [x, x]) = Root (xs @ [x])"
proof -
  assume e: "even (length xs)" and ne: "xs \<noteq> []"
  let ?a = "map sha256 (xs @ [x])" and ?b = "map sha256 (xs @ [x, x])"
  have len: "(length ?b + 1) div 2 = (length ?a + 1) div 2" using e by simp
  have "nextLevel ?b = nextLevel ?a"
  proof (rule nth_equalityI)
    fix j assume "j < length (nextLevel ?b)"
    with e have "2 * j < length ?a" by simp
    then have "?b ! (2*j) = ?a ! (2*j)" "partner ?b (2*j) = partner ?a (2*j)"
      using e by (auto simp: partner_def nth_append less_Suc_eq)
    then show "nextLevel ?b ! j = nextLevel ?a ! j"
      using \<open>2 * j < length ?a\<close> by (simp add: nextLevel_nth)
  qed (use len in \<open>simp only: length_nextLevel\<close>)
  moreover have "1 < length ?a" "1 < length ?b" using ne by (cases xs; simp)+
  ultimately have "foldLevels ?b = foldLevels ?a"
    by (simp only: foldLevels.simps [of ?a] foldLevels.simps [of ?b] if_True)
  then show ?thesis by (simp add: Root_def)
qed

theorem Root_duplicate_last_leaf_witness: "Root ([[1], [2]] @ [[3], [3]]) = Root ([[1], [2]] @ [[3]])"
  by (rule Root_duplicate_last_leaf) simp_all

text \<open>
  Leaves and inner nodes are hashed alike: for a state with two leaves whose digests
  contain a zero byte, the two digests read as one leaf give a different state, with one key,
  that has the same state root.
\<close>

theorem node_as_leaf:
  assumes "stateLeaves t = [l, r]" and "0 \<in> set (sha256 l @ sha256 r)"
  shows "\<exists>k v. StateRoot (fmupd k v fmempty) = StateRoot t \<and> fmupd k v fmempty \<noteq> t"
proof -
  let ?n = "sha256 l @ sha256 r"
  obtain us v where n: "?n = us @ 0 # v" and us: "0 \<notin> set us"
    using split_list_first [OF assms(2)] by blast
  let ?k = "string_of us" and ?s = "fmupd (string_of us) v fmempty :: state"
  have keys: "stateKeys ?s = [?k]"
    by (simp add: stateKeys_def sorted_list_of_fset.rep_eq)
  then have leaves: "stateLeaves ?s = [?n]"
    by (simp add: stateLeaves_def leafBytes_def lookup0_def n)
  have "foldLevels [sha256 l, sha256 r] = sha256 ?n"
    by (simp add: foldLevels.simps nextLevel_def partner_def)
  then have "StateRoot ?s = StateRoot t"
    by (simp add: StateRoot_alt Root_def leaves assms(1) foldLevels.simps [of "[x]" for x])
  moreover have "?s \<noteq> t" using leaves assms(1) by auto
  ultimately show ?thesis by blast
qed

theorem node_as_leaf_witness: "\<exists>k v. StateRoot (fmupd k v fmempty) = StateRoot exState \<and> fmupd k v fmempty \<noteq> exState"
  by (rule node_as_leaf [OF exState_leaves]) (simp add: sha256_leaf_a)

end
