(* ===== verification/Json.thy ===== *)
theory Json
  imports Model Sha256
begin

text \<open>
  \<open>encoding/json.Marshal\<close> on the structs of the data model: the byte string that record
  hashes and transaction leaves are computed from. String escaping follows Go's encoder with
  HTML escaping on (invalid UTF-8 becomes the escape of U+FFFD), byte slices are padded
  base64 or null, times are RFC 3339 with nanoseconds, \<open>omitempty\<close> fields vanish when empty.
\<close>

subsection \<open>Strings\<close>

text \<open>
  \<open>utf8_size\<close> is the length of the UTF-8 sequence at the head of a byte string, 0 where
  \<open>utf8.DecodeRuneInString\<close> reports an invalid encoding.
\<close>

abbreviation (input) ncode :: "char \<Rightarrow> nat" where
  "ncode c \<equiv> of_char c"

definition cont :: "nat \<Rightarrow> nat \<Rightarrow> char \<Rightarrow> bool" where
  "cont lo hi c \<longleftrightarrow> lo \<le> ncode c \<and> ncode c \<le> hi"

definition utf8_size :: "string \<Rightarrow> nat" where
  "utf8_size s =
     (case s of
        [] \<Rightarrow> 0
      | c # t \<Rightarrow>
         (let n = ncode c;
              tail = (\<lambda>k lo hi. k \<le> length t \<and> cont lo hi (t ! 0) \<and>
                        list_all (cont 0x80 0xBF) (take (k - 1) (tl t)))
          in if n < 0x80 then 1
             else if 0xC2 \<le> n \<and> n \<le> 0xDF \<and> tail 1 0x80 0xBF then 2
             else if n = 0xE0 \<and> tail 2 0xA0 0xBF then 3
             else if 0xE1 \<le> n \<and> n \<le> 0xEF \<and> n \<noteq> 0xED \<and> tail 2 0x80 0xBF then 3
             else if n = 0xED \<and> tail 2 0x80 0x9F then 3
             else if n = 0xF0 \<and> tail 3 0x90 0xBF then 4
             else if 0xF1 \<le> n \<and> n \<le> 0xF3 \<and> tail 3 0x80 0xBF then 4
             else if n = 0xF4 \<and> tail 3 0x80 0x8F then 4
             else 0))"

definition json_ascii :: "char \<Rightarrow> string" where
  "json_ascii c =
     (let n = ncode c in
      if n = 0x22 \<or> n = 0x5C then [CHR 0x5C, c]
      else if n = 8 then [CHR 0x5C, CHR ''b'']
      else if n = 12 then [CHR 0x5C, CHR ''f'']
      else if n = 10 then [CHR 0x5C, CHR ''n'']
      else if n = 13 then [CHR 0x5C, CHR ''r'']
      else if n = 9 then [CHR 0x5C, CHR ''t'']
      else if n < 0x20 \<or> n = 0x3C \<or> n = 0x3E \<or> n = 0x26
        then [CHR 0x5C, CHR ''u'', CHR ''0'', CHR ''0'', hex_char (n div 16), hex_char (n mod 16)]
      else [c])"

function json_chars :: "string \<Rightarrow> string" where
  "json_chars [] = []"
| "json_chars (c # s) =
     (if ncode c < 0x80 then json_ascii c @ json_chars s
      else let n = utf8_size (c # s) in
        if n = 0 then CHR 0x5C # ''ufffd'' @ json_chars s
        else if take 3 (c # s) = [CHR 0xE2, CHR 0x80, CHR 0xA8]
          then CHR 0x5C # ''u2028'' @ json_chars (drop (n - 1) s)
        else if take 3 (c # s) = [CHR 0xE2, CHR 0x80, CHR 0xA9]
          then CHR 0x5C # ''u2029'' @ json_chars (drop (n - 1) s)
        else take n (c # s) @ json_chars (drop (n - 1) s))"
  by pat_completeness auto
termination
  by (relation "measure length") auto

definition json_string :: "string \<Rightarrow> string" where
  "json_string s = CHR 0x22 # json_chars s @ [CHR 0x22]"

subsection \<open>Byte slices, numbers, times\<close>

definition b64alphabet :: string where
  "b64alphabet = ''ABCDEFGHIJKLMNOPQRSTUVWXYZabcdefghijklmnopqrstuvwxyz0123456789+/''"

definition b64char :: "nat \<Rightarrow> char" where
  "b64char n = b64alphabet ! (n mod 64)"

fun base64 :: "bytes \<Rightarrow> string" where
  "base64 [] = []"
| "base64 [a] = (let n = unat a * 16 in [b64char (n div 64), b64char n, CHR ''='', CHR ''=''])"
| "base64 [a, b] =
     (let n = unat a * 1024 + unat b * 4 in
      [b64char (n div 4096), b64char (n div 64), b64char n, CHR ''=''])"
| "base64 (a # b # c # r) =
     (let n = unat a * 65536 + unat b * 256 + unat c in
      [b64char (n div 262144), b64char (n div 4096), b64char (n div 64), b64char n] @ base64 r)"

definition json_bytes :: "bytes option \<Rightarrow> string" where
  "json_bytes v = (case v of None \<Rightarrow> ''null''
     | Some b \<Rightarrow> CHR 0x22 # base64 b @ [CHR 0x22])"

definition json_uint :: "nat \<Rightarrow> string" where
  "json_uint n = dec n"

text \<open>The fraction of a second: nine digits without their trailing zeros, nothing if zero.\<close>

definition json_fraction :: "nat \<Rightarrow> string" where
  "json_fraction n =
     (if n = 0 then []
      else CHR ''.'' # rev (dropWhile (\<lambda>c. c = CHR ''0'') (rev (pad0 9 (dec n)))))"

definition json_time :: "gotime \<Rightarrow> string" where
  "json_time t =
     CHR 0x22 # pad0 4 (dec (tYear t)) @ ''-'' @ pad0 2 (dec (tMonth t)) @ ''-''
       @ pad0 2 (dec (tDay t)) @ ''T'' @ pad0 2 (dec (tHour t)) @ '':''
       @ pad0 2 (dec (tMinute t)) @ '':'' @ pad0 2 (dec (tSecond t))
       @ json_fraction (tNano t) @ ''Z'' @ [CHR 0x22]"

subsection \<open>Objects and arrays\<close>

definition json_field :: "string \<Rightarrow> string \<Rightarrow> string" where
  "json_field name v = CHR 0x22 # name @ [CHR 0x22, CHR '':''] @ v"

fun json_commas :: "string list \<Rightarrow> string" where
  "json_commas [] = []"
| "json_commas [x] = x"
| "json_commas (x # y # r) = x @ '','' @ json_commas (y # r)"

definition json_object :: "string list \<Rightarrow> string" where
  "json_object fs = CHR ''{'' # json_commas fs @ ''}''"

text \<open>A slice of structs: the empty one is nil wherever the program marshals it.\<close>

definition json_array :: "string list \<Rightarrow> string" where
  "json_array elems =
     (if elems = [] then ''null'' else CHR ''['' # json_commas elems @ '']'')"

text \<open>
  \<open>json.MarshalIndent\<close> with two spaces: every element on a line of its own, at its depth, and a
  space behind the colon of a field.
\<close>

definition newline :: "nat \<Rightarrow> string" where
  "newline d = CHR 0x0A # replicate (2 * d) (CHR '' '')"

definition indentField :: "string \<Rightarrow> string \<Rightarrow> string" where
  "indentField name v = json_field name (CHR '' '' # v)"

definition indentObject :: "nat \<Rightarrow> string list \<Rightarrow> string" where
  "indentObject d fs = (if fs = [] then ''{}''
     else CHR ''{'' # json_commas (map (\<lambda>f. newline (Suc d) @ f) fs) @ newline d @ ''}'')"

definition indentArray :: "nat \<Rightarrow> string list \<Rightarrow> string" where
  "indentArray d elems = (if elems = [] then ''null''
     else CHR ''['' # json_commas (map (\<lambda>e. newline (Suc d) @ e) elems) @ newline d @ '']'')"

definition json_bool :: "bool \<Rightarrow> string" where
  "json_bool b = (if b then ''true'' else ''false'')"

definition json_int :: "int \<Rightarrow> string" where
  "json_int n = (if n < 0 then CHR ''-'' # dec (nat (- n)) else dec (nat n))"

text \<open>A string field under \<open>omitempty\<close>.\<close>

definition json_opt :: "string \<Rightarrow> string \<Rightarrow> string list" where
  "json_opt name s = (if s = [] then [] else [json_field name (json_string s)])"

definition json_operation :: "Operation \<Rightarrow> string" where
  "json_operation op = json_object
     ([json_field ''key'' (json_string (opKey op)),
       json_field ''value'' (json_bytes (opValue op))]
      @ (if opDelete op then [json_field ''delete'' ''true''] else []))"

definition json_transaction :: "Transaction \<Rightarrow> string" where
  "json_transaction tx = json_object
     ([json_field ''id'' (json_string (txID tx)),
       json_field ''timestamp'' (json_time (txTimestamp tx))]
      @ json_opt ''sender'' (txSender tx)
      @ (if txNonce tx = 0 then [] else [json_field ''nonce'' (json_uint (unat (txNonce tx)))])
      @ [json_field ''ops'' (json_array (map json_operation (txOps tx)))]
      @ (if txPayload tx = [] then []
         else [json_field ''payload'' (json_bytes (Some (txPayload tx)))])
      @ json_opt ''kind'' (txKind tx))"

definition json_header :: "BlockHeader \<Rightarrow> string" where
  "json_header h = json_object
     ([json_field ''height'' (json_uint (unat (hHeight h))),
       json_field ''timestamp'' (json_time (hTimestamp h)),
       json_field ''prev_hash'' (json_string (hPrevHash h)),
       json_field ''tx_root'' (json_string (hTxRoot h)),
       json_field ''state_root'' (json_string (hStateRoot h))]
      @ json_opt ''contract_root'' (hContractRoot h)
      @ json_opt ''account_root'' (hAccountRoot h)
      @ json_opt ''contract_code_root'' (hContractCodeRoot h)
      @ json_opt ''contract_storage_root'' (hContractStorageRoot h)
      @ json_opt ''log_root'' (hLogRoot h)
      @ json_opt ''zk_root'' (hZKRoot h)
      @ json_opt ''receipt_root'' (hReceiptRoot h)
      @ [json_field ''record_hash'' (json_string (hRecordHash h)),
         json_field ''schema'' (json_uint (unat (hSchema h)))]
      @ json_opt ''compression'' (hCompression h))"

definition json_block :: "Block \<Rightarrow> string" where
  "json_block b = json_object
     [json_field ''header'' (json_header (bHeader b)),
      json_field ''transactions'' (json_array (map json_transaction (bTransactions b)))]"

text \<open>
  \<open>json.Marshal\<close> itself: it fails, and the callers that drop the error go on with a nil
  slice, when a time has a year beyond 9999.
\<close>

definition marshal_transaction :: "Transaction \<Rightarrow> bytes" where
  "marshal_transaction tx =
     (if tYear (txTimestamp tx) \<le> 9999 then bytes_of (json_transaction tx) else [])"

definition marshal_block :: "Block \<Rightarrow> bytes" where
  "marshal_block b =
     (if tYear (hTimestamp (bHeader b)) \<le> 9999 \<and>
         list_all (\<lambda>tx. tYear (txTimestamp tx) \<le> 9999) (bTransactions b)
      then bytes_of (json_block b) else [])"

end
