(* ===== verification/Engine.thy ===== *)
theory Engine
  imports Storage Merkle Json "HOL-Library.Signed_Division"
begin

text \<open>
  \<open>internal/engine/engine.go\<close>: the chain of blocks and the key-value state it builds. The struct
  \<open>Engine\<close> is the record of the same name; the fields that loading a block reads and writes
  (\<open>blocks\<close>, \<open>state\<close>, \<open>versions\<close>, \<open>txCount\<close>, \<open>opCount\<close>) are grouped in the record \<open>Chain\<close>,
  because \<open>Verify\<close> runs the same code on a temporary engine without a store. The mutex makes
  each operation atomic and has no counterpart. Random ids and clock readings are arguments.
\<close>

record version =
  verHeight :: u64
  verValue :: bytes
  verDeleted :: bool

record Chain =
  cBlocks :: "Block list"
  cState :: state
  cVersions :: "(string, version list) fmap"
  cTxCount :: u64
  cOpCount :: u64

record Engine =
  eStore :: Files
  eChain :: Chain
  eAirGapped :: bool

definition emptyChain :: Chain where
  "emptyChain = \<lparr>cBlocks = [], cState = fmempty, cVersions = fmempty, cTxCount = 0, cOpCount = 0\<rparr>"

subsection \<open>Hashes and roots\<close>

definition hashBlock :: "Block \<Rightarrow> string" where
  "hashBlock b = Hash (marshal_block (b\<lparr>bHeader := (bHeader b)\<lparr>hRecordHash := []\<rparr>\<rparr>))"

definition contractAggregateRoot :: "state \<Rightarrow> string" where
  "contractAggregateRoot s = StateRoot (fmfilter (\<lambda>k. HasPrefix k ''contract/'' \<or>
     HasPrefix k ''contract-storage/'' \<or> HasPrefix k ''account/'') s)"

definition countContracts :: "state \<Rightarrow> nat" where
  "countContracts s = fcard (ffilter (\<lambda>k. 14 < length k \<and> take 14 k = ''contract/code/'') (fmdom s))"

text \<open>The record hash of the last block, the empty string before the first.\<close>

definition lastHash :: "Chain \<Rightarrow> string" where
  "lastHash c = (if cBlocks c = [] then [] else hRecordHash (bHeader (last (cBlocks c))))"

definition nextHeight :: "Chain \<Rightarrow> u64" where
  "nextHeight c = of_nat (length (cBlocks c)) + 1"

subsection \<open>Applying operations\<close>

definition applyState :: "Operation \<Rightarrow> state \<Rightarrow> state" where
  "applyState op s =
     (if opDelete op then fmdrop (opKey op) s else fmupd (opKey op) (slice (opValue op)) s)"

definition versionsOf :: "Chain \<Rightarrow> string \<Rightarrow> version list" where
  "versionsOf c k = (case fmlookup (cVersions c) k of None \<Rightarrow> [] | Some vs \<Rightarrow> vs)"

definition applyOp :: "u64 \<Rightarrow> Operation \<Rightarrow> Chain \<Rightarrow> Chain" where
  "applyOp h op c =
     c\<lparr>cState := applyState op (cState c),
       cVersions := fmupd (opKey op)
         (versionsOf c (opKey op)
            @ [\<lparr>verHeight = h, verValue = slice (opValue op), verDeleted = opDelete op\<rparr>])
         (cVersions c)\<rparr>"

definition countTx :: "Transaction \<Rightarrow> Chain \<Rightarrow> Chain" where
  "countTx tx c = c\<lparr>cTxCount := cTxCount c + 1, cOpCount := cOpCount c + of_nat (length (txOps tx))\<rparr>"

subsection \<open>Loading a block\<close>

text \<open>
  The root checks of \<open>applyLoaded\<close> in their order. Schema 3 compares the contract, zk and
  receipt roots, schema 4 also the others, and takes the aggregate contract root.
\<close>

definition checkRoots :: "state \<Rightarrow> BlockHeader \<Rightarrow> error + unit" where
  "checkRoots s h =
     (if StateRoot s \<noteq> hStateRoot h then Inl (StateRootMismatch (hHeight h))
      else if 3 \<le> hSchema h then
        (let contractRoot = (if 4 \<le> hSchema h then contractAggregateRoot s
                             else PrefixRoot s ''contract/'')
         in if contractRoot \<noteq> hContractRoot h then Inl (ContractRootMismatch (hHeight h))
            else if 4 \<le> hSchema h \<and> PrefixRoot s ''account/'' \<noteq> hAccountRoot h
              then Inl (AccountRootMismatch (hHeight h))
            else if 4 \<le> hSchema h \<and> PrefixRoot s ''contract/code/'' \<noteq> hContractCodeRoot h
              then Inl (ContractCodeRootMismatch (hHeight h))
            else if 4 \<le> hSchema h \<and> PrefixRoot s ''contract-storage/'' \<noteq> hContractStorageRoot h
              then Inl (ContractStorageRootMismatch (hHeight h))
            else if 4 \<le> hSchema h \<and> PrefixRoot s ''log/'' \<noteq> hLogRoot h
              then Inl (LogRootMismatch (hHeight h))
            else if PrefixRoot s ''zk/'' \<noteq> hZKRoot h then Inl (ZKRootMismatch (hHeight h))
            else if PrefixRoot s ''receipt/'' \<noteq> hReceiptRoot h
              then Inl (ReceiptRootMismatch (hHeight h))
            else Inr ())
      else Inr ())"

text \<open>
  Both callers drop the engine when loading fails, so the error carries no engine. The
  counters are added in a second loop, after the checks.
\<close>

definition applyLoaded :: "Block \<Rightarrow> Chain \<Rightarrow> error + Chain" where
  "applyLoaded b c =
     (let h = bHeader b in
      if hHeight h \<noteq> nextHeight c then Inl (HeightDiscontinuity (hHeight h) (nextHeight c))
      else if hPrevHash h \<noteq> lastHash c then Inl (PrevHashMismatch (hHeight h))
      else if hashBlock b \<noteq> hRecordHash h then Inl (RecordHashMismatch (hHeight h))
      else
        let c = fold (\<lambda>tx. fold (applyOp (hHeight h)) (txOps tx)) (bTransactions b) c in
        case checkRoots (cState c) h of
          Inl e \<Rightarrow> Inl e
        | Inr _ \<Rightarrow>
            let c = fold countTx (bTransactions b) c in Inr (c\<lparr>cBlocks := cBlocks c @ [b]\<rparr>))"

fun applyAll :: "Block list \<Rightarrow> Chain \<Rightarrow> error + Chain" where
  "applyAll [] c = Inr c"
| "applyAll (b # bs) c = (case applyLoaded b c of Inl e \<Rightarrow> Inl e | Inr c' \<Rightarrow> applyAll bs c')"

text \<open>\<open>Verify\<close> replays the blocks in memory on an empty engine.\<close>

definition Verify :: "Engine \<Rightarrow> error + unit" where
  "Verify e = (case applyAll (cBlocks (eChain e)) emptyChain of Inl x \<Rightarrow> Inl x | Inr _ \<Rightarrow> Inr ())"

subsection \<open>Open and Close\<close>

text \<open>
  A block in the write-ahead log that is not the last one of the chain is appended to the
  segments before it is checked. No error path closes the store.
\<close>

definition Engine_Open :: "env \<Rightarrow> codec \<Rightarrow> bool \<Rightarrow> disk \<Rightarrow> (error + Engine) \<times> disk" where
  "Engine_Open env cx airGapped d =
     (case Storage_Open env cx d of
        (Inl x, d) \<Rightarrow> (Inl x, d)
      | (Inr f, d) \<Rightarrow>
         (case ReadAll env cx d f of
            Inl x \<Rightarrow> (Inl x, d)
          | Inr blocks \<Rightarrow>
             (case applyAll blocks emptyChain of
                Inl x \<Rightarrow> (Inl x, d)
              | Inr c \<Rightarrow>
                 (case ReadWAL env cx d of
                    Inl x \<Rightarrow> (Inl x, d)
                  | Inr None \<Rightarrow> (Inr \<lparr>eStore = f, eChain = c, eAirGapped = airGapped\<rparr>, d)
                  | Inr (Some wal) \<Rightarrow>
                      if cBlocks c = [] \<or> hRecordHash (bHeader (last (cBlocks c))) \<noteq> hRecordHash (bHeader wal)
                      then (case AppendBlock env cx wal d f of
                              (Inl x, d, _) \<Rightarrow> (Inl x, d)
                            | (Inr _, d, f) \<Rightarrow>
                               (case applyLoaded wal c of
                                  Inl x \<Rightarrow> (Inl x, d)
                                | Inr c \<Rightarrow> (Inr \<lparr>eStore = f, eChain = c, eAirGapped = airGapped\<rparr>,
                                            snd (ClearWAL env d))))
                      else (Inr \<lparr>eStore = f, eChain = c, eAirGapped = airGapped\<rparr>,
                            snd (ClearWAL env d))))))"

definition Engine_Close :: "env \<Rightarrow> disk \<Rightarrow> Engine \<Rightarrow> (error + unit) \<times> disk \<times> Engine" where
  "Engine_Close env d e =
     (case Storage_Close env d (eStore e) of (r, d, f) \<Rightarrow> (r, d, e\<lparr>eStore := f\<rparr>))"

subsection \<open>Commit\<close>

definition NewTransaction :: "bytes \<Rightarrow> gotime \<Rightarrow> Operation list \<Rightarrow> string \<Rightarrow> u64 \<Rightarrow> bytes \<Rightarrow> Transaction" where
  "NewTransaction idBytes now ops sender nonce payload =
     \<lparr>txID = EncodeToString idBytes, txTimestamp = now, txSender = sender, txNonce = nonce,
      txOps = ops, txPayload = payload, txKind = []\<rparr>"

text \<open>
  The filtering loops: operations that leave the state as it is are dropped, and transactions
  left without operations with them. The state is threaded through as \<open>nextState\<close>.
\<close>

fun filterOps :: "Operation list \<Rightarrow> state \<Rightarrow> error + Operation list \<times> state" where
  "filterOps [] s = Inr ([], s)"
| "filterOps (op # ops) s =
     (if opKey op = [] then Inl EmptyKeyError
      else if opDelete op then
        (if fmlookup s (opKey op) = None then filterOps ops s
         else case filterOps ops (fmdrop (opKey op) s) of
             Inl x \<Rightarrow> Inl x | Inr (fops, s') \<Rightarrow> Inr (op # fops, s'))
      else if fmlookup s (opKey op) = Some (slice (opValue op)) then filterOps ops s
      else case filterOps ops (fmupd (opKey op) (slice (opValue op)) s) of
          Inl x \<Rightarrow> Inl x | Inr (fops, s') \<Rightarrow> Inr (op # fops, s'))"

fun filterTxs :: "Transaction list \<Rightarrow> state \<Rightarrow> error + Transaction list \<times> state" where
  "filterTxs [] s = Inr ([], s)"
| "filterTxs (tx # txs) s =
     (if txID tx = [] then Inl TransactionIDRequired
      else case filterOps (txOps tx) s of
          Inl x \<Rightarrow> Inl x
        | Inr (fops, s') \<Rightarrow>
            (case filterTxs txs s' of
               Inl x \<Rightarrow> Inl x
             | Inr (ftxs, s'') \<Rightarrow>
                 Inr (if fops = [] then ftxs else tx\<lparr>txOps := fops\<rparr> # ftxs, s'')))"

definition newHeader :: "gotime \<Rightarrow> Chain \<Rightarrow> Transaction list \<Rightarrow> state \<Rightarrow> BlockHeader" where
  "newHeader now c ftxs s =
     \<lparr>hHeight = nextHeight c, hTimestamp = now, hPrevHash = lastHash c,
      hTxRoot = Root (map marshal_transaction ftxs), hStateRoot = StateRoot s,
      hContractRoot = contractAggregateRoot s, hAccountRoot = PrefixRoot s ''account/'',
      hContractCodeRoot = PrefixRoot s ''contract/code/'',
      hContractStorageRoot = PrefixRoot s ''contract-storage/'',
      hLogRoot = PrefixRoot s ''log/'', hZKRoot = PrefixRoot s ''zk/'',
      hReceiptRoot = PrefixRoot s ''receipt/'', hRecordHash = [], hSchema = 4,
      hCompression = ''zlib-fast''\<rparr>"

definition sealBlock :: "Block \<Rightarrow> Block" where
  "sealBlock b = b\<lparr>bHeader := (bHeader b)\<lparr>hRecordHash := hashBlock b\<rparr>\<rparr>"

definition newBlock :: "gotime \<Rightarrow> Chain \<Rightarrow> Transaction list \<Rightarrow> state \<Rightarrow> Block" where
  "newBlock now c ftxs s = sealBlock \<lparr>bHeader = newHeader now c ftxs s, bTransactions = ftxs\<rparr>"

text \<open>The block that \<open>Commit\<close> prepares before it touches the disk.\<close>

definition prepareBlock :: "gotime \<Rightarrow> Transaction list \<Rightarrow> Chain \<Rightarrow> error + Block" where
  "prepareBlock now txs c =
     (if txs = [] then Inl EmptyBlock
      else case filterTxs txs (cState c) of
          Inl x \<Rightarrow> Inl x
        | Inr (ftxs, s) \<Rightarrow>
            if ftxs = [] then Inl NoStateChange else Inr (newBlock now c ftxs s))"

text \<open>The loop of \<open>Commit\<close> that brings the block into memory.\<close>

definition commitBlock :: "Block \<Rightarrow> Chain \<Rightarrow> Chain" where
  "commitBlock b c =
     (let c = fold (\<lambda>tx c. countTx tx (fold (applyOp (hHeight (bHeader b))) (txOps tx) c))
                (bTransactions b) c
      in c\<lparr>cBlocks := cBlocks c @ [b]\<rparr>)"

text \<open>
  When only \<open>ClearWAL\<close> fails the source returns the block beside the error; every caller
  looks at the error alone, so the error stands for both.
\<close>

definition Commit :: "env \<Rightarrow> codec \<Rightarrow> gotime \<Rightarrow> Transaction list \<Rightarrow> disk \<Rightarrow> Engine \<Rightarrow>
    (error + Block) \<times> disk \<times> Engine" where
  "Commit env cx now txs d e =
     (case prepareBlock now txs (eChain e) of
        Inl x \<Rightarrow> (Inl x, d, e)
      | Inr b \<Rightarrow>
         (case WriteWAL env cx b d of
            (Inl x, d) \<Rightarrow> (Inl x, d, e)
          | (Inr _, d) \<Rightarrow>
             (case AppendBlock env cx b d (eStore e) of
                (Inl x, d, f) \<Rightarrow> (Inl x, d, e\<lparr>eStore := f\<rparr>)
              | (Inr _, d, f) \<Rightarrow>
                  let e = e\<lparr>eStore := f, eChain := commitBlock b (eChain e)\<rparr> in
                  (case ClearWAL env d of
                     (Inl x, d) \<Rightarrow> (Inl x, d, e)
                   | (Inr _, d) \<Rightarrow> (Inr b, d, e)))))"

subsection \<open>Reading\<close>

definition Get :: "Engine \<Rightarrow> string \<Rightarrow> bytes \<times> bool" where
  "Get e key = (slice (fmlookup (cState (eChain e)) key), fmlookup (cState (eChain e)) key \<noteq> None)"

text \<open>The loop of \<open>GetAt\<close> from the end of the list of versions.\<close>

fun findVersion :: "version list \<Rightarrow> u64 \<Rightarrow> bytes option" where
  "findVersion [] h = None"
| "findVersion (v # vs) h =
     (if verHeight v \<le> h then (if verDeleted v then None else Some (verValue v))
      else findVersion vs h)"

definition GetAt :: "Engine \<Rightarrow> string \<Rightarrow> u64 \<Rightarrow> bytes option" where
  "GetAt e key h = findVersion (rev (versionsOf (eChain e) key)) h"

definition Block_at :: "Engine \<Rightarrow> u64 \<Rightarrow> Block option" where
  "Block_at e h =
     (let bs = cBlocks (eChain e) in
      if h = 0 \<or> of_nat (length bs) < h then None else Some (bs ! unat (h - 1)))"

definition Engine_StateProof :: "Engine \<Rightarrow> string \<Rightarrow> Proof" where
  "Engine_StateProof e key = StateProof (cState (eChain e)) key"

definition StateCopy :: "Engine \<Rightarrow> state" where
  "StateCopy e = cState (eChain e)"

definition BlocksCopy :: "Engine \<Rightarrow> Block list" where
  "BlocksCopy e = cBlocks (eChain e)"

definition Engine_Status :: "env \<Rightarrow> disk \<Rightarrow> Engine \<Rightarrow> Status" where
  "Engine_Status env d e =
     (let c = eChain e; s = cState c in
      \<lparr>stHeight = of_nat (length (cBlocks c)), stLatestHash = lastHash c, stStateRoot = StateRoot s,
       stContractRoot = contractAggregateRoot s, stAccountRoot = PrefixRoot s ''account/'',
       stContractCodeRoot = PrefixRoot s ''contract/code/'',
       stContractStorageRoot = PrefixRoot s ''contract-storage/'',
       stLogRoot = PrefixRoot s ''log/'', stZKRoot = PrefixRoot s ''zk/'',
       stReceiptRoot = PrefixRoot s ''receipt/'', stKeys = fcard (fmdom s),
       stAccounts = PrefixCount s ''account/'', stContracts = countContracts s,
       stContractSlots = PrefixCount s ''contract-storage/'', stZKFields = PrefixCount s ''zk/'',
       stReceipts = PrefixCount s ''receipt/'', stLogs = PrefixCount s ''log/'',
       stTransactions = cTxCount c, stOperations = cOpCount c, stAirGapped = eAirGapped e,
       stVerified = True, stSegments = SegmentCount (eStore e), stStorageBytes = StorageBytes env d,
       stSnapshots = SnapshotCount d,
       stStorage = ''AGI3/AGI4 compatible segments + CRC32C + WAL + roots + snapshots + no-op suppression + proofs + enterprise controls'',
       stEngine = ''AGI-DB Enterprise v10'', stCompression = ''zlib-fast adaptive'',
       stFormatVersion = ''AGI4'', stDurability = ''WAL fsync + segment fsync per committed block''\<rparr>)"

subsection \<open>Batches\<close>

text \<open>
  What the outside supplies to a run of \<open>CommitOperations\<close>: the random bytes and the clock of
  the transaction made for operation \<open>i\<close>, the clock and the failures of the commit of the
  batch that starts at operation \<open>i\<close>.
\<close>

record world =
  wRandom :: "nat \<Rightarrow> bytes"
  wTxClock :: "nat \<Rightarrow> gotime"
  wClock :: "nat \<Rightarrow> gotime"
  wEnv :: "nat \<Rightarrow> env"

definition batchTxs :: "world \<Rightarrow> string \<Rightarrow> nat \<Rightarrow> Operation list \<Rightarrow> Transaction list" where
  "batchTxs w sender start ops =
     map (\<lambda>(i, op). NewTransaction (wRandom w i) (wTxClock w i) [op] sender (of_nat i) [])
       (zip [start..<start + length ops] ops)"

text \<open>
  The loop over the batches; \<open>ops\<close> are those from \<open>start\<close> on. The batch size is positive. \<open>start\<close> stays
  below the length of a slice in memory plus one batch size, so its addition wraps only when it ends the loop.
\<close>

function commitBatches :: "world \<Rightarrow> codec \<Rightarrow> string \<Rightarrow> nat \<Rightarrow> nat \<Rightarrow> Operation list \<Rightarrow> disk \<Rightarrow> Engine \<Rightarrow>
    (Block list \<times> error option) \<times> disk \<times> Engine" where
  "commitBatches w cx sender n start ops d e =
     (if ops = [] \<or> n = 0 then (([], None), d, e)
      else case Commit (wEnv w start) cx (wClock w start) (batchTxs w sender start (take n ops)) d e of
          (Inl x, d, e) \<Rightarrow>
            if x = NoStateChange then commitBatches w cx sender n (start + n) (drop n ops) d e
            else (([], Some x), d, e)
        | (Inr b, d, e) \<Rightarrow>
            (case commitBatches w cx sender n (start + n) (drop n ops) d e of
               ((bs, x), d, e) \<Rightarrow> ((b # bs, x), d, e)))"
  by pat_completeness auto
termination
  by (relation "measure (\<lambda>(w, cx, sender, n, start, ops, d, e). length ops)") auto

declare commitBatches.simps [simp del]

text \<open>
  The batch size is a signed word of 64 bits. The capacity of the result is computed first, with
  wrap-around and a division that truncates towards zero; \<open>make\<close> panics when it is negative.
\<close>

definition CommitOperations :: "world \<Rightarrow> codec \<Rightarrow> Operation list \<Rightarrow> string \<Rightarrow> 64 word \<Rightarrow> disk \<Rightarrow> Engine \<Rightarrow>
    (Block list \<times> error option) \<times> disk \<times> Engine" where
  "CommitOperations w cx ops sender batchSize d e =
     (let n = (if sint batchSize \<le> 0 then 1000 else batchSize);
          capacity = sint (of_nat (length ops) + n - 1) sdiv sint n
      in if capacity < 0 then (([], Some CapacityPanic), d, e)
         else commitBatches w cx sender (unat n) 0 ops d e)"

end
