(* ===== verification/StorageLog.thy ===== *)
theory StorageLog
  imports Storage
begin

text \<open>
  What the storage layer keeps: a directory holds a list of segments, each the concatenation of
  the frames of a list of blocks; the in-memory index is the one that reading the segments
  gives. Opening a directory, appending a block and reading all blocks back are proved against
  this view, and through it against the interface \<open>block_log\<close>, a list of blocks that grows at
  the end, which the engine and compaction rely on. The last part treats records that a crash
  cut short.
\<close>

subsection \<open>Segments of frames\<close>

definition blockFrame :: "codec \<Rightarrow> Block \<Rightarrow> bytes" where
  "blockFrame cx b = (case gobEncode cx b of None \<Rightarrow> [] | Some p \<Rightarrow> frame cx p)"

definition storable :: "codec \<Rightarrow> Block \<Rightarrow> bool" where
  "storable cx b \<longleftrightarrow> (\<exists>p. gobEncode cx b = Some p \<and> length (frameBody cx p) \<le> maxRecordSize)"

definition segBytes :: "codec \<Rightarrow> Block list \<Rightarrow> bytes" where
  "segBytes cx bs = concat (map (blockFrame cx) bs)"

fun segIndex :: "codec \<Rightarrow> u64 \<Rightarrow> nat \<Rightarrow> Block list \<Rightarrow> (u64, Location) fmap \<Rightarrow> (u64, Location) fmap" where
  "segIndex cx sid off [] idx = idx"
| "segIndex cx sid off (b # bs) idx =
     segIndex cx sid (off + length (blockFrame cx b)) bs
       (fmupd (hHeight (bHeader b))
          \<lparr>locSegment = sid, locOffset = off, locLength = of_nat (length (blockFrame cx b))\<rparr> idx)"

lemma segBytes_simps [simp]:
  "segBytes cx [] = []" "segBytes cx (b # bs) = blockFrame cx b @ segBytes cx bs"
  "segBytes cx (bs @ cs) = segBytes cx bs @ segBytes cx cs"
  by (simp_all add: segBytes_def)

lemma hHeight_gobBlock [simp]: "bHeader (gobBlock b) = bHeader b"
  by (simp add: gobBlock_def)

lemma readFrame_blockFrame:
  assumes "codec_laws cx" and "storable cx b"
  obtains p where "readFrame cx (blockFrame cx b @ r) = (Inr p, length (blockFrame cx b))"
    and "gobDecode cx p = Some (gobBlock b)"
proof -
  from assms(2) obtain p where p: "gobEncode cx b = Some p" "length (frameBody cx p) \<le> maxRecordSize"
    by (auto simp: storable_def)
  show ?thesis
    by (rule that [of p])
      (simp_all add: blockFrame_def p readFrame_frame codec_lawsD(1,2) [OF assms(1) p(1)] assms(1)
         del: length_frame)
qed

lemma recoverLoop_segBytes:
  assumes "codec_laws cx" and "\<forall>b \<in> set bs. storable cx b"
  shows "recoverLoop cx sid off (segBytes cx bs @ r) idx =
    recoverLoop cx sid (off + length (segBytes cx bs)) r (segIndex cx sid off bs idx)"
  using assms(2)
proof (induction bs arbitrary: off idx)
  case (Cons b bs)
  then have "storable cx b" by simp
  with assms(1) obtain p where p:
    "readFrame cx (blockFrame cx b @ segBytes cx bs @ r) = (Inr p, length (blockFrame cx b))"
    "gobDecode cx p = Some (gobBlock b)"
    by (rule readFrame_blockFrame)
  show ?case
    using Cons by (subst recoverLoop.simps) (simp add: p add.assoc)
qed simp

lemma recoverLoop_Nil [simp]: "recoverLoop cx sid off [] idx = Inr (idx, None)"
  by (simp add: recoverLoop.simps readFrame_def ReadFull_def)

lemma recoverLoop_torn:
  assumes "storable cx b" and "codec_laws cx" and "n < length (blockFrame cx b)"
  shows "recoverLoop cx sid off (take n (blockFrame cx b)) idx =
    Inr (idx, if n = 0 \<or> n = 16 then None else Some off)"
proof -
  from assms(1) obtain p where p: "gobEncode cx b = Some p" "length (frameBody cx p) \<le> maxRecordSize"
    by (auto simp: storable_def)
  let ?body = "frameBody cx p"
  have "0 < length ?body"
    using frameBody_not_Nil [OF assms(2)] codec_lawsD(1) [OF assms(2) p(1)] by simp
  moreover have fr: "blockFrame cx b = frameHeader (length ?body) (crc32c ?body)
      (if length ?body = length p then 1 else 2) @ ?body"
    by (simp add: blockFrame_def p frame_def Let_def)
  moreover have "n < 16 + length ?body" using assms(3) fr by simp
  ultimately have "readFrame cx (take n (blockFrame cx b))
      = (Inl (if n = 0 \<or> n = 16 then EOF else UnexpectedEOF), n)"
    using p(2) by (simp only: readFrame_torn)
  then show ?thesis
    by (subst recoverLoop.simps) (auto split: prod.splits sum.splits)
qed

subsection \<open>A directory of segments\<close>

fun diskIndex :: "codec \<Rightarrow> nat \<Rightarrow> Block list list \<Rightarrow> (u64, Location) fmap \<Rightarrow> (u64, Location) fmap" where
  "diskIndex cx k [] idx = idx"
| "diskIndex cx k (bs # bss) idx = diskIndex cx (Suc k) bss (segIndex cx (of_nat k) 0 bs idx)"

definition segIds :: "nat \<Rightarrow> u64 list" where
  "segIds n = map of_nat [1..<Suc n]"

definition disk_holds :: "codec \<Rightarrow> disk \<Rightarrow> Block list list \<Rightarrow> bool" where
  "disk_holds cx d bss \<longleftrightarrow>
     length bss < 2 ^ 64 \<and>
     fmdom' (dData d) = segmentPath ` set (segIds (length bss)) \<and>
     (\<forall>i < length bss. fmlookup (dData d) (segmentPath (of_nat (Suc i))) = Some (segBytes cx (bss ! i))) \<and>
     (\<forall>b \<in> set (concat bss). storable cx b)"

lemma segmentId_path [simp]: "segmentId (segmentPath n) = n"
proof -
  have "unat n < 2 ^ 64" using unsigned_less [of n] by simp
  then show ?thesis
    unfolding segmentId_def segmentPath_def TrimPrefix_append TrimSuffix_append
    by (subst ParseUint_pad_dec) simp_all
qed

lemma segmentPath_inject [simp]: "segmentPath m = segmentPath n \<longleftrightarrow> m = n"
  by (metis segmentId_path)

lemma HasPrefix_segmentPath [simp]: "HasPrefix (segmentPath n) ''segment-''"
  by (simp only: segmentPath_def HasPrefix_append)

lemma of_nat_less_u64: "i < 2 ^ 64 \<Longrightarrow> j < 2 ^ 64 \<Longrightarrow> (of_nat i :: u64) < of_nat j \<longleftrightarrow> i < j"
  by (simp add: word_less_nat_alt unat_of_nat)

lemma of_nat_eq_u64: "i < 2 ^ 64 \<Longrightarrow> j < 2 ^ 64 \<Longrightarrow> (of_nat i :: u64) = of_nat j \<longleftrightarrow> i = j"
  by (metis of_nat_less_u64 linorder_neq_iff)

lemma sorted_segIds: "n < 2 ^ 64 \<Longrightarrow> sorted_wrt (<) (segIds n)"
  by (auto simp: segIds_def sorted_wrt_map of_nat_less_u64 simp del: upt_Suc
      intro!: sorted_wrt_mono_rel [OF _ sorted_wrt_upt])

lemma segmentIds_holds: "disk_holds cx d bss \<Longrightarrow> segmentIds d = segIds (length bss)"
proof -
  assume h: "disk_holds cx d bss"
  let ?names = "sorted_list_of_fset (fmdom (dData d))"
  have set: "set ?names = segmentPath ` set (segIds (length bss))"
    using h by (simp add: disk_holds_def fmdom'_alt_def)
  then have "filter (\<lambda>name. HasPrefix name ''segment-'') ?names = ?names"
    by (intro filter_True) auto
  moreover have "distinct ?names" by (simp add: sorted_list_of_fset.rep_eq)
  then have "distinct (map segmentId ?names)"
    using set by (auto simp: distinct_map inj_on_def)
  moreover have "set (map segmentId ?names) = set (segIds (length bss))"
    using set by (auto simp: image_image)
  ultimately have "segmentIds d = sort (map segmentId ?names)" "distinct (sort (map segmentId ?names))"
     "set (sort (map segmentId ?names)) = set (segIds (length bss))"
    by (simp_all add: segmentIds_def)
  moreover have "sorted (segIds (length bss))" "distinct (segIds (length bss))"
    using h sorted_segIds [of "length bss"] by (auto simp: disk_holds_def strict_sorted_iff)
  ultimately show ?thesis
    by (metis sorted_distinct_set_unique sorted_sort)
qed

lemma setData_simps [simp]:
  "fmlookup (dData (setData n c d)) (segmentPath m) = (if m = n then Some c else fmlookup (dData d) (segmentPath m))"
  "fmdom' (dData (setData n c d)) = insert (segmentPath n) (fmdom' (dData d))"
  "dWal (setData n c d) = dWal d" "dLock (setData n c d) = dLock d"
  "dSnapshots (setData n c d) = dSnapshots d"
  by (auto simp: setData_def)

lemma dataFile_simps [simp]:
  "dataFile (setData n c d) m = (if m = n then c else dataFile d m)"
  by (simp add: dataFile_def)

lemma recoverAll_holds:
  assumes cx: "codec_laws cx"
    and files: "\<forall>i < length bss. fmlookup (dData d) (segmentPath (of_nat (k + i))) = Some (segBytes cx (bss ! i))"
    and "\<forall>b \<in> set (concat bss). storable cx b"
  shows "recoverAll healthy cx (map of_nat [k..<k + length bss] @ ids) d idx
     = recoverAll healthy cx ids d (diskIndex cx k bss idx)"
  using assms(2,3)
proof (induction bss arbitrary: k idx)
  case (Cons bs bss)
  have cont: "fmlookup (dData d) (segmentPath (of_nat k)) = Some (segBytes cx bs)"
    using Cons.prems(1) by (metis add_0_right length_Cons nth_Cons_0 zero_less_Suc)
  have loop: "recoverLoop cx (of_nat k) 0 (segBytes cx bs) idx = Inr (segIndex cx (of_nat k) 0 bs idx, None)"
    using recoverLoop_segBytes [OF cx, of bs "of_nat k" 0 "[]" idx] Cons.prems(2) by simp
  have ids: "map of_nat [k..<k + length (bs # bss)] @ ids =
      of_nat k # map of_nat [Suc k..<Suc k + length bss] @ ids"
    by (simp add: upt_conv_Cons del: upt_Suc)
  have rest: "\<forall>i < length bss. fmlookup (dData d) (segmentPath (of_nat (Suc k + i))) = Some (segBytes cx (bss ! i))"
    using Cons.prems(1) by (metis Suc_less_eq add_Suc_shift length_Cons nth_Cons_Suc)
  show ?case
    unfolding ids using Cons.IH [OF rest] Cons.prems(2)
    by (simp add: recoverSegment_def cont loop)
qed simp

lemma fold_max_segIds: "n < 2 ^ 64 \<Longrightarrow> fold max (segIds n) 0 = of_nat n"
proof (induction n)
  case (Suc n)
  then have "max (of_nat (Suc n)) (of_nat n :: u64) = of_nat (Suc n)"
    by (intro max_absorb1 less_imp_le) (simp add: of_nat_less_u64 del: of_nat_Suc)
  moreover have "segIds (Suc n) = segIds n @ [of_nat (Suc n)]"
    by (simp add: segIds_def)
  ultimately show ?case using Suc by (simp del: of_nat_Suc)
qed (simp add: segIds_def)

text \<open>The in-memory struct that goes with a disk of segments.\<close>

definition files_rep :: "codec \<Rightarrow> disk \<Rightarrow> Files \<Rightarrow> Block list list \<Rightarrow> bool" where
  "files_rep cx d f bss \<longleftrightarrow>
     disk_holds cx d bss \<and> bss \<noteq> [] \<and> fSegmentSize f = defaultSegmentSize \<and>
     fActiveID f = of_nat (length bss) \<and> fActive f = OpenFile (of_nat (length bss)) \<and>
     fActiveSize f = length (segBytes cx (last bss)) \<and> fIndex f = diskIndex cx 1 bss fmempty"

lemma diskIndex_append:
  "diskIndex cx k (bss @ css) idx = diskIndex cx (k + length bss) css (diskIndex cx k bss idx)"
  by (induction bss arbitrary: k idx) simp_all

lemma segIndex_append:
  "segIndex cx sid off (bs @ cs) idx = segIndex cx sid (off + length (segBytes cx bs)) cs (segIndex cx sid off bs idx)"
  by (induction bs arbitrary: off idx) (simp_all add: add.assoc)

lemma recoverSegments_holds:
  assumes "codec_laws cx" and h: "disk_holds cx d bss" and "fIndex f = fmempty" and "fActiveID f = 0"
  shows "recoverSegments healthy cx d f =
    (Inr (f\<lparr>fIndex := diskIndex cx 1 bss fmempty, fActiveID := of_nat (length bss)\<rparr>), d)"
proof -
  have "recoverAll healthy cx (segIds (length bss)) d fmempty = (Inr (diskIndex cx 1 bss fmempty), d)"
    using recoverAll_holds [OF assms(1), of bss d 1 "[]" fmempty] h
    by (simp add: disk_holds_def segIds_def del: upt_Suc)
  then show ?thesis
    using h fold_max_segIds [of "length bss"]
    by (simp add: recoverSegments_def segmentIds_holds [OF h] assms disk_holds_def)
qed

lemma disk_holds_last:
  "disk_holds cx d bss \<Longrightarrow> bss \<noteq> [] \<Longrightarrow>
   fmlookup (dData d) (segmentPath (of_nat (length bss))) = Some (segBytes cx (last bss))"
  by (cases bss rule: rev_cases) (auto simp: disk_holds_def nth_append simp del: of_nat_Suc)

lemma Storage_Open_recovers_lemma:
  assumes "codec_laws cx" and h: "disk_holds cx d bss" and "\<not> dLock d"
  shows "\<exists>f d'. Storage_Open healthy cx d = (Inr f, d') \<and>
    files_rep cx d' f (if bss = [] then [[]] else bss) \<and> dLock d' \<and> dWal d' = dWal d \<and> dSnapshots d' = dSnapshots d"
proof -
  let ?d = "d\<lparr>dLock := True\<rparr>"
  let ?f = "\<lparr>fSegmentSize = defaultSegmentSize, fActiveID = 0, fActive = NoFile, fActiveSize = 0, fIndex = fmempty\<rparr>"
  have h': "disk_holds cx ?d bss" using h by (simp add: disk_holds_def)
  note rec = recoverSegments_holds [OF assms(1) h', of ?f, simplified]
  show ?thesis
  proof (cases "bss = []")
    case True
    then have "fmdom' (dData d) = {}" using h by (simp add: disk_holds_def segIds_def)
    then have none: "fmlookup (dData d) (segmentPath 1) = None" by (auto simp: fmlookup_dom'_iff)
    from True rec assms(3) none show ?thesis
      using \<open>fmdom' (dData d) = {}\<close>
      by (simp add: Storage_Open_def openActive_def files_rep_def Let_def disk_holds_def segIds_def)
  next
    case False
    have nz: "(of_nat (length bss) :: u64) \<noteq> 0"
      using h False of_nat_eq_u64 [of "length bss" 0] by (simp add: disk_holds_def)
    note last = disk_holds_last [OF h False]
    then have "dataFile ?d (of_nat (length bss)) = segBytes cx (last bss)"
      by (simp add: dataFile_def)
    with False rec assms(3) nz last h' show ?thesis
      by (simp add: Storage_Open_def openActive_def files_rep_def Let_def)
  qed
qed

subsection \<open>Appending\<close>

text \<open>The abstract append: into the last segment while the record fits, else a new segment.\<close>

definition appendTo :: "codec \<Rightarrow> Block list list \<Rightarrow> Block \<Rightarrow> Block list list" where
  "appendTo cx bss b =
     (if length (segBytes cx (last bss)) + length (blockFrame cx b) \<le> defaultSegmentSize
      then butlast bss @ [last bss @ [b]] else bss @ [[b]])"

lemma concat_appendTo: "bss \<noteq> [] \<Longrightarrow> concat (appendTo cx bss b) = concat bss @ [b]"
  by (cases bss rule: rev_cases) (simp_all add: appendTo_def)

lemma length_appendTo: "bss \<noteq> [] \<Longrightarrow> length (appendTo cx bss b) \<le> Suc (length bss)"
  by (cases bss rule: rev_cases) (simp_all add: appendTo_def)

lemma disk_holds_snoc_segment:
  assumes "disk_holds cx d bss" and "Suc (length bss) < 2 ^ 64" and "\<forall>b \<in> set bs. storable cx b"
  shows "disk_holds cx (setData (of_nat (Suc (length bss))) (segBytes cx bs) d) (bss @ [bs])"
proof -
  have ne: "(of_nat (Suc i) :: u64) \<noteq> of_nat (Suc (length bss))" if "i < length bss" for i
    using that assms(2) by (simp add: of_nat_eq_u64 del: of_nat_Suc)
  show ?thesis
    using assms ne by (auto simp: disk_holds_def segIds_def nth_append less_Suc_eq simp del: of_nat_Suc)
qed

lemma disk_holds_grow:
  assumes "disk_holds cx d (bss @ [bs])" and "storable cx b"
  shows "disk_holds cx (setData (of_nat (Suc (length bss))) (segBytes cx bs @ blockFrame cx b) d) (bss @ [bs @ [b]])"
proof -
  have ne: "(of_nat (Suc i) :: u64) \<noteq> of_nat (Suc (length bss))" if "i < length bss" for i
    using that assms(1) by (simp add: disk_holds_def of_nat_eq_u64 del: of_nat_Suc)
  show ?thesis
    using assms ne by (auto simp: disk_holds_def segIds_def nth_append less_Suc_eq simp del: of_nat_Suc)
qed

lemma diskIndex_grow:
  "diskIndex cx k (bss @ [bs @ [b]]) idx =
     fmupd (hHeight (bHeader b)) \<lparr>locSegment = of_nat (k + length bss), locOffset = length (segBytes cx bs),
        locLength = of_nat (length (blockFrame cx b))\<rparr> (diskIndex cx k (bss @ [bs]) idx)"
  by (simp add: diskIndex_append segIndex_append)

lemma AppendBlock_size:
  assumes "fst (AppendBlock env cx b d f) = Inr ()"
  obtains p where "gobEncode cx b = Some p" "blockFrame cx b = frame cx p"
    "length (blockFrame cx b) \<le> fSegmentSize f"
  using assms
  by (auto simp: AppendBlock_def Let_def blockFrame_def not_less split: option.splits if_splits)

lemma max_eq_default: "maxRecordSize = defaultSegmentSize"
  by (simp add: maxRecordSize_def defaultSegmentSize_def)

lemma AppendBlock_refines_lemma:
  assumes rep: "files_rep cx d f bss" and bound: "Suc (length bss) < 2 ^ 64"
    and ok: "AppendBlock env cx b d f = (Inr (), d', f')"
  shows "files_rep cx d' f' (appendTo cx bss b) \<and> dWal d' = dWal d \<and> dLock d' = dLock d \<and>
    dSnapshots d' = dSnapshots d"
proof -
  obtain p where p: "gobEncode cx b = Some p" "blockFrame cx b = frame cx p"
      "length (blockFrame cx b) \<le> defaultSegmentSize"
    using AppendBlock_size [of env cx b d f] ok rep by (auto simp: files_rep_def)
  then have st: "storable cx b"
    by (auto simp: storable_def max_eq_default)
  from rep obtain css bs where bss: "bss = css @ [bs]"
    by (cases bss rule: rev_cases) (auto simp: files_rep_def)
  let ?n = "Suc (length css)"
  have f: "fActiveID f = of_nat ?n" "fActive f = OpenFile (of_nat ?n)" "fActiveSize f = length (segBytes cx bs)"
     "fSegmentSize f = defaultSegmentSize" "fIndex f = diskIndex cx 1 bss fmempty" and h: "disk_holds cx d bss"
    using rep by (simp_all add: files_rep_def bss)
  have content: "dataFile d (of_nat ?n) = segBytes cx bs"
    using disk_holds_last [OF h] by (simp add: dataFile_def bss)
  show ?thesis
  proof (cases "length (segBytes cx bs) + length (blockFrame cx b) \<le> defaultSegmentSize")
    case True
    then have a: "appendTo cx bss b = css @ [bs @ [b]]" by (simp add: appendTo_def bss)
    have "d' = setData (of_nat ?n) (segBytes cx bs @ blockFrame cx b) d \<and>
      f' = f\<lparr>fActiveSize := length (segBytes cx (bs @ [b])),
             fIndex := diskIndex cx 1 (css @ [bs @ [b]]) fmempty\<rparr>"
      using ok True p f content
      by (auto simp: AppendBlock_def Let_def diskIndex_grow bss not_less split: if_splits)
    then show ?thesis
      unfolding a using disk_holds_grow [of cx d css bs b] h st f
      by (simp add: files_rep_def bss)
  next
    case False
    then have a: "appendTo cx bss b = bss @ [[b]]" by (simp add: appendTo_def bss)
    let ?m = "of_nat (Suc (length bss)) :: u64"
    have m: "?m = of_nat ?n + 1" "?m \<noteq> 0"
      using bound of_nat_eq_u64 [of "Suc (length bss)" 0] by (simp_all add: bss del: of_nat_Suc) simp
    have "segmentPath ?m \<notin> fmdom' (dData d)"
      using h bound by (auto simp: disk_holds_def segIds_def of_nat_eq_u64 simp del: of_nat_Suc upt_Suc)
    then have fresh: "fmlookup (dData d) (segmentPath ?m) = None"
      by (simp add: fmdom'_notD)
    have "d' = setData ?m (blockFrame cx b) (setData ?m [] d) \<and>
      f' = f\<lparr>fActiveID := ?m, fActive := OpenFile ?m, fActiveSize := length (blockFrame cx b),
             fIndex := diskIndex cx 1 (bss @ [[b]]) fmempty\<rparr>"
      using ok False p f fresh m
      by (auto simp: AppendBlock_def rotate_def openActive_def Let_def diskIndex_append not_less
          split: if_splits)
    moreover have "setData ?m (blockFrame cx b) (setData ?m [] d) = setData ?m (segBytes cx [b]) d"
      by (simp add: setData_def)
    ultimately show ?thesis
      using disk_holds_snoc_segment [of cx d bss "[b]"] h st bound f
      by (simp add: a files_rep_def del: of_nat_Suc)
  qed
qed

subsection \<open>Where the index points\<close>

lemma segIndex_lookup:
  "fmlookup (segIndex cx sid off bs idx) h = Some loc \<Longrightarrow>
   fmlookup idx h = Some loc \<or>
   (\<exists>pre b post. bs = pre @ b # post \<and> hHeight (bHeader b) = h \<and> locSegment loc = sid \<and>
      locOffset loc = off + length (segBytes cx pre))"
proof (induction bs arbitrary: off idx)
  case (Cons c bs)
  from Cons.IH [OF Cons.prems [simplified]] show ?case
  proof
    assume "fmlookup (fmupd (hHeight (bHeader c)) \<lparr>locSegment = sid, locOffset = off,
        locLength = of_nat (length (blockFrame cx c))\<rparr> idx) h = Some loc"
    then show ?thesis
      by (auto split: if_splits intro: exI [of _ "[]"])
  next
    assume "\<exists>pre b post. bs = pre @ b # post \<and> hHeight (bHeader b) = h \<and> locSegment loc = sid \<and>
        locOffset loc = off + length (blockFrame cx c) + length (segBytes cx pre)"
    then obtain pre b post where "bs = pre @ b # post" "hHeight (bHeader b) = h"
      "locSegment loc = sid" "locOffset loc = off + length (blockFrame cx c) + length (segBytes cx pre)"
      by blast
    then show ?thesis
      by (intro disjI2 exI [of _ "c # pre"] exI [of _ b] exI [of _ post]) simp
  qed
qed simp

lemma diskIndex_lookup:
  "fmlookup (diskIndex cx k bss idx) h = Some loc \<Longrightarrow>
   fmlookup idx h = Some loc \<or>
   (\<exists>i pre b post. i < length bss \<and> bss ! i = pre @ b # post \<and> hHeight (bHeader b) = h \<and>
      locSegment loc = of_nat (k + i) \<and> locOffset loc = length (segBytes cx pre))"
proof (induction bss arbitrary: k idx)
  case (Cons bs bss)
  from Cons.IH [OF Cons.prems [simplified]] show ?case
  proof
    assume "fmlookup (segIndex cx (of_nat k) 0 bs idx) h = Some loc"
    from segIndex_lookup [OF this] show ?thesis
    proof
      assume "\<exists>pre b post. bs = pre @ b # post \<and> hHeight (bHeader b) = h \<and>
        locSegment loc = of_nat k \<and> locOffset loc = 0 + length (segBytes cx pre)"
      then obtain pre b post where "bs = pre @ b # post" "hHeight (bHeader b) = h"
        "locSegment loc = of_nat k" "locOffset loc = length (segBytes cx pre)" by auto
      then show ?thesis
        by (intro disjI2 exI [of _ 0] exI [of _ pre] exI [of _ b] exI [of _ post]) simp
    qed simp
  next
    assume "\<exists>i pre b post. i < length bss \<and> bss ! i = pre @ b # post \<and> hHeight (bHeader b) = h \<and>
      locSegment loc = of_nat (Suc k + i) \<and> locOffset loc = length (segBytes cx pre)"
    then obtain i pre b post where "i < length bss" "bss ! i = pre @ b # post" "hHeight (bHeader b) = h"
      "locSegment loc = of_nat (Suc k + i)" "locOffset loc = length (segBytes cx pre)" by blast
    then show ?thesis
      by (intro disjI2 exI [of _ "Suc i"] exI [of _ pre] exI [of _ b] exI [of _ post]) simp
  qed
qed simp

lemma fmdom'_segIndex [simp]:
  "fmdom' (segIndex cx sid off bs idx) = fmdom' idx \<union> (\<lambda>b. hHeight (bHeader b)) ` set bs"
  by (induction bs arbitrary: off idx) auto

lemma fmdom'_diskIndex [simp]:
  "fmdom' (diskIndex cx k bss idx) = fmdom' idx \<union> (\<lambda>b. hHeight (bHeader b)) ` set (concat bss)"
  by (induction bss arbitrary: k idx) auto

lemma ReadBlock_rep:
  assumes cx: "codec_laws cx" and rep: "files_rep cx d f bss"
    and b: "b \<in> set (concat bss)" and uniq: "inj_on (\<lambda>b. hHeight (bHeader b)) (set (concat bss))"
  shows "ReadBlock healthy cx d f (hHeight (bHeader b)) = Inr (gobBlock b)"
proof -
  let ?h = "hHeight (bHeader b)"
  have idx: "fIndex f = diskIndex cx 1 bss fmempty" and h: "disk_holds cx d bss"
    using rep by (simp_all add: files_rep_def)
  have "?h \<in> fmdom' (fIndex f)" using b by (auto simp: idx)
  then obtain loc where loc: "fmlookup (fIndex f) ?h = Some loc" by (auto simp: fmlookup_dom'_iff)
  from diskIndex_lookup [OF loc [unfolded idx]]
  obtain i pre c post where i: "i < length bss" "bss ! i = pre @ c # post" "hHeight (bHeader c) = ?h"
    "locSegment loc = of_nat (Suc i)" "locOffset loc = length (segBytes cx pre)"
    by auto
  have "c \<in> set (concat bss)" using i(1,2) nth_mem [OF i(1)] by (auto intro!: bexI [of _ "bss ! i"])
  with uniq b i(3) have "c = b" by (auto dest: inj_onD)
  have "storable cx b" using h b by (auto simp: disk_holds_def)
  with cx obtain p where p:
    "readFrame cx (blockFrame cx b @ segBytes cx post) = (Inr p, length (blockFrame cx b))"
    "gobDecode cx p = Some (gobBlock b)"
    by (rule readFrame_blockFrame)
  have "fmlookup (dData d) (segmentPath (locSegment loc)) = Some (segBytes cx (bss ! i))"
    using h i by (simp add: disk_holds_def)
  with loc p i \<open>c = b\<close> show ?thesis
    by (simp add: ReadBlock_def)
qed

text \<open>Block heights 1, 2, 3, ... as the chain has them.\<close>

definition numbered :: "Block list \<Rightarrow> bool" where
  "numbered bs \<longleftrightarrow> length bs < 2 ^ 64 \<and> map (\<lambda>b. hHeight (bHeader b)) bs = map of_nat [1..<Suc (length bs)]"

lemma numbered_heights: "numbered bs \<Longrightarrow> map (\<lambda>b. hHeight (bHeader b)) bs = segIds (length bs)"
  by (simp add: numbered_def segIds_def)

lemma numbered_inj: "numbered bs \<Longrightarrow> inj_on (\<lambda>b. hHeight (bHeader b)) (set bs)"
proof -
  assume n: "numbered bs"
  have "distinct (segIds (length bs))"
    using sorted_segIds [of "length bs"] n by (simp add: numbered_def strict_sorted_iff)
  then show ?thesis
    unfolding numbered_heights [OF n, symmetric] by (simp add: distinct_map)
qed

lemma readHeights_map:
  "(\<forall>b \<in> set bs. ReadBlock env cx d f (hHeight (bHeader b)) = Inr (gobBlock b)) \<Longrightarrow>
   readHeights env cx d f (map (\<lambda>b. hHeight (bHeader b)) bs) = Inr (map gobBlock bs)"
  by (induction bs) simp_all

lemma ReadAll_rep:
  assumes cx: "codec_laws cx" and rep: "files_rep cx d f bss" and n: "numbered (concat bss)"
  shows "ReadAll healthy cx d f = Inr (map gobBlock (concat bss))"
proof -
  let ?hs = "sorted_list_of_fset (fmdom (fIndex f))"
  have "set ?hs = set (segIds (length (concat bss)))"
    using rep by (simp add: files_rep_def fmdom'_alt_def [symmetric] numbered_heights [OF n, symmetric] del: set_concat)
  moreover have "sorted (segIds (length (concat bss)))" "distinct (segIds (length (concat bss)))"
    using sorted_segIds [of "length (concat bss)"] n by (simp_all add: numbered_def strict_sorted_iff)
  ultimately have "?hs = segIds (length (concat bss))"
    by (metis sorted_distinct_set_unique sorted_list_of_fset.rep_eq sorted_list_of_set.sorted_sorted_key_list_of_set sorted_list_of_set.distinct_sorted_key_list_of_set)
  also have "\<dots> = map (\<lambda>b. hHeight (bHeader b)) (concat bss)"
    by (simp only: numbered_heights [OF n])
  finally show ?thesis
    using ReadBlock_rep [OF cx rep _ numbered_inj [OF n]]
    by (simp only: ReadAll_def) (rule readHeights_map, blast)
qed

lemma setData_setData [simp]: "setData n c (setData n c' d) = setData n c d"
  by (simp add: setData_def)

lemma setData_same: "fmlookup (dData d) (segmentPath n) = Some c \<Longrightarrow> setData n c d = d"
  by (cases d) (auto simp: setData_def intro!: fmap_ext)

lemma setData_lock [simp]: "setData n c (d\<lparr>dLock := l\<rparr>) = (setData n c d)\<lparr>dLock := l\<rparr>"
  by (simp add: setData_def)

lemma dataFile_lock [simp]: "dataFile (d\<lparr>dLock := l\<rparr>) n = dataFile d n"
  by (simp add: dataFile_def)

lemma disk_holds_lock [simp]: "disk_holds cx (d\<lparr>dLock := l\<rparr>) bss = disk_holds cx d bss"
  by (simp add: disk_holds_def)

subsection \<open>Records cut short\<close>

text \<open>Opening a directory whose last segment has something after its records.\<close>

lemma Storage_Open_tail:
  fixes cx css bs
  defines "sid \<equiv> of_nat (Suc (length css))" and "off \<equiv> length (segBytes cx bs)"
  assumes cx: "codec_laws cx" and h: "disk_holds cx d (css @ [bs])" and lock: "\<not> dLock d"
    and tail: "\<And>idx. recoverLoop cx sid off tail idx = Inr (idx, if t then Some off else None)"
  shows "Storage_Open healthy cx (setData sid (segBytes cx bs @ tail) d) =
    (Inr \<lparr>fSegmentSize = defaultSegmentSize, fActiveID = sid, fActive = OpenFile sid,
          fActiveSize = off + (if t then 0 else length tail),
          fIndex = diskIndex cx 1 (css @ [bs]) fmempty\<rparr>,
     (if t then d else setData sid (segBytes cx bs @ tail) d)\<lparr>dLock := True\<rparr>)"
proof -
  let ?d0 = "setData sid (segBytes cx bs @ tail) d"
  let ?n = "Suc (length css)"
  have n: "?n < 2 ^ 64" and st: "\<forall>b \<in> set (concat (css @ [bs])). storable cx b"
    using h by (simp_all add: disk_holds_def)
  have sid: "fmlookup (dData d) (segmentPath sid) = Some (segBytes cx bs)"
    using disk_holds_last [OF h] by (simp add: sid_def)
  have others: "fmlookup (dData ?d0) (segmentPath (of_nat (1 + i))) = Some (segBytes cx (css ! i))"
    if "i < length css" for i
  proof -
    have "(of_nat (Suc i) :: u64) \<noteq> sid"
      using that n by (simp add: sid_def of_nat_eq_u64 del: of_nat_Suc)
    moreover have "fmlookup (dData d) (segmentPath (of_nat (Suc i))) = Some (segBytes cx ((css @ [bs]) ! i))"
      using h that unfolding disk_holds_def by (metis length_append_singleton less_SucI)
    ultimately show ?thesis using that by (simp add: nth_append del: of_nat_Suc)
  qed
  have fin: "finite (fmdom' (dData d))" by simp
  have dom: "fmdom (dData ?d0) = fmdom (dData d)"
    using sid by (auto simp: setData_def fmdom_notD intro: finsert_absorb fmdomI)
  define L where "L = map of_nat [1..<1 + length css] @ [sid]"
  have ids: "segmentIds (?d0\<lparr>dLock := True\<rparr>) = L"
  proof -
    have "segmentIds (?d0\<lparr>dLock := True\<rparr>) = segmentIds d"
      by (simp add: segmentIds_def dom)
    also have "\<dots> = segIds ?n" using segmentIds_holds [OF h] by simp
    finally show ?thesis by (simp add: L_def segIds_def sid_def)
  qed
  have loop: "recoverLoop cx sid 0 (segBytes cx bs @ tail) idx
      = Inr (segIndex cx sid 0 bs idx, if t then Some off else None)" for idx
    using recoverLoop_segBytes [OF cx, of bs sid 0 tail idx] st tail by (simp add: off_def)
  have rest: "recoverAll healthy cx [sid] (?d0\<lparr>dLock := True\<rparr>) (diskIndex cx 1 css fmempty) =
      (Inr (diskIndex cx 1 (css @ [bs]) fmempty), (if t then d else ?d0)\<lparr>dLock := True\<rparr>)"
    using setData_same [OF sid]
    by (simp add: recoverSegment_def loop off_def diskIndex_append) (simp add: sid_def)
  have all: "recoverAll healthy cx L (?d0\<lparr>dLock := True\<rparr>) fmempty =
      (Inr (diskIndex cx 1 (css @ [bs]) fmempty), (if t then d else ?d0)\<lparr>dLock := True\<rparr>)"
    using recoverAll_holds [OF cx, of css "?d0\<lparr>dLock := True\<rparr>" 1 "[sid]" fmempty] others st rest
    by (simp add: L_def del: of_nat_Suc upt_Suc)
  have mx: "fold max L 0 = sid"
    using fold_max_segIds [OF n] by (simp add: L_def segIds_def sid_def)
  have nz: "sid \<noteq> 0" using n of_nat_eq_u64 [of ?n 0] by (simp add: sid_def del: of_nat_Suc)
  have "dataFile d sid = segBytes cx bs" by (simp add: dataFile_def sid)
  then show ?thesis
    using lock nz sid
    by (simp add: Storage_Open_def recoverSegments_def ids all mx openActive_def Let_def off_def)
qed

lemma Storage_Open_repairs_torn_tail_lemma:
  assumes cx: "codec_laws cx" and h: "disk_holds cx d (css @ [bs])" and lock: "\<not> dLock d"
    and b: "storable cx b" and n: "n < length (blockFrame cx b)" "n \<noteq> 16"
  defines "sid \<equiv> of_nat (Suc (length css))"
  shows "\<exists>f d'. Storage_Open healthy cx (setData sid (segBytes cx bs @ take n (blockFrame cx b)) d) = (Inr f, d') \<and>
    files_rep cx d' f (css @ [bs]) \<and> dLock d' \<and> dWal d' = dWal d"
proof -
  let ?tail = "take n (blockFrame cx b)"
  have "recoverLoop cx (of_nat (Suc (length css))) (length (segBytes cx bs)) ?tail idx =
      Inr (idx, if n \<noteq> 0 then Some (length (segBytes cx bs)) else None)" for idx
    using recoverLoop_torn [OF b cx n(1)] n(2) by simp
  note op = Storage_Open_tail [OF cx h lock this]
  have last: "fmlookup (dData d) (segmentPath sid) = Some (segBytes cx bs)"
    using disk_holds_last [OF h] by (simp add: sid_def)
  show ?thesis
    using op h setData_same [OF last]
    by (cases "n = 0") (simp_all add: sid_def files_rep_def)
qed

lemma readFrame_after_stray_header:
  assumes cx: "codec_laws cx" and b: "gobEncode cx b = Some p" "length (frameBody cx p) \<le> maxRecordSize"
    and "rest \<noteq> []"
    and nocrc: "length rest < length (frameBody cx p) \<or> crc32c (take (length (frameBody cx p)) rest) \<noteq> crc32c (frameBody cx p)"
  shows "\<exists>e. fst (readFrame cx (take 16 (blockFrame cx b) @ rest)) = Inl e \<and> e \<noteq> EOF"
proof -
  let ?body = "frameBody cx p"
  have "0 < length ?body"
    using frameBody_not_Nil [OF cx] codec_lawsD(1) [OF cx b(1)] by simp
  moreover have "unat (of_nat (length ?body) :: u32) = length ?body"
    using b(2) by (simp add: unat_of_nat maxRecordSize_def)
  moreover have "take 16 (blockFrame cx b) = frameHeader (length ?body) (crc32c ?body)
      (if length ?body = length p then 1 else 2)"
    by (simp add: blockFrame_def b frame_def Let_def)
  ultimately show ?thesis
    using assms by (auto simp: readFrame_def ReadFull_def Let_def)
qed

lemma stray_header_loses_next_block_lemma:
  assumes cx: "codec_laws cx" and h: "disk_holds cx d (css @ [bs])" and lock: "\<not> dLock d"
    and b: "gobEncode cx b = Some p" "length (frameBody cx p) \<le> maxRecordSize"
    and c: "gobEncode cx c = Some q" 
    and room: "length (segBytes cx bs) + 16 + length (blockFrame cx c) \<le> defaultSegmentSize"
    and nocrc: "length (blockFrame cx c) < length (frameBody cx p) \<or>
       crc32c (take (length (frameBody cx p)) (blockFrame cx c)) \<noteq> crc32c (frameBody cx p)"
  defines "sid \<equiv> of_nat (Suc (length css))"
  shows "\<exists>f1 d1 f2 d2 d3 f4 d4.
    Storage_Open healthy cx (setData sid (segBytes cx bs @ take 16 (blockFrame cx b)) d) = (Inr f1, d1) \<and>
    AppendBlock healthy cx c d1 f1 = (Inr (), d2, f2) \<and>
    ReadBlock healthy cx d2 f2 (hHeight (bHeader c)) = Inr (gobBlock c) \<and>
    fst (snd (Storage_Close healthy d2 f2)) = d3 \<and>
    Storage_Open healthy cx d3 = (Inr f4, d4) \<and> files_rep cx d4 f4 (css @ [bs])"
proof -
  let ?hd = "take 16 (blockFrame cx b)" and ?off = "length (segBytes cx bs)"
  have stb: "storable cx b" using b by (auto simp: storable_def)
  have pos: "0 < length (frameBody cx p)"
    using frameBody_not_Nil [OF cx] codec_lawsD(1) [OF cx b(1)] by simp
  have frb: "blockFrame cx b = frame cx p" and frc: "blockFrame cx c = frame cx q"
    by (simp_all add: blockFrame_def b c)
  have len: "length ?hd = 16" by (simp add: frb)
  have stc: "storable cx c"
    using c room by (auto simp: storable_def max_eq_default frc)
  have last: "fmlookup (dData d) (segmentPath sid) = Some (segBytes cx bs)"
    using disk_holds_last [OF h] by (simp add: sid_def)
  have "recoverLoop cx sid ?off ?hd idx = Inr (idx, if False then Some ?off else None)" for idx
    using recoverLoop_torn [OF stb cx, of 16 sid ?off idx] pos by (simp add: frb)
  note o1 = Storage_Open_tail [OF cx h lock this [unfolded sid_def], folded sid_def]
  let ?f1 = "\<lparr>fSegmentSize = defaultSegmentSize, fActiveID = sid, fActive = OpenFile sid,
     fActiveSize = ?off + 16, fIndex = diskIndex cx (Suc 0) (css @ [bs]) fmempty\<rparr>"
  let ?d1 = "(setData sid (segBytes cx bs @ ?hd) d)\<lparr>dLock := True\<rparr>"
  have o1': "Storage_Open healthy cx (setData sid (segBytes cx bs @ ?hd) d) = (Inr ?f1, ?d1)"
    using o1 len by simp
  let ?d2 = "(setData sid (segBytes cx bs @ ?hd @ blockFrame cx c) d)\<lparr>dLock := True\<rparr>"
  let ?f2 = "?f1\<lparr>fActiveSize := ?off + 16 + length (blockFrame cx c), fIndex := fmupd (hHeight (bHeader c))
     \<lparr>locSegment = sid, locOffset = ?off + 16, locLength = of_nat (length (blockFrame cx c))\<rparr>
     (diskIndex cx (Suc 0) (css @ [bs]) fmempty)\<rparr>"
  have o2: "AppendBlock healthy cx c ?d1 ?f1 = (Inr (), ?d2, ?f2)"
    using room len c frc by (simp add: AppendBlock_def Let_def not_less)
  from cx stc obtain q' where q': "readFrame cx (blockFrame cx c @ []) = (Inr q', length (blockFrame cx c))"
      "gobDecode cx q' = Some (gobBlock c)"
    by (rule readFrame_blockFrame)
  have o3: "ReadBlock healthy cx ?d2 ?f2 (hHeight (bHeader c)) = Inr (gobBlock c)"
    using q' len by (simp add: ReadBlock_def)
  let ?d3 = "?d2\<lparr>dLock := False\<rparr>"
  have o4: "fst (snd (Storage_Close healthy ?d2 ?f2)) = ?d3"
    by (simp add: Storage_Close_def Let_def)
  have d3: "?d3 = setData sid (segBytes cx bs @ ?hd @ blockFrame cx c) d"
    using lock by (cases d) (simp add: setData_def)
  have "blockFrame cx c \<noteq> []" by (metis frc length_frame list.size(3) add_is_0 zero_neq_numeral)
  then have "recoverLoop cx sid ?off (?hd @ blockFrame cx c) idx = Inr (idx, if True then Some ?off else None)" for idx
    using readFrame_after_stray_header [OF cx b, of "blockFrame cx c"] nocrc
    by (subst recoverLoop.simps) (auto split: prod.splits sum.splits)
  note o5 = Storage_Open_tail [OF cx h lock this [unfolded sid_def], folded sid_def, simplified]
  have o5': "Storage_Open healthy cx ?d3 = (Inr \<lparr>fSegmentSize = defaultSegmentSize, fActiveID = sid, fActive = OpenFile sid,
     fActiveSize = ?off, fIndex = diskIndex cx (Suc 0) (css @ [bs]) fmempty\<rparr>, d\<lparr>dLock := True\<rparr>)"
    unfolding d3 by (rule o5)
  have o6: "files_rep cx (d\<lparr>dLock := True\<rparr>) \<lparr>fSegmentSize = defaultSegmentSize, fActiveID = sid, fActive = OpenFile sid,
     fActiveSize = ?off, fIndex = diskIndex cx (Suc 0) (css @ [bs]) fmempty\<rparr> (css @ [bs])"
    using h by (simp add: files_rep_def sid_def)
  from o1' o2 o3 o4 o5' o6 show ?thesis by blast
qed

text \<open>
  A process that goes on after a failed write to the segment: its next block is appended behind the
  torn record, reported as stored, and cut off with it at the next opening.
\<close>

lemma append_behind_torn_lost:
  assumes cx: "codec_laws cx" and rep: "files_rep cx d f (css @ [bs])" and lock: "dLock d"
    and b: "gobEncode cx b = Some p" "length (frameBody cx p) \<le> maxRecordSize" and c: "gobEncode cx c = Some q"
    and n: "16 < n" "n < length (blockFrame cx b)"
    and room: "length (segBytes cx bs) + length (blockFrame cx c) \<le> defaultSegmentSize"
    and nocrc: "let rest = drop 16 (take n (blockFrame cx b)) @ blockFrame cx c in
      length rest < length (frameBody cx p) \<or> crc32c (take (length (frameBody cx p)) rest) \<noteq> crc32c (frameBody cx p)"
  defines "sid \<equiv> of_nat (Suc (length css))"
  shows "\<exists>d2 f2. AppendBlock healthy cx c (setData sid (segBytes cx bs @ take n (blockFrame cx b)) d) f = (Inr (), d2, f2) \<and>
    fActive f2 = OpenFile sid \<and> dLock d2 \<and> dWal d2 = dWal d \<and>
    (\<forall>w. \<exists>f4 d4. Storage_Open healthy cx (d2\<lparr>dLock := False, dWal := w\<rparr>) = (Inr f4, d4) \<and>
       files_rep cx d4 f4 (css @ [bs]) \<and> dLock d4 \<and> dWal d4 = w)"
proof -
  let ?hd = "take 16 (blockFrame cx b)" and ?rest = "drop 16 (take n (blockFrame cx b)) @ blockFrame cx c"
  let ?off = "length (segBytes cx bs)" and ?fr = "blockFrame cx c"
  have frc: "?fr = frame cx q" by (simp add: blockFrame_def c)
  have "take n (blockFrame cx b) = ?hd @ drop 16 (take n (blockFrame cx b))"
    using n(1) by (metis append_take_drop_id less_imp_le take_take min.absorb1)
  then have torn: "take n (blockFrame cx b) @ ?fr = ?hd @ ?rest" by simp
  let ?d2 = "setData sid (segBytes cx bs @ ?hd @ ?rest) d"
  have f: "fSegmentSize f = defaultSegmentSize" "fActive f = OpenFile sid" "fActiveSize f = ?off"
    using rep by (simp_all add: files_rep_def sid_def)
  have "\<exists>f2. AppendBlock healthy cx c (setData sid (segBytes cx bs @ take n (blockFrame cx b)) d) f = (Inr (), ?d2, f2) \<and>
      fActive f2 = OpenFile sid"
    using room by (simp add: AppendBlock_def c frc [symmetric] f Let_def not_less torn)
  then obtain f2 where a: "AppendBlock healthy cx c (setData sid (segBytes cx bs @ take n (blockFrame cx b)) d) f =
      (Inr (), ?d2, f2)" "fActive f2 = OpenFile sid" by blast
  have "\<exists>f4 d4. Storage_Open healthy cx (?d2\<lparr>dLock := False, dWal := w\<rparr>) = (Inr f4, d4) \<and>
      files_rep cx d4 f4 (css @ [bs]) \<and> dLock d4 \<and> dWal d4 = w" for w
  proof -
    let ?d = "d\<lparr>dLock := False, dWal := w\<rparr>"
    have h: "disk_holds cx ?d (css @ [bs])" "disk_holds cx (d\<lparr>dWal := w\<rparr>) (css @ [bs])" and lock: "\<not> dLock ?d"
      using rep by (simp_all add: files_rep_def disk_holds_def)
    have "?rest \<noteq> []" by (simp add: frc frame_def Let_def)
    then obtain e where "fst (readFrame cx (?hd @ ?rest)) = Inl e \<and> e \<noteq> EOF"
      using readFrame_after_stray_header [OF cx b _ nocrc [unfolded Let_def]] by blast
    then have "recoverLoop cx sid ?off (?hd @ ?rest) idx = Inr (idx, if True then Some ?off else None)" for idx
      by (subst recoverLoop.simps) (auto split: prod.splits sum.splits)
    note o = Storage_Open_tail [OF cx h(1) lock this [unfolded sid_def], folded sid_def, simplified]
    have "?d2\<lparr>dLock := False, dWal := w\<rparr> = setData sid (segBytes cx bs @ ?hd @ ?rest) ?d" by (simp add: setData_def)
    with o h show ?thesis by (simp add: files_rep_def sid_def)
  qed
  with a lock show ?thesis by (intro exI [of _ ?d2] exI [of _ f2]) (simp add: setData_def)
qed

end
