(* ===== verification/BlockLog.thy ===== *)
theory BlockLog
  imports StorageLog
begin

text \<open>
  The interface the engine and compaction use the storage layer through: a log of blocks that
  grows at its end (locale \<open>block_log\<close>) and that survives closing and opening the directory
  (locale \<open>durable_log\<close>). The laws are discharged for \<open>internal/storage/files.go\<close>, on top of the
  view of a directory that theory \<open>StorageLog\<close> proves. The properties of the storage layer are at
  the end, with witnesses over the table codec.
\<close>

subsection \<open>The interface\<close>

lemma numbered_prefix: "numbered (bs @ cs) \<Longrightarrow> numbered bs"
proof -
  assume n: "numbered (bs @ cs)"
  have "take (length bs) (segIds (length (bs @ cs))) = segIds (length bs)"
    by (simp add: segIds_def take_map del: upt_Suc)
  moreover have "take (length bs) (map (\<lambda>b. hHeight (bHeader b)) (bs @ cs)) = map (\<lambda>b. hHeight (bHeader b)) bs"
    by simp
  ultimately have "map (\<lambda>b. hHeight (bHeader b)) bs = segIds (length bs)"
    by (simp only: numbered_heights [OF n])
  with n show ?thesis by (simp add: numbered_def segIds_def)
qed

fun appendAll :: "(Block \<Rightarrow> 's \<Rightarrow> (error + unit) \<times> 's) \<Rightarrow> Block list \<Rightarrow> 's \<Rightarrow> (error + unit) \<times> 's" where
  "appendAll ap [] s = (Inr (), s)"
| "appendAll ap (b # bs) s =
     (case ap b s of
        (Inl e, s') \<Rightarrow> (Inl e, s')
      | (Inr _, s') \<Rightarrow> appendAll ap bs s')"

locale block_log =
  fixes rep :: "'d \<times> 'f \<Rightarrow> Block list \<Rightarrow> bool"
    and add :: "Block \<Rightarrow> 'd \<times> 'f \<Rightarrow> (error + unit) \<times> 'd \<times> 'f"
    and readAll :: "'d \<times> 'f \<Rightarrow> error + Block list"
  assumes rep_numbered: "rep s bs \<Longrightarrow> numbered bs"
    and append_rep: "rep s bs \<Longrightarrow> numbered (bs @ [b]) \<Longrightarrow> length bs + 2 < 2 ^ 64 \<Longrightarrow>
          add b s = (Inr (), s') \<Longrightarrow> rep s' (bs @ [b])"
    and readAll_rep: "rep s bs \<Longrightarrow> readAll s = Inr (map gobBlock bs)"
begin

lemma appendAll_rep:
  "rep s bs \<Longrightarrow> numbered (bs @ cs) \<Longrightarrow> length (bs @ cs) + 2 < 2 ^ 64 \<Longrightarrow>
   appendAll add cs s = (Inr (), s') \<Longrightarrow> rep s' (bs @ cs)"
proof (induction cs arbitrary: s bs)
  case (Cons c cs)
  from Cons.prems(4) obtain s1 where s1: "add c s = (Inr (), s1)" "appendAll add cs s1 = (Inr (), s')"
    by (auto split: prod.splits sum.splits)
  have "numbered (bs @ [c])"
    using Cons.prems(2) by (rule numbered_prefix [of "bs @ [c]" cs, simplified])
  with Cons.prems s1 have "rep s1 (bs @ [c])" by (intro append_rep) auto
  from Cons.IH [OF this _ _ s1(2)] Cons.prems show ?case by simp
qed simp

lemma appendAll_readAll:
  "rep s bs \<Longrightarrow> numbered (bs @ cs) \<Longrightarrow> length (bs @ cs) + 2 < 2 ^ 64 \<Longrightarrow>
   appendAll add cs s = (Inr (), s') \<Longrightarrow> readAll s' = Inr (map gobBlock (bs @ cs))"
  by (blast intro: readAll_rep appendAll_rep)

end

locale durable_log = block_log rep add readAll
  for rep :: "'d \<times> 'f \<Rightarrow> Block list \<Rightarrow> bool"
    and add :: "Block \<Rightarrow> 'd \<times> 'f \<Rightarrow> (error + unit) \<times> 'd \<times> 'f"
    and readAll :: "'d \<times> 'f \<Rightarrow> error + Block list" +
  fixes holds :: "'d \<Rightarrow> Block list \<Rightarrow> bool"
    and opens :: "'d \<Rightarrow> (error + 'f) \<times> 'd"
    and closes :: "'d \<times> 'f \<Rightarrow> (error + unit) \<times> 'd \<times> 'f"
  assumes opens_rep: "holds d bs \<Longrightarrow> \<exists>f d'. opens d = (Inr f, d') \<and> rep (d', f) bs"
    and closes_holds: "rep s bs \<Longrightarrow> closes s = (Inr (), d, f) \<Longrightarrow> holds d bs"
begin

lemma reopen_readAll:
  assumes "rep s bs" and "numbered (bs @ cs)" and "length (bs @ cs) + 2 < 2 ^ 64"
    and "appendAll add cs s = (Inr (), s')" and "closes s' = (Inr (), d, f)"
  shows "\<exists>f' d'. opens d = (Inr f', d') \<and> readAll (d', f') = Inr (map gobBlock (bs @ cs))"
proof -
  have "rep s' (bs @ cs)" using assms(1-4) by (rule appendAll_rep)
  then have "holds d (bs @ cs)" using assms(5) by (rule closes_holds)
  then show ?thesis using opens_rep readAll_rep by blast
qed

end

subsection \<open>The directory implements it\<close>

text \<open>Only the last segment may be empty: a segment is left only when a record did not fit.\<close>

definition tight :: "Block list list \<Rightarrow> bool" where
  "tight bss \<longleftrightarrow> [] \<notin> set (butlast bss)"

lemma length_le_concat: "[] \<notin> set css \<Longrightarrow> length css \<le> length (concat css)"
proof (induction css)
  case (Cons a css)
  then have "a \<noteq> []" "length css \<le> length (concat css)" by auto
  then show ?case by (cases a) simp_all
qed simp

lemma tight_length: "tight bss \<Longrightarrow> length bss \<le> Suc (length (concat bss))"
  using length_le_concat [of "butlast bss"] by (cases bss rule: rev_cases) (auto simp: tight_def)

lemma tight_snoc: "tight (css @ [bs]) \<longleftrightarrow> [] \<notin> set css"
  by (simp add: tight_def)

lemma tight_appendTo:
  assumes "tight bss" and "bss \<noteq> []" and "length (blockFrame cx b) \<le> defaultSegmentSize"
  shows "tight (appendTo cx bss b)"
proof -
  obtain css bs where "bss = css @ [bs]" using assms(2) by (cases bss rule: rev_cases) auto
  moreover have "butlast (css @ [bs, [b]]) = css @ [bs]" by (simp add: butlast_append)
  ultimately show ?thesis
    using assms by (cases "bs = []") (auto simp: appendTo_def tight_def)
qed

definition dir_holds :: "codec \<Rightarrow> disk \<Rightarrow> Block list \<Rightarrow> bool" where
  "dir_holds cx d bs \<longleftrightarrow> codec_laws cx \<and> \<not> dLock d \<and> numbered bs \<and>
     (\<exists>bss. disk_holds cx d bss \<and> concat bss = bs \<and> tight bss)"

definition store_rep :: "codec \<Rightarrow> disk \<times> Files \<Rightarrow> Block list \<Rightarrow> bool" where
  "store_rep cx s bs \<longleftrightarrow> codec_laws cx \<and> dLock (fst s) \<and> numbered bs \<and>
     (\<exists>bss. files_rep cx (fst s) (snd s) bss \<and> concat bss = bs \<and> tight bss)"

definition storeAppend :: "env \<Rightarrow> codec \<Rightarrow> Block \<Rightarrow> disk \<times> Files \<Rightarrow> (error + unit) \<times> disk \<times> Files" where
  "storeAppend env cx b s = AppendBlock env cx b (fst s) (snd s)"

definition storeReadAll :: "codec \<Rightarrow> disk \<times> Files \<Rightarrow> error + Block list" where
  "storeReadAll cx s = ReadAll healthy cx (fst s) (snd s)"

definition storeClose :: "env \<Rightarrow> disk \<times> Files \<Rightarrow> (error + unit) \<times> disk \<times> Files" where
  "storeClose env s = Storage_Close env (fst s) (snd s)"

interpretation log: durable_log "store_rep cx" "storeAppend env cx" "storeReadAll cx" "dir_holds cx"
  "Storage_Open healthy cx" "storeClose env'" for env env' cx
proof unfold_locales
  fix s bs
  assume "store_rep cx s bs"
  then show "numbered bs" by (simp add: store_rep_def)
next
  fix s bs b s'
  assume rep: "store_rep cx s bs" and n: "numbered (bs @ [b])" and l: "length bs + 2 < 2 ^ 64"
    and ok: "storeAppend env cx b s = (Inr (), s')"
  from rep obtain bss where bss: "files_rep cx (fst s) (snd s) bss" "concat bss = bs" "tight bss"
    by (auto simp: store_rep_def)
  have "bss \<noteq> []" using bss(1) by (simp add: files_rep_def)
  obtain d' f' where s': "s' = (d', f')" by (cases s')
  have "files_rep cx d' f' (appendTo cx bss b) \<and> dLock d' = dLock (fst s)"
    using AppendBlock_refines_lemma [OF bss(1), of env b d' f'] tight_length [OF bss(3)] bss(2) l ok s'
    by (simp add: storeAppend_def)
  moreover have "length (blockFrame cx b) \<le> defaultSegmentSize"
  proof -
    have "fst (AppendBlock env cx b (fst s) (snd s)) = Inr ()" using ok by (simp add: storeAppend_def)
    then have "length (blockFrame cx b) \<le> fSegmentSize (snd s)" by (rule AppendBlock_size)
    with bss(1) show ?thesis by (simp add: files_rep_def)
  qed
  ultimately show "store_rep cx s' (bs @ [b])"
    using rep n bss s' \<open>bss \<noteq> []\<close> tight_appendTo [of bss cx b] concat_appendTo [of bss cx b]
    by (auto simp: store_rep_def intro!: exI [of _ "appendTo cx bss b"])
next
  fix s bs
  assume "store_rep cx s bs"
  then show "storeReadAll cx s = Inr (map gobBlock bs)"
    by (auto simp: store_rep_def storeReadAll_def intro: ReadAll_rep)
next
  fix d bs
  assume "dir_holds cx d bs"
  then obtain bss where bss: "disk_holds cx d bss" "concat bss = bs" "tight bss"
      and cx: "codec_laws cx" "\<not> dLock d" "numbered bs"
    by (auto simp: dir_holds_def)
  let ?bss = "if bss = [] then [[]] else bss"
  from Storage_Open_recovers_lemma [OF cx(1) bss(1) cx(2)] obtain f d' where
    "Storage_Open healthy cx d = (Inr f, d')" "files_rep cx d' f ?bss" "dLock d'" by blast
  moreover have "concat ?bss = bs" "tight ?bss" using bss by (auto simp: tight_def)
  ultimately show "\<exists>f d'. Storage_Open healthy cx d = (Inr f, d') \<and> store_rep cx (d', f) bs"
    using cx by (auto simp: store_rep_def)
next
  fix s bs d f
  assume rep: "store_rep cx s bs" and cl: "storeClose env' s = (Inr (), d, f)"
  then have "d = (fst s)\<lparr>dLock := False\<rparr>"
    by (auto simp: storeClose_def Storage_Close_def store_rep_def files_rep_def Let_def split: if_splits)
  with rep show "dir_holds cx d bs"
    by (auto simp: dir_holds_def store_rep_def files_rep_def)
qed

subsection \<open>Progress\<close>

lemma AppendBlock_healthy_lemma:
  assumes rep: "files_rep cx d f bss" and p: "gobEncode cx b = Some p"
    and fits: "length (blockFrame cx b) \<le> defaultSegmentSize" and bound: "Suc (length bss) < 2 ^ 64"
  shows "fst (AppendBlock healthy cx b d f) = Inr ()"
proof -
  have nz: "(of_nat (length bss) + 1 :: u64) \<noteq> 0"
    using bound of_nat_eq_u64 [of "Suc (length bss)" 0] by (simp add: add.commute)
  show ?thesis
    using rep p fits nz
    by (auto simp: AppendBlock_def files_rep_def blockFrame_def rotate_def openActive_def Let_def)
qed

lemma storeAppend_healthy:
  assumes "store_rep cx s bs" and "gobEncode cx b \<noteq> None"
    and "length (blockFrame cx b) \<le> defaultSegmentSize" and "length bs + 2 < 2 ^ 64"
  shows "\<exists>s'. storeAppend healthy cx b s = (Inr (), s')"
proof -
  from assms(1) obtain bss where "files_rep cx (fst s) (snd s) bss" "length bss \<le> Suc (length bs)"
    using tight_length by (auto simp: store_rep_def)
  moreover from assms(2) obtain p where "gobEncode cx b = Some p" by auto
  ultimately have "fst (storeAppend healthy cx b s) = Inr ()"
    unfolding storeAppend_def using assms(3,4) by (intro AppendBlock_healthy_lemma) auto
  then show ?thesis by (metis prod.collapse)
qed

lemma appendAll_healthy:
  "store_rep cx s bs \<Longrightarrow> numbered (bs @ cs) \<Longrightarrow> length (bs @ cs) + 2 < 2 ^ 64 \<Longrightarrow>
   \<forall>b \<in> set cs. gobEncode cx b \<noteq> None \<and> length (blockFrame cx b) \<le> defaultSegmentSize \<Longrightarrow>
   \<exists>s'. appendAll (storeAppend healthy cx) cs s = (Inr (), s')"
proof (induction cs arbitrary: s bs)
  case (Cons c cs)
  from Cons.prems obtain s1 where s1: "storeAppend healthy cx c s = (Inr (), s1)"
    using storeAppend_healthy [of cx s bs c] by auto
  have "numbered (bs @ [c])"
    using Cons.prems(2) by (rule numbered_prefix [of "bs @ [c]" cs, simplified])
  then have "store_rep cx s1 (bs @ [c])"
    using Cons.prems s1 by (intro log.append_rep [of cx s bs c]) auto
  from Cons.IH [OF this] Cons.prems s1 show ?case by auto
qed simp

lemma storeClose_healthy:
  "store_rep cx s bs \<Longrightarrow> \<exists>d f. storeClose healthy s = (Inr (), d, f)"
  by (auto simp: store_rep_def storeClose_def Storage_Close_def files_rep_def Let_def)

subsection \<open>Example blocks\<close>

definition exHeader :: "u64 \<Rightarrow> BlockHeader" where
  "exHeader h = \<lparr>hHeight = h,
     hTimestamp = \<lparr>tYear = 2025, tMonth = 1, tDay = 2, tHour = 3, tMinute = 4, tSecond = 5, tNano = 0\<rparr>,
     hPrevHash = [], hTxRoot = [], hStateRoot = [], hContractRoot = [], hAccountRoot = [],
     hContractCodeRoot = [], hContractStorageRoot = [], hLogRoot = [], hZKRoot = [],
     hReceiptRoot = [], hRecordHash = [], hSchema = 4, hCompression = ''zlib-fast''\<rparr>"

definition exTx :: "bytes \<Rightarrow> Transaction" where
  "exTx v = \<lparr>txID = ''01'', txTimestamp = hTimestamp (exHeader 1), txSender = ''s'', txNonce = 0,
     txOps = [\<lparr>opKey = ''a'', opValue = Some v, opDelete = False\<rparr>], txPayload = [], txKind = []\<rparr>"

definition exBlock :: "u64 \<Rightarrow> Block" where
  "exBlock h = \<lparr>bHeader = exHeader h, bTransactions = [exTx [7]]\<rparr>"

definition exCodec :: codec where
  "exCodec = tableCodec [exBlock 1, exBlock 2]"

lemma exBlock_simps [simp]:
  "hHeight (bHeader (exBlock h)) = h" "exBlock h = exBlock k \<longleftrightarrow> h = k" "gobBlock (exBlock h) = exBlock h"
  by (auto simp: exBlock_def exHeader_def gobBlock_def gobTransaction_def gobOperation_def exTx_def)

lemma exCodec_laws [simp]: "codec_laws exCodec"
  by (simp add: exCodec_def)

lemma exCodec_simps [simp]:
  "gobEncode exCodec (exBlock 1) = Some [1]" "gobEncode exCodec (exBlock 2) = Some [1, 1]"
  "frameBody exCodec [1] = [1]" "frameBody exCodec [1, 1] = [1, 1]"
  by (simp_all add: exCodec_def tableCodec_def frameBody_def numeral_eq_Suc)

lemma exCodec_frames [simp]:
  "blockFrame exCodec (exBlock 1) = frame exCodec [1]" "blockFrame exCodec (exBlock 2) = frame exCodec [1, 1]"
  "storable exCodec (exBlock 1)" "storable exCodec (exBlock 2)"
  by (simp_all add: blockFrame_def storable_def maxRecordSize_def)

lemma ex_numbered: "numbered [exBlock 1]" "numbered [exBlock 1, exBlock 2]"
  by (simp_all add: numbered_def)

lemma disk_holds_emptyDisk [simp]: "disk_holds cx emptyDisk []"
  by (simp add: disk_holds_def emptyDisk_def segIds_def)

lemma dir_holds_emptyDisk: "codec_laws cx \<Longrightarrow> dir_holds cx emptyDisk []"
proof -
  have "\<not> dLock emptyDisk" by (simp add: emptyDisk_def)
  then show "codec_laws cx \<Longrightarrow> dir_holds cx emptyDisk []"
    by (auto simp: dir_holds_def numbered_def tight_def intro!: exI [of _ "[]"])
qed

definition exDisk :: disk where
  "exDisk = setData 1 [] emptyDisk"

lemma disk_holds_exDisk [simp]: "disk_holds cx exDisk [[]]" "\<not> dLock exDisk"
  by (simp_all add: disk_holds_def exDisk_def emptyDisk_def segIds_def setData_def)

subsection \<open>Properties\<close>

text \<open>
  Opening a directory whose segment files hold the frames of any lists of blocks takes the
  lock, rebuilds the index of exactly these blocks, positions the store at the end of the last
  segment (a new one if there is none) and leaves the write-ahead log and the snapshots alone.
\<close>

theorem Storage_Open_recovers:
  "codec_laws cx \<Longrightarrow> disk_holds cx d bss \<Longrightarrow> \<not> dLock d \<Longrightarrow>
   \<exists>f d'. Storage_Open healthy cx d = (Inr f, d') \<and> files_rep cx d' f (if bss = [] then [[]] else bss) \<and>
     dLock d' \<and> dWal d' = dWal d \<and> dSnapshots d' = dSnapshots d"
  by (rule Storage_Open_recovers_lemma)

theorem Storage_Open_recovers_witness:
  "\<exists>f d'. Storage_Open healthy exCodec exDisk = (Inr f, d') \<and> files_rep exCodec d' f [[]] \<and>
     dLock d' \<and> dWal d' = dWal exDisk \<and> dSnapshots d' = dSnapshots exDisk"
  using Storage_Open_recovers [of exCodec exDisk "[[]]"] by simp

text \<open>
  A successful append, under any failures of the environment, adds the block's frame to
  the last segment while it fits within the segment size and starts a new segment otherwise;
  the index then is again the one that reading the segments back gives.
\<close>

theorem AppendBlock_refines:
  "files_rep cx d f bss \<Longrightarrow> Suc (length bss) < 2 ^ 64 \<Longrightarrow> AppendBlock env cx b d f = (Inr (), d', f') \<Longrightarrow>
   files_rep cx d' f' (appendTo cx bss b) \<and> dWal d' = dWal d \<and> dLock d' = dLock d \<and> dSnapshots d' = dSnapshots d"
  by (rule AppendBlock_refines_lemma)

theorem AppendBlock_refines_witness:
  "\<exists>f d d' f'. Storage_Open healthy exCodec exDisk = (Inr f, d) \<and>
     AppendBlock healthy exCodec (exBlock 1) d f = (Inr (), d', f') \<and> files_rep exCodec d' f' [[exBlock 1]]"
proof -
  obtain f d where o: "Storage_Open healthy exCodec exDisk = (Inr f, d)" and rep: "files_rep exCodec d f [[]]"
    using Storage_Open_recovers_lemma [of exCodec exDisk "[[]]"] by auto
  have "fst (AppendBlock healthy exCodec (exBlock 1) d f) = Inr ()"
    by (rule AppendBlock_healthy_lemma [OF rep]) (simp_all add: defaultSegmentSize_def)
  then obtain d' f' where a: "AppendBlock healthy exCodec (exBlock 1) d f = (Inr (), d', f')"
    by (metis prod.collapse)
  have "files_rep exCodec d' f' (appendTo exCodec [[]] (exBlock 1))"
    using AppendBlock_refines [OF rep _ a] by simp
  with o a show ?thesis by (auto simp: appendTo_def defaultSegmentSize_def)
qed

text \<open>
  C18: Blocks survive: whatever fails in between, if a directory holds blocks, is opened, further
  blocks are appended, all with success, and the store is closed without an error, then opening
  it again succeeds and reads back all the blocks in order, up to gob's loss of empty slices.
\<close>

theorem store_durable:
  "dir_holds cx d0 bs \<Longrightarrow> Storage_Open healthy cx d0 = (Inr f0, d1) \<Longrightarrow>
   numbered (bs @ cs) \<Longrightarrow> length (bs @ cs) + 2 < 2 ^ 64 \<Longrightarrow>
   appendAll (storeAppend env cx) cs (d1, f0) = (Inr (), s) \<Longrightarrow>
   storeClose env' s = (Inr (), d2, f2) \<Longrightarrow>
   \<exists>f3 d3. Storage_Open healthy cx d2 = (Inr f3, d3) \<and> ReadAll healthy cx d3 f3 = Inr (map gobBlock (bs @ cs))"
  using log.opens_rep [of cx d0 bs] log.reopen_readAll [of cx "(d1, f0)" bs cs env s env' d2 f2]
  by (auto simp: storeReadAll_def)

theorem store_durable_witness:
  "\<exists>f0 d1 s d2 f2 f3 d3. Storage_Open healthy exCodec emptyDisk = (Inr f0, d1) \<and>
     appendAll (storeAppend healthy exCodec) [exBlock 1, exBlock 2] (d1, f0) = (Inr (), s) \<and>
     storeClose healthy s = (Inr (), d2, f2) \<and>
     Storage_Open healthy exCodec d2 = (Inr f3, d3) \<and> ReadAll healthy exCodec d3 f3 = Inr [exBlock 1, exBlock 2]"
proof -
  note dh = dir_holds_emptyDisk [OF exCodec_laws]
  from log.opens_rep [OF dh] obtain f0 d1 where
    o: "Storage_Open healthy exCodec emptyDisk = (Inr f0, d1)" and r: "store_rep exCodec (d1, f0) []" by blast
  obtain s where a: "appendAll (storeAppend healthy exCodec) [exBlock 1, exBlock 2] (d1, f0) = (Inr (), s)"
    using appendAll_healthy [OF r, of "[exBlock 1, exBlock 2]"] ex_numbered by (auto simp: defaultSegmentSize_def)
  have "store_rep exCodec s ([] @ [exBlock 1, exBlock 2])"
    by (rule log.appendAll_rep [OF r _ _ a]) (simp_all add: ex_numbered)
  then obtain d2 f2 where c: "storeClose healthy s = (Inr (), d2, f2)" by (auto dest: storeClose_healthy)
  have "\<exists>f3 d3. Storage_Open healthy exCodec d2 = (Inr f3, d3) \<and> ReadAll healthy exCodec d3 f3 = Inr [exBlock 1, exBlock 2]"
    using store_durable [OF dh o _ _ a c] by (simp add: ex_numbered)
  with o a c show ?thesis by blast
qed

text \<open>
  When no operating-system call fails, every block that encodes to a record of at most the
  segment size is appended: a run of appends to an opened directory does not stop with an error.
\<close>

theorem appends_succeed:
  "dir_holds cx d0 bs \<Longrightarrow> numbered (bs @ cs) \<Longrightarrow> length (bs @ cs) + 2 < 2 ^ 64 \<Longrightarrow>
   \<forall>b \<in> set cs. gobEncode cx b \<noteq> None \<and> length (blockFrame cx b) \<le> defaultSegmentSize \<Longrightarrow>
   \<exists>f0 d1 s d2 f2. Storage_Open healthy cx d0 = (Inr f0, d1) \<and>
     appendAll (storeAppend healthy cx) cs (d1, f0) = (Inr (), s) \<and> storeClose healthy s = (Inr (), d2, f2)"
  using log.opens_rep [of cx d0 bs] appendAll_healthy [of cx _ bs cs] log.appendAll_rep [of cx _ bs cs healthy]
    storeClose_healthy [of cx _ "bs @ cs"]
  by blast

theorem appends_succeed_witness:
  "\<exists>f0 d1 s d2 f2. Storage_Open healthy exCodec emptyDisk = (Inr f0, d1) \<and>
     appendAll (storeAppend healthy exCodec) [exBlock 1, exBlock 2] (d1, f0) = (Inr (), s) \<and>
     storeClose healthy s = (Inr (), d2, f2)"
  using appends_succeed [OF dir_holds_emptyDisk [OF exCodec_laws], of "[exBlock 1, exBlock 2]"] ex_numbered
  by (simp add: defaultSegmentSize_def)

text \<open>
  C33: A crash that leaves any proper prefix of a record at the end of the last segment, except
  exactly its 16-byte header, is repaired: opening the directory restores the store that holds
  the blocks written before.
\<close>

theorem Storage_Open_repairs_torn_tail:
  "codec_laws cx \<Longrightarrow> disk_holds cx d (css @ [bs]) \<Longrightarrow> \<not> dLock d \<Longrightarrow> storable cx b \<Longrightarrow>
   n < length (blockFrame cx b) \<Longrightarrow> n \<noteq> 16 \<Longrightarrow>
   \<exists>f d'. Storage_Open healthy cx
       (setData (of_nat (Suc (length css))) (segBytes cx bs @ take n (blockFrame cx b)) d) = (Inr f, d') \<and>
     files_rep cx d' f (css @ [bs]) \<and> dLock d' \<and> dWal d' = dWal d"
  by (rule Storage_Open_repairs_torn_tail_lemma)

theorem Storage_Open_repairs_torn_tail_witness:
  "\<exists>f d'. Storage_Open healthy exCodec (setData 1 (take 9 (frame exCodec [1])) exDisk) = (Inr f, d') \<and>
     files_rep exCodec d' f [[]]"
  using Storage_Open_repairs_torn_tail [of exCodec exDisk "[]" "[]" "exBlock 1" 9] by auto

text \<open>
  C36: If exactly the 16-byte header of a record survives a crash, opening leaves it in place.
  The next block is then appended behind it with success and can be read in that session, but
  after the store is closed and opened again the block is gone.
\<close>

theorem stray_header_loses_next_block:
  "codec_laws cx \<Longrightarrow> disk_holds cx d (css @ [bs]) \<Longrightarrow> \<not> dLock d \<Longrightarrow>
   gobEncode cx b = Some p \<Longrightarrow> length (frameBody cx p) \<le> maxRecordSize \<Longrightarrow> gobEncode cx c = Some q \<Longrightarrow>
   length (segBytes cx bs) + 16 + length (blockFrame cx c) \<le> defaultSegmentSize \<Longrightarrow>
   length (blockFrame cx c) < length (frameBody cx p) \<or>
     crc32c (take (length (frameBody cx p)) (blockFrame cx c)) \<noteq> crc32c (frameBody cx p) \<Longrightarrow>
   \<exists>f1 d1 f2 d2 d3 f4 d4.
     Storage_Open healthy cx (setData (of_nat (Suc (length css)))
       (segBytes cx bs @ take 16 (blockFrame cx b)) d) = (Inr f1, d1) \<and>
     AppendBlock healthy cx c d1 f1 = (Inr (), d2, f2) \<and>
     ReadBlock healthy cx d2 f2 (hHeight (bHeader c)) = Inr (gobBlock c) \<and>
     fst (snd (Storage_Close healthy d2 f2)) = d3 \<and>
     Storage_Open healthy cx d3 = (Inr f4, d4) \<and> files_rep cx d4 f4 (css @ [bs])"
  by (rule stray_header_loses_next_block_lemma)

theorem stray_header_loses_next_block_witness:
  "\<exists>f1 d1 f2 d2 d3 f4 d4.
     Storage_Open healthy exCodec (setData 1 (take 16 (frame exCodec [1])) exDisk) = (Inr f1, d1) \<and>
     AppendBlock healthy exCodec (exBlock 1) d1 f1 = (Inr (), d2, f2) \<and>
     ReadBlock healthy exCodec d2 f2 1 = Inr (exBlock 1) \<and>
     fst (snd (Storage_Close healthy d2 f2)) = d3 \<and>
     Storage_Open healthy exCodec d3 = (Inr f4, d4) \<and> files_rep exCodec d4 f4 [[]]"
proof -
  have "take 1 (frame exCodec [1]) = [0x41]"
    by (simp add: frame_def Let_def frameHeader_def putUint32_def magic_def)
  moreover have "crc32c [0x41] \<noteq> crc32c [1]"
    using crc32c_burst [of "[0x41]" "[1]" "[]" "[]"] by simp
  ultimately show ?thesis
    using stray_header_loses_next_block [of exCodec exDisk "[]" "[]" "exBlock 1" "[1]" "exBlock 1" "[1]"]
    by (simp add: defaultSegmentSize_def maxRecordSize_def)
qed

end
