(* ===== verification/EngineChain.thy ===== *)
theory EngineChain
  imports Engine BlockLog
begin

text \<open>
  The chain of blocks and the state it builds: what loading a block and filtering transactions
  amount to (\<open>applyLoaded_Inr\<close>, \<open>filterTxs_spec\<close>), the replay invariant \<open>replayable\<close> that every
  engine the program can reach satisfies, and what \<open>Get\<close>, \<open>GetAt\<close>, \<open>Block\<close> and \<open>Status\<close> then report.
\<close>

subsection \<open>What a list of operations does\<close>

definition blockOps :: "Block \<Rightarrow> Operation list" where
  "blockOps b = concat (map txOps (bTransactions b))"

definition runOps :: "Operation list \<Rightarrow> state \<Rightarrow> state" where
  "runOps ops s = fold applyState ops s"

text \<open>The state after the blocks of a list, from nothing.\<close>

definition chainState :: "Block list \<Rightarrow> state" where
  "chainState bs = runOps (concat (map blockOps bs)) fmempty"

lemma runOps_simps [simp]:
  "runOps [] s = s" "runOps (op # ops) s = runOps ops (applyState op s)"
  "runOps (ops @ ops') s = runOps ops' (runOps ops s)"
  by (simp_all add: runOps_def)

lemma fold_txs: "fold (\<lambda>tx. fold f (txOps tx)) txs s = fold f (concat (map txOps txs)) s"
  by (induction txs arbitrary: s) simp_all

lemma applyOp_simps [simp]:
  "cState (applyOp h op c) = applyState op (cState c)" "cBlocks (applyOp h op c) = cBlocks c"
  "cTxCount (applyOp h op c) = cTxCount c" "cOpCount (applyOp h op c) = cOpCount c"
  by (simp_all add: applyOp_def)

lemma fold_applyOp [simp]:
  "cState (fold (applyOp h) ops c) = runOps ops (cState c)" "cBlocks (fold (applyOp h) ops c) = cBlocks c"
  by (induction ops arbitrary: c) simp_all

lemma countTx_simps [simp]:
  "cState (countTx tx c) = cState c" "cBlocks (countTx tx c) = cBlocks c"
  "cVersions (countTx tx c) = cVersions c"
  by (simp_all add: countTx_def)

lemma fold_countTx [simp]:
  "cState (fold countTx txs c) = cState c" "cBlocks (fold countTx txs c) = cBlocks c"
  "cVersions (fold countTx txs c) = cVersions c"
  by (induction txs arbitrary: c) simp_all

lemma countTx_applyOp: "countTx tx (applyOp h op c) = applyOp h op (countTx tx c)"
  by (simp add: countTx_def applyOp_def versionsOf_def)

lemma countTx_fold_applyOp: "countTx tx (fold (applyOp h) ops c) = fold (applyOp h) ops (countTx tx c)"
  by (induction ops arbitrary: c) (simp_all add: countTx_applyOp)

lemma fold_countTx_applyOp:
  "fold countTx txs (fold (applyOp h) ops c) = fold (applyOp h) ops (fold countTx txs c)"
  by (induction txs arbitrary: c) (simp_all add: countTx_fold_applyOp)

text \<open>Counting beside each transaction, as \<open>Commit\<close> does, or after all of them.\<close>

lemma commit_loop:
  "fold (\<lambda>tx c. countTx tx (fold (applyOp h) (txOps tx) c)) txs c =
   fold countTx txs (fold (applyOp h) (concat (map txOps txs)) c)"
  by (induction txs arbitrary: c) (simp_all add: fold_countTx_applyOp countTx_fold_applyOp)

lemma commitBlock_simps [simp]:
  "cState (commitBlock b c) = runOps (blockOps b) (cState c)" "cBlocks (commitBlock b c) = cBlocks c @ [b]"
  by (simp_all add: commitBlock_def commit_loop Let_def blockOps_def)

text \<open>
  Loading a block is: the checks, on the state after its operations, and then exactly the
  update that \<open>Commit\<close> makes in memory.
\<close>

lemma applyLoaded_eq:
  "applyLoaded b c =
    (let h = bHeader b in
     if hHeight h \<noteq> nextHeight c then Inl (HeightDiscontinuity (hHeight h) (nextHeight c))
     else if hPrevHash h \<noteq> lastHash c then Inl (PrevHashMismatch (hHeight h))
     else if hashBlock b \<noteq> hRecordHash h then Inl (RecordHashMismatch (hHeight h))
     else case checkRoots (runOps (blockOps b) (cState c)) h of
         Inl e \<Rightarrow> Inl e | Inr _ \<Rightarrow> Inr (commitBlock b c))"
  by (simp add: applyLoaded_def fold_txs commitBlock_def commit_loop Let_def blockOps_def split: sum.split)

lemma applyLoaded_Inr:
  "applyLoaded b c = Inr c' \<longleftrightarrow>
     hHeight (bHeader b) = nextHeight c \<and> hPrevHash (bHeader b) = lastHash c \<and>
     hashBlock b = hRecordHash (bHeader b) \<and>
     checkRoots (runOps (blockOps b) (cState c)) (bHeader b) = Inr () \<and> c' = commitBlock b c"
  by (auto simp: applyLoaded_eq Let_def split: sum.splits)

subsection \<open>Filtering\<close>

lemma fmupd_same_iff: "fmupd k v m = m \<longleftrightarrow> fmlookup m k = Some v"
  by (metis fmap_ext fmupd_lookup)

lemma fmdrop_same_iff: "fmdrop k m = m \<longleftrightarrow> fmlookup m k = None"
  by (metis fmap_ext fmlookup_drop)

lemma applyState_noop:
  "opDelete op \<Longrightarrow> applyState op s = s \<longleftrightarrow> fmlookup s (opKey op) = None"
  "\<not> opDelete op \<Longrightarrow> applyState op s = s \<longleftrightarrow> fmlookup s (opKey op) = Some (slice (opValue op))"
  by (simp_all add: applyState_def fmupd_same_iff fmdrop_same_iff)

text \<open>The filter in terms of what an operation does to the state.\<close>

lemma filterOps_Cons:
  "filterOps (op # ops) s =
     (if opKey op = [] then Inl EmptyKeyError
      else if applyState op s = s then filterOps ops s
      else case filterOps ops (applyState op s) of
          Inl x \<Rightarrow> Inl x | Inr (fops, s') \<Rightarrow> Inr (op # fops, s'))"
  using applyState_noop [of op s] by (cases "opDelete op") (simp_all add: applyState_def)

declare filterOps.simps(2) [simp del] filterOps_Cons [simp]

fun effective :: "Operation list \<Rightarrow> state \<Rightarrow> bool" where
  "effective [] s \<longleftrightarrow> True"
| "effective (op # ops) s \<longleftrightarrow> opKey op \<noteq> [] \<and> applyState op s \<noteq> s \<and> effective ops (applyState op s)"

lemma effective_append [simp]:
  "effective (ops @ ops') s \<longleftrightarrow> effective ops s \<and> effective ops' (runOps ops s)"
  by (induction ops arbitrary: s) auto

lemma filterOps_spec:
  "filterOps ops s = Inr (fops, s') \<Longrightarrow>
   runOps ops s = s' \<and> runOps fops s = s' \<and> effective fops s \<and> set fops \<subseteq> set ops \<and> (\<forall>op \<in> set ops. opKey op \<noteq> [])"
proof (induction ops arbitrary: s fops s')
  case (Cons op ops)
  show ?case
  proof (cases "applyState op s = s")
    case True
    with Cons show ?thesis by (auto split: if_splits)
  next
    case False
    with Cons.prems obtain fops1 where f: "filterOps ops (applyState op s) = Inr (fops1, s')" "fops = op # fops1" "opKey op \<noteq> []"
      by (auto split: if_splits sum.splits prod.splits)
    from Cons.IH [OF f(1)] f(2,3) False show ?thesis by auto
  qed
qed simp

lemma filterTxs_spec:
  "filterTxs txs s = Inr (ftxs, s') \<Longrightarrow>
   runOps (concat (map txOps txs)) s = s' \<and> runOps (concat (map txOps ftxs)) s = s' \<and>
   effective (concat (map txOps ftxs)) s \<and> (\<forall>tx \<in> set ftxs. txOps tx \<noteq> [])"
proof (induction txs arbitrary: s ftxs s')
  case (Cons tx txs)
  then obtain fops s1 ftxs1 where f: "filterOps (txOps tx) s = Inr (fops, s1)" "filterTxs txs s1 = Inr (ftxs1, s')"
     "ftxs = (if fops = [] then ftxs1 else tx\<lparr>txOps := fops\<rparr> # ftxs1)"
    by (auto split: if_splits sum.splits prod.splits)
  show ?case
  proof (cases "fops = []")
    case True
    with filterOps_spec [OF f(1)] have "s = s1" "runOps (txOps tx) s = s1" by auto
    with Cons.IH [OF f(2)] f(3) True show ?thesis by simp
  next
    case False
    from filterOps_spec [OF f(1)] have "runOps (txOps tx) s = s1" "runOps fops s = s1" "effective fops s" by simp_all
    with Cons.IH [OF f(2)] f(3) False show ?thesis by simp
  qed
qed simp

lemma filterOps_Nil_iff:
  "filterOps ops s = Inr ([], s) \<longleftrightarrow> (\<forall>op \<in> set ops. opKey op \<noteq> [] \<and> applyState op s = s)"
  by (induction ops) (auto split: sum.split prod.split)

lemma filterTxs_Nil_iff:
  "(\<exists>s'. filterTxs txs s = Inr ([], s')) \<longleftrightarrow>
     (\<forall>tx \<in> set txs. txID tx \<noteq> [] \<and> (\<forall>op \<in> set (txOps tx). opKey op \<noteq> [] \<and> applyState op s = s))"
proof (induction txs)
  case (Cons tx txs)
  show ?case
  proof (cases "filterOps (txOps tx) s = Inr ([], s)")
    case True
    then have "\<forall>op \<in> set (txOps tx). opKey op \<noteq> [] \<and> applyState op s = s" by (simp only: filterOps_Nil_iff)
    moreover have "(\<exists>s'. filterTxs (tx # txs) s = Inr ([], s')) \<longleftrightarrow> txID tx \<noteq> [] \<and> (\<exists>s'. filterTxs txs s = Inr ([], s'))"
      by (auto simp: True split: sum.splits prod.splits)
    ultimately show ?thesis using Cons by auto
  next
    case False
    then have "\<not> (\<forall>op \<in> set (txOps tx). opKey op \<noteq> [] \<and> applyState op s = s)"
      by (simp only: filterOps_Nil_iff simp_thms)
    moreover have "filterTxs (tx # txs) s \<noteq> Inr ([], s')" for s'
    proof
      assume "filterTxs (tx # txs) s = Inr ([], s')"
      then obtain s1 where f: "filterOps (txOps tx) s = Inr ([], s1)"
        by (auto split: if_splits sum.splits prod.splits)
      with filterOps_spec [OF f] False show False by auto
    qed
    ultimately show ?thesis by auto
  qed
qed simp

subsection \<open>The block that Commit makes\<close>

lemma hashBlock_sealBlock [simp]: "hashBlock (sealBlock b) = hashBlock b"
  by (simp add: sealBlock_def hashBlock_def)

lemma sealBlock_simps [simp]:
  "hHeight (bHeader (sealBlock b)) = hHeight (bHeader b)" "hPrevHash (bHeader (sealBlock b)) = hPrevHash (bHeader b)"
  "bTransactions (sealBlock b) = bTransactions b" "hRecordHash (bHeader (sealBlock b)) = hashBlock b"
  "checkRoots s (bHeader (sealBlock b)) = checkRoots s (bHeader b)"
  by (simp_all add: sealBlock_def checkRoots_def)

lemma checkRoots_newHeader: "checkRoots s (newHeader now c ftxs s) = Inr ()"
  by (simp add: checkRoots_def newHeader_def Let_def)

lemma newBlock_simps [simp]:
  "hHeight (bHeader (newBlock now c ftxs s)) = nextHeight c"
  "hPrevHash (bHeader (newBlock now c ftxs s)) = lastHash c"
  "bTransactions (newBlock now c ftxs s) = ftxs"
  "hRecordHash (bHeader (newBlock now c ftxs s)) = hashBlock (newBlock now c ftxs s)"
  "checkRoots s (bHeader (newBlock now c ftxs s)) = Inr ()"
  by (simp_all add: newBlock_def checkRoots_newHeader) (simp_all add: newHeader_def)

lemma prepareBlock_Inr:
  assumes "prepareBlock now txs c = Inr b"
  obtains ftxs s where "filterTxs txs (cState c) = Inr (ftxs, s)" "ftxs \<noteq> []" "b = newBlock now c ftxs s"
  using assms by (auto simp: prepareBlock_def split: if_splits sum.splits prod.splits)

lemma prepareBlock_loads:
  "prepareBlock now txs c = Inr b \<Longrightarrow> applyLoaded b c = Inr (commitBlock b c)"
  by (erule prepareBlock_Inr) (use filterTxs_spec in \<open>simp add: applyLoaded_Inr blockOps_def\<close>)

lemma prepareBlock_state:
  assumes "prepareBlock now txs c = Inr b"
  shows "runOps (blockOps b) (cState c) = runOps (concat (map txOps txs)) (cState c)"
    and "effective (blockOps b) (cState c)" and "blockOps b \<noteq> []"
proof -
  obtain ftxs s where f: "filterTxs txs (cState c) = Inr (ftxs, s)" "ftxs \<noteq> []" "b = newBlock now c ftxs s"
    using assms by (rule prepareBlock_Inr)
  from filterTxs_spec [OF f(1)] f(2,3)
  show "runOps (blockOps b) (cState c) = runOps (concat (map txOps txs)) (cState c)"
    and "effective (blockOps b) (cState c)" and "blockOps b \<noteq> []"
    by (auto simp: blockOps_def neq_Nil_conv)
qed

lemma Commit_cases:
  assumes "Commit env cx now txs d e = (r, d', e')"
  obtains (rejected) x where "prepareBlock now txs (eChain e) = Inl x" "r = Inl x" "d' = d" "e' = e"
  | (failed) b x where "prepareBlock now txs (eChain e) = Inr b" "r = Inl x" "eChain e' = eChain e"
  | (committed) b where "prepareBlock now txs (eChain e) = Inr b" "r = Inr b \<or> r = Inl (IOFailed WalRemove)"
      "eChain e' = commitBlock b (eChain e)"
  using assms
  by (auto simp: Commit_def ClearWAL_def Let_def split: sum.splits prod.splits if_splits)

subsection \<open>The replay invariant\<close>

definition replayable :: "Chain \<Rightarrow> bool" where
  "replayable c \<longleftrightarrow> applyAll (cBlocks c) emptyChain = Inr c"

lemma applyAll_append:
  "applyAll (bs @ cs) c = (case applyAll bs c of Inl e \<Rightarrow> Inl e | Inr c' \<Rightarrow> applyAll cs c')"
  by (induction bs arbitrary: c) (simp_all split: sum.split)

lemma applyAll_blocks: "applyAll bs c = Inr c' \<Longrightarrow> cBlocks c' = cBlocks c @ bs"
proof (induction bs arbitrary: c)
  case (Cons b bs)
  then obtain c1 where "applyLoaded b c = Inr c1" "applyAll bs c1 = Inr c'"
    by (auto split: sum.splits)
  with Cons.IH show ?case by (auto simp: applyLoaded_Inr)
qed simp

lemma replayable_emptyChain [simp]: "replayable emptyChain"
  by (simp add: replayable_def emptyChain_def)

lemma replayable_applyAll: "applyAll bs emptyChain = Inr c \<Longrightarrow> replayable c"
  using applyAll_blocks [of bs emptyChain c] by (simp add: replayable_def emptyChain_def)

lemma replayable_applyLoaded: "replayable c \<Longrightarrow> applyLoaded b c = Inr c' \<Longrightarrow> replayable c'"
  by (frule applyLoaded_Inr [THEN iffD1]) (simp add: replayable_def applyAll_append)

lemma replayable_commitBlock: "replayable c \<Longrightarrow> prepareBlock now txs c = Inr b \<Longrightarrow> replayable (commitBlock b c)"
  by (blast intro: replayable_applyLoaded prepareBlock_loads)

lemma Engine_Open_replayable: "Engine_Open env cx ag d = (Inr e, d') \<Longrightarrow> replayable (eChain e)"
  by (auto simp: Engine_Open_def intro: replayable_applyAll replayable_applyLoaded
      split: sum.splits prod.splits option.splits if_splits)

lemma Commit_replayable:
  assumes "replayable (eChain e)" and "Commit env cx now txs d e = (r, d', e')"
  shows "replayable (eChain e')"
  using assms(2) by (cases rule: Commit_cases) (use assms(1) replayable_commitBlock in auto)

text \<open>
  The engines a process can hold: opened over any directory, after any commits under any
  failures, while the directory is changed behind the engine's back in any way.
\<close>

inductive reachable :: "codec \<Rightarrow> disk \<Rightarrow> Engine \<Rightarrow> bool" for cx where
  opened: "Engine_Open env cx ag d0 = (Inr e, d) \<Longrightarrow> reachable cx d e"
| committed: "reachable cx d e \<Longrightarrow> Commit env cx now txs d e = (r, d', e') \<Longrightarrow> reachable cx d' e'"
| batched: "reachable cx d e \<Longrightarrow> CommitOperations w cx ops sender n d e = (r, d', e') \<Longrightarrow> reachable cx d' e'"
| closed: "reachable cx d e \<Longrightarrow> Engine_Close env d e = (r', d', e') \<Longrightarrow> reachable cx d' e'"
| tampered: "reachable cx d e \<Longrightarrow> reachable cx d' e"

text \<open>What every commit preserves, a run of batches preserves.\<close>

lemma commitBatches_invariant:
  assumes step: "\<And>env now txs d e r d' e'. P d e \<Longrightarrow> Commit env cx now txs d e = (r, d', e') \<Longrightarrow> P d' e'"
  shows "P d e \<Longrightarrow> commitBatches w cx sender n start ops d e = (r, d', e') \<Longrightarrow> P d' e'"
proof (induction "length ops" arbitrary: ops start d e r d' e' rule: less_induct)
  case less
  note run = less.prems(2) [unfolded commitBatches.simps [of w cx sender n start ops d e]]
  show ?case
  proof (cases "ops = [] \<or> n = 0")
    case True
    with run less.prems(1) show ?thesis by auto
  next
    case False
    then have shorter: "length (drop n ops) < length ops" by auto
    obtain r1 d1 e1 where c: "Commit (wEnv w start) cx (wClock w start) (batchTxs w sender start (take n ops)) d e = (r1, d1, e1)"
      by (metis prod_cases3)
    note P1 = step [OF less.prems(1) c]
    from run False c show ?thesis
      using less.hyps [OF shorter P1, of "start + n"] P1 by (auto split: sum.splits prod.splits if_splits)
  qed
qed

text \<open>Either \<open>make\<close> panics before anything happens, or the loop runs with a positive batch size.\<close>

lemma CommitOperations_cases:
  assumes "CommitOperations w cx ops sender n d e = (r, d', e')"
  obtains (panic) "r = ([], Some CapacityPanic)" "d' = d" "e' = e"
  | (loop) m where "0 < m" "commitBatches w cx sender m 0 ops d e = (r, d', e')"
proof -
  define k where "k = (if sint n \<le> 0 then 1000 else n)"
  define capacity where "capacity = sint (of_nat (length ops) + k - 1) sdiv sint k"
  have "k \<noteq> 0" by (auto simp: k_def)
  then have pos: "0 < unat k" by (rule unat_gt_0 [THEN iffD2])
  have "(if capacity < 0 then (([], Some CapacityPanic), d, e)
      else commitBatches w cx sender (unat k) 0 ops d e) = (r, d', e')"
    using assms unfolding CommitOperations_def Let_def k_def capacity_def .
  with that(1) that(2) [OF pos] show thesis by (cases "capacity < 0") simp_all
qed

lemma CommitOperations_invariant:
  assumes step: "\<And>env now txs d e r d' e'. P d e \<Longrightarrow> Commit env cx now txs d e = (r, d', e') \<Longrightarrow> P d' e'"
    and "P d e" and "CommitOperations w cx ops sender n d e = (r, d', e')"
  shows "P d' e'"
  using assms(3)
proof (cases rule: CommitOperations_cases)
  case (loop m)
  show ?thesis by (rule commitBatches_invariant [of P, OF step assms(2) loop(2)])
qed (use assms(2) in simp)

text \<open>The sum that gives the capacity wraps around for the largest batch size and two operations.\<close>

lemma CommitOperations_panics:
  "length ops = 2 \<Longrightarrow> CommitOperations w cx ops sender (2 ^ 63 - 1) d e = (([], Some CapacityPanic), d, e)"
  by (simp add: CommitOperations_def Let_def signed_divide_int_def)

lemma CommitOperations_replayable:
  assumes "replayable (eChain e)" and "CommitOperations w cx ops sender n d e = (r, d', e')"
  shows "replayable (eChain e')"
  by (rule CommitOperations_invariant [where P = "\<lambda>d e. replayable (eChain e)", OF Commit_replayable assms])

lemma Engine_Close_chain: "Engine_Close env d e = (r, d', e') \<Longrightarrow> eChain e' = eChain e"
  by (auto simp: Engine_Close_def split: prod.splits)

lemma reachable_replayable: "reachable cx d e \<Longrightarrow> replayable (eChain e)"
proof (induction rule: reachable.induct)
  case opened
  then show ?case by (rule Engine_Open_replayable)
next
  case committed
  from committed.IH committed.hyps(2) show ?case by (rule Commit_replayable)
next
  case batched
  from batched.IH batched.hyps(2) show ?case by (rule CommitOperations_replayable)
next
  case closed
  then show ?case using Engine_Close_chain by metis
qed

subsection \<open>The shape of a chain\<close>

text \<open>Heights, links, hashes and the state root of the last block, for the blocks of a list.\<close>

fun wellLinked :: "Block list \<Rightarrow> Block list \<Rightarrow> bool" where
  "wellLinked pre [] \<longleftrightarrow> True"
| "wellLinked pre (b # bs) \<longleftrightarrow>
     hHeight (bHeader b) = of_nat (Suc (length pre)) \<and>
     hPrevHash (bHeader b) = (if pre = [] then [] else hRecordHash (bHeader (last pre))) \<and>
     hRecordHash (bHeader b) = hashBlock b \<and>
     checkRoots (chainState (pre @ [b])) (bHeader b) = Inr () \<and>
     wellLinked (pre @ [b]) bs"

lemma chainState_append: "chainState (bs @ cs) = runOps (concat (map blockOps cs)) (chainState bs)"
  by (simp add: chainState_def)

lemma applyAll_wellLinked:
  "cState c = chainState (cBlocks c) \<Longrightarrow>
   (\<exists>c'. applyAll bs c = Inr c') \<longleftrightarrow> wellLinked (cBlocks c) bs"
proof (induction bs arbitrary: c)
  case (Cons b bs)
  have st: "runOps (blockOps b) (cState c) = chainState (cBlocks c @ [b])"
    by (simp add: chainState_append Cons.prems)
  have "(\<exists>c'. applyAll (b # bs) c = Inr c') \<longleftrightarrow>
     applyLoaded b c = Inr (commitBlock b c) \<and> (\<exists>c'. applyAll bs (commitBlock b c) = Inr c')"
    by (auto simp: applyLoaded_eq Let_def split: sum.splits)
  also have "(\<exists>c'. applyAll bs (commitBlock b c) = Inr c') \<longleftrightarrow> wellLinked (cBlocks c @ [b]) bs"
    using Cons.IH [of "commitBlock b c"] st by simp
  finally show ?case
    by (auto simp: applyLoaded_Inr st nextHeight_def lastHash_def add.commute)
qed simp

lemma applyAll_state:
  "applyAll bs c = Inr c' \<Longrightarrow> cState c' = runOps (concat (map blockOps bs)) (cState c)"
proof (induction bs arbitrary: c)
  case (Cons b bs)
  then obtain c1 where "applyLoaded b c = Inr c1" "applyAll bs c1 = Inr c'"
    by (auto split: sum.splits)
  with Cons.IH show ?case by (auto simp: applyLoaded_Inr)
qed simp

lemma replayable_state: "replayable c \<Longrightarrow> cState c = chainState (cBlocks c)"
  using applyAll_state [of "cBlocks c" emptyChain c]
  by (simp add: replayable_def chainState_def emptyChain_def)

lemma replayable_wellLinked: "replayable c \<Longrightarrow> wellLinked [] (cBlocks c)"
  using applyAll_wellLinked [of emptyChain "cBlocks c"]
  by (auto simp: replayable_def chainState_def emptyChain_def)

lemma wellLinked_append:
  "wellLinked pre (bs @ cs) \<longleftrightarrow> wellLinked pre bs \<and> wellLinked (pre @ bs) cs"
  by (induction bs arbitrary: pre) auto

lemma last_take: "0 < i \<Longrightarrow> i \<le> length xs \<Longrightarrow> last (take i xs) = xs ! (i - 1)"
  by (subst last_conv_nth) auto

lemma wellLinked_nth:
  assumes "wellLinked [] bs" and "i < length bs"
  shows "hHeight (bHeader (bs ! i)) = of_nat (Suc i)"
    and "hPrevHash (bHeader (bs ! i)) = (if i = 0 then [] else hRecordHash (bHeader (bs ! (i - 1))))"
    and "hRecordHash (bHeader (bs ! i)) = hashBlock (bs ! i)"
    and "checkRoots (chainState (take (Suc i) bs)) (bHeader (bs ! i)) = Inr ()"
proof -
  have split: "bs = take i bs @ bs ! i # drop (Suc i) bs" using assms(2) by (simp add: id_take_nth_drop)
  have "wellLinked ([] @ take i bs) (bs ! i # drop (Suc i) bs)"
    using assms(1) by (subst (asm) split) (simp only: wellLinked_append)
  then show "hHeight (bHeader (bs ! i)) = of_nat (Suc i)"
    and "hPrevHash (bHeader (bs ! i)) = (if i = 0 then [] else hRecordHash (bHeader (bs ! (i - 1))))"
    and "hRecordHash (bHeader (bs ! i)) = hashBlock (bs ! i)"
    and "checkRoots (chainState (take (Suc i) bs)) (bHeader (bs ! i)) = Inr ()"
    using assms(2) by (auto simp: last_take take_Suc_conv_app_nth)
qed


lemma wellLinked_numbered: "wellLinked [] bs \<Longrightarrow> length bs < 2 ^ 64 \<Longrightarrow> numbered bs"
  unfolding numbered_def
  by (intro conjI nth_equalityI) (simp_all add: wellLinked_nth(1) del: upt_Suc of_nat_Suc)

subsection \<open>Versions\<close>

definition verOf :: "u64 \<times> Operation \<Rightarrow> version" where
  "verOf p = \<lparr>verHeight = fst p, verValue = slice (opValue (snd p)), verDeleted = opDelete (snd p)\<rparr>"

text \<open>Every operation of a list of blocks with the height of its block.\<close>

definition heightOps :: "Block list \<Rightarrow> (u64 \<times> Operation) list" where
  "heightOps bs = concat (map (\<lambda>b. map (Pair (hHeight (bHeader b))) (blockOps b)) bs)"

lemma versionsOf_applyOp:
  "versionsOf (applyOp h op c) k = versionsOf c k @ (if opKey op = k then [verOf (h, op)] else [])"
  by (simp add: applyOp_def versionsOf_def verOf_def)

lemma versionsOf_fold_applyOp:
  "versionsOf (fold (applyOp h) ops c) k =
     versionsOf c k @ map verOf (filter (\<lambda>p. opKey (snd p) = k) (map (Pair h) ops))"
  by (induction ops arbitrary: c) (simp_all add: versionsOf_applyOp)

lemma versionsOf_commitBlock:
  "versionsOf (commitBlock b c) k = versionsOf c k @
     map verOf (filter (\<lambda>p. opKey (snd p) = k) (map (Pair (hHeight (bHeader b))) (blockOps b)))"
  using versionsOf_fold_applyOp [of "hHeight (bHeader b)" "blockOps b" c k]
  by (simp add: commitBlock_def commit_loop Let_def blockOps_def versionsOf_def)

lemma applyAll_versions:
  "applyAll bs c = Inr c' \<Longrightarrow>
   versionsOf c' k = versionsOf c k @ map verOf (filter (\<lambda>p. opKey (snd p) = k) (heightOps bs))"
proof (induction bs arbitrary: c)
  case (Cons b bs)
  then obtain c1 where "applyLoaded b c = Inr c1" "applyAll bs c1 = Inr c'"
    by (auto split: sum.splits)
  with Cons.IH show ?case by (auto simp: applyLoaded_Inr versionsOf_commitBlock heightOps_def)
qed (simp add: heightOps_def)

lemma replayable_versions:
  "replayable c \<Longrightarrow> versionsOf c k = map verOf (filter (\<lambda>p. opKey (snd p) = k) (heightOps (cBlocks c)))"
  using applyAll_versions [of "cBlocks c" emptyChain c k]
  by (simp add: replayable_def emptyChain_def versionsOf_def)

lemma fmlookup_applyState:
  "fmlookup (applyState op s) k =
     (if opKey op = k then (if opDelete op then None else Some (slice (opValue op))) else fmlookup s k)"
  by (auto simp: applyState_def)

text \<open>The search from the end finds what the operations up to the height leave under the key.\<close>

lemma findVersion_runOps:
  "findVersion (rev (map verOf (filter (\<lambda>p. opKey (snd p) = k) ps))) h =
     fmlookup (runOps (map snd (filter (\<lambda>p. fst p \<le> h) ps)) fmempty) k"
  by (induction ps rule: rev_induct) (auto simp: fmlookup_applyState verOf_def)

lemma heightOps_upto:
  assumes "numbered bs"
  shows "map snd (filter (\<lambda>p. fst p \<le> h) (heightOps bs)) = concat (map blockOps (take (unat h) bs))"
  using assms
proof (induction bs rule: rev_induct)
  case (snoc b bs)
  then have IH: "map snd (filter (\<lambda>p. fst p \<le> h) (heightOps bs)) = concat (map blockOps (take (unat h) bs))"
    using numbered_prefix by blast
  have hb: "hHeight (bHeader b) = of_nat (Suc (length bs))" and len: "Suc (length bs) < 2 ^ 64"
    using snoc.prems by (simp_all add: numbered_def)
  have "hHeight (bHeader b) \<le> h \<longleftrightarrow> Suc (length bs) \<le> unat h"
    using len by (simp add: hb word_le_nat_alt unat_of_nat del: of_nat_Suc)
  then show ?case
    using IH by (auto simp: heightOps_def filter_empty_conv comp_def)
qed (simp add: heightOps_def)

lemma GetAt_replayable:
  assumes "replayable (eChain e)" and "length (cBlocks (eChain e)) < 2 ^ 64"
  shows "GetAt e key h = fmlookup (chainState (take (unat h) (cBlocks (eChain e)))) key"
proof -
  have "numbered (cBlocks (eChain e))"
    using assms by (intro wellLinked_numbered replayable_wellLinked)
  then show ?thesis
    by (simp add: GetAt_def replayable_versions [OF assms(1)] findVersion_runOps heightOps_upto chainState_def)
qed

subsection \<open>Opening and committing over a sound store\<close>

lemma setData_wal [simp]: "dWal (setData n c d) = dWal d" "dSnapshots (setData n c d) = dSnapshots d"
  by (simp_all add: setData_def)

lemma recoverAll_wal: "recoverAll env cx ids d idx = (r, d') \<Longrightarrow> dWal d' = dWal d"
  by (induction ids arbitrary: d idx)
    (auto simp: recoverSegment_def split: option.splits sum.splits prod.splits if_splits)

lemma openActive_wal: "openActive env d f = (r, d', f') \<Longrightarrow> dWal d' = dWal d"
  by (auto simp: openActive_def Let_def split: if_splits)

lemma Storage_Open_wal: "Storage_Open env cx d = (r, d') \<Longrightarrow> dWal d' = dWal d"
  by (auto simp: Storage_Open_def recoverSegments_def Let_def split: if_splits sum.splits prod.splits
      dest!: recoverAll_wal openActive_wal)

lemma rotate_wal: "rotate env d f = (r, d', f') \<Longrightarrow> dWal d' = dWal d"
  by (auto simp: rotate_def split: handle.splits if_splits dest!: openActive_wal)

lemma AppendBlock_wal: "AppendBlock env cx b d f = (r, d', f') \<Longrightarrow> dWal d' = dWal d"
  by (auto simp: AppendBlock_def Let_def split: option.splits if_splits sum.splits prod.splits handle.splits
      dest!: rotate_wal)

lemma store_rep_wal [simp]: "store_rep cx (d\<lparr>dWal := w\<rparr>, f) bs = store_rep cx (d, f) bs"
  by (simp add: store_rep_def files_rep_def disk_holds_def)

lemma Commit_healthy:
  assumes rep: "store_rep cx (d, eStore e) (cBlocks (eChain e))"
    and b: "prepareBlock now txs (eChain e) = Inr b" "gobEncode cx b = Some p" "length (frame cx p) \<le> defaultSegmentSize"
    and bound: "length (cBlocks (eChain e)) + 2 < 2 ^ 64"
  obtains d' e' where "Commit healthy cx now txs d e = (Inr b, d', e')" "eChain e' = commitBlock b (eChain e)"
    "dWal d' = None"
proof -
  let ?d = "d\<lparr>dWal := Some (frame cx p)\<rparr>"
  have "\<exists>s. storeAppend healthy cx b (?d, eStore e) = (Inr (), s)"
    by (rule storeAppend_healthy [of cx _ "cBlocks (eChain e)"]) (use rep b bound in \<open>simp_all add: blockFrame_def\<close>)
  then obtain d1 f where a: "AppendBlock healthy cx b ?d (eStore e) = (Inr (), d1, f)"
    by (auto simp: storeAppend_def)
  show ?thesis
    by (rule that [of "d1\<lparr>dWal := None\<rparr>" "e\<lparr>eStore := f, eChain := commitBlock b (eChain e)\<rparr>"])
      (use a AppendBlock_wal [OF a] in \<open>simp_all add: Commit_def b WriteWAL_def ClearWAL_def\<close>)
qed

lemma Engine_Open_emptyDisk:
  assumes "codec_laws cx"
  obtains e d where "Engine_Open healthy cx ag emptyDisk = (Inr e, d)" "eChain e = emptyChain"
    "store_rep cx (d, eStore e) []" "dWal d = None"
proof -
  obtain f d where o: "Storage_Open healthy cx emptyDisk = (Inr f, d)" and r: "store_rep cx (d, f) []"
    using log.opens_rep [OF dir_holds_emptyDisk [OF assms]] by blast
  have "dWal d = None" using Storage_Open_wal [OF o] by (simp add: emptyDisk_def)
  moreover have "ReadAll healthy cx d f = Inr []"
    using log.readAll_rep [OF r] by (simp add: storeReadAll_def)
  ultimately show ?thesis
    using o r by (intro that [of "\<lparr>eStore = f, eChain = emptyChain, eAirGapped = ag\<rparr>" d])
      (simp_all add: Engine_Open_def ReadWAL_def)
qed

subsection \<open>An example\<close>

definition exNow :: gotime where
  "exNow = hTimestamp (exHeader 1)"

definition exFirst :: Block where
  "exFirst = newBlock exNow emptyChain [exTx [7]] (fmupd ''a'' [7] fmempty)"

definition exChainCodec :: codec where
  "exChainCodec = tableCodec [exFirst]"

lemma exFirst_prepared: "prepareBlock exNow [exTx [7]] emptyChain = Inr exFirst"
proof -
  have "fmupd ''a'' [7::8 word] fmempty \<noteq> fmempty" by (simp add: fmupd_same_iff)
  then show ?thesis
    by (simp add: prepareBlock_def emptyChain_def exTx_def applyState_def exFirst_def)
qed

lemma exFirst_encoded: "codec_laws exChainCodec" "gobEncode exChainCodec exFirst = Some [1]"
  "length (frame exChainCodec [1]) \<le> defaultSegmentSize"
proof -
  have "frameBody exChainCodec [1] = [1]"
    by (simp add: exChainCodec_def tableCodec_def frameBody_def numeral_eq_Suc)
  then show "length (frame exChainCodec [1]) \<le> defaultSegmentSize"
    by (simp add: defaultSegmentSize_def)
  show "codec_laws exChainCodec" by (simp only: exChainCodec_def tableCodec_laws)
qed (simp add: exChainCodec_def tableCodec_def)

lemma exFirst_committed:
  obtains e d e' d' where "Engine_Open healthy exChainCodec False emptyDisk = (Inr e, d)" "eChain e = emptyChain"
    "Commit healthy exChainCodec exNow [exTx [7]] d e = (Inr exFirst, d', e')"
    "eChain e' = commitBlock exFirst emptyChain" "reachable exChainCodec d' e'"
proof -
  obtain e d where o: "Engine_Open healthy exChainCodec False emptyDisk = (Inr e, d)" "eChain e = emptyChain"
      "store_rep exChainCodec (d, eStore e) []"
    using Engine_Open_emptyDisk [OF exFirst_encoded(1), of False] by blast
  have p: "prepareBlock exNow [exTx [7]] (eChain e) = Inr exFirst" by (simp add: o exFirst_prepared)
  have r: "store_rep exChainCodec (d, eStore e) (cBlocks (eChain e))"
    using o by (simp add: emptyChain_def)
  have "length (cBlocks (eChain e)) + 2 < 2 ^ 64" by (simp add: o emptyChain_def)
  then obtain d' e' where c: "Commit healthy exChainCodec exNow [exTx [7]] d e = (Inr exFirst, d', e')"
      "eChain e' = commitBlock exFirst (eChain e)"
    using Commit_healthy [OF r p exFirst_encoded(2,3)] by blast
  from that [OF o(1,2) c(1)] c(2) o(2) reachable.committed [OF reachable.opened [OF o(1)] c(1)]
  show ?thesis by simp
qed

subsection \<open>Errors of Commit\<close>

lemma filterOps_Inl: "filterOps ops s = Inl x \<Longrightarrow> x = EmptyKeyError"
  by (induction ops arbitrary: s) (auto split: if_splits sum.splits prod.splits)

lemma filterTxs_Inl: "filterTxs txs s = Inl x \<Longrightarrow> x = EmptyKeyError \<or> x = TransactionIDRequired"
  by (induction txs arbitrary: s) (auto split: if_splits sum.splits prod.splits dest: filterOps_Inl)

lemma openActive_Inl: "openActive env d f = (Inl x, d', f') \<Longrightarrow> \<exists>c. x = IOFailed c \<and> c \<noteq> WalRemove"
  by (auto simp: openActive_def Let_def split: if_splits)

lemma rotate_Inl: "rotate env d f = (Inl x, d', f') \<Longrightarrow> \<exists>c. x = IOFailed c \<and> c \<noteq> WalRemove"
  by (auto simp: rotate_def split: handle.splits if_splits dest: openActive_Inl)

lemma AppendBlock_Inl:
  "AppendBlock env cx b d f = (Inl x, d', f') \<Longrightarrow>
   x = GobEncodeFailed \<or> x = RecordExceedsSegment \<or> (\<exists>c. x = IOFailed c \<and> c \<noteq> WalRemove)"
  by (auto simp: AppendBlock_def Let_def split: option.splits if_splits sum.splits prod.splits handle.splits
      dest: rotate_Inl)

lemma Commit_NoStateChange_iff:
  "fst (Commit env cx now txs d e) = Inl NoStateChange \<longleftrightarrow> prepareBlock now txs (eChain e) = Inl NoStateChange"
  by (auto simp: Commit_def WriteWAL_def ClearWAL_def Let_def split: sum.splits prod.splits option.splits if_splits
      dest: AppendBlock_Inl)

lemma prepareBlock_NoStateChange_iff:
  "prepareBlock now txs c = Inl NoStateChange \<longleftrightarrow>
   txs \<noteq> [] \<and> (\<forall>tx \<in> set txs. txID tx \<noteq> [] \<and>
     (\<forall>op \<in> set (txOps tx). opKey op \<noteq> [] \<and> applyState op (cState c) = cState c))"
  unfolding filterTxs_Nil_iff [symmetric]
  by (auto simp: prepareBlock_def split: if_splits sum.splits prod.splits dest: filterTxs_Inl)

lemma runOps_noop: "\<forall>op \<in> set ops. applyState op s = s \<Longrightarrow> runOps ops s = s"
  by (induction ops) auto

lemma Commit_runs:
  assumes "Commit env cx now txs d e = (r, d', e')" and "r = Inl NoStateChange \<or> \<not> isl r"
  shows "cState (eChain e') = runOps (concat (map txOps txs)) (cState (eChain e)) \<and>
    cBlocks (eChain e') = cBlocks (eChain e) @ (case r of Inl _ \<Rightarrow> [] | Inr b \<Rightarrow> [b])"
  using assms(1)
proof (cases rule: Commit_cases)
  case (rejected x)
  with assms(2) have "prepareBlock now txs (eChain e) = Inl NoStateChange" by auto
  then have "\<forall>op \<in> set (concat (map txOps txs)). applyState op (cState (eChain e)) = cState (eChain e)"
    by (auto simp: prepareBlock_NoStateChange_iff)
  with rejected show ?thesis by (simp add: runOps_noop del: set_concat)
next
  case (failed b x)
  with Commit_NoStateChange_iff [of env cx now txs d e] assms show ?thesis by auto
next
  case (committed b)
  with assms(2) prepareBlock_state [OF committed(1)] show ?thesis by auto
qed

lemma batchTxs_ops: "concat (map txOps (batchTxs w sender start ops)) = ops"
proof -
  have "map (\<lambda>p. [snd p]) (zip [start..<start + length ops] ops) = map (\<lambda>op. [op]) (map snd (zip [start..<start + length ops] ops))"
    by (simp only: map_map comp_def)
  then show ?thesis
    by (simp add: batchTxs_def NewTransaction_def comp_def case_prod_beta)
qed

lemma commitBatches_runs:
  assumes "0 < n"
  shows "commitBatches w cx sender n start ops d e = ((bs, None), d', e') \<Longrightarrow>
    cState (eChain e') = runOps ops (cState (eChain e)) \<and> cBlocks (eChain e') = cBlocks (eChain e) @ bs"
proof (induction "length ops" arbitrary: ops start d e bs d' e' rule: less_induct)
  case less
  note run = less.prems [unfolded commitBatches.simps [of w cx sender n start ops d e]]
  show ?case
  proof (cases "ops = []")
    case True
    with run show ?thesis by auto
  next
    case False
    then have shorter: "length (drop n ops) < length ops" using assms by auto
    obtain r1 d1 e1 where c: "Commit (wEnv w start) cx (wClock w start) (batchTxs w sender start (take n ops)) d e = (r1, d1, e1)"
      by (metis prod_cases3)
    from run False assms c obtain bs2 where r1: "r1 = Inl NoStateChange \<or> \<not> isl r1"
      and t: "commitBatches w cx sender n (start + n) (drop n ops) d1 e1 = ((bs2, None), d', e')"
      and bs: "bs = (case r1 of Inl _ \<Rightarrow> [] | Inr b \<Rightarrow> [b]) @ bs2"
      by (auto split: sum.splits prod.splits if_splits)
    have "runOps (drop n ops) (runOps (take n ops) (cState (eChain e))) = runOps ops (cState (eChain e))"
      by (simp flip: runOps_simps(3))
    with less.hyps [OF shorter t] Commit_runs [OF c r1] bs show ?thesis
      by (simp add: batchTxs_ops)
  qed
qed

lemma fold_countTx_counts:
  "cTxCount (fold countTx txs c) = cTxCount c + of_nat (length txs)"
  "cOpCount (fold countTx txs c) = cOpCount c + of_nat (length (concat (map txOps txs)))"
  by (induction txs arbitrary: c) (simp_all add: countTx_def)

lemma fold_applyOp_counts [simp]:
  "cTxCount (fold (applyOp h) ops c) = cTxCount c" "cOpCount (fold (applyOp h) ops c) = cOpCount c"
  by (induction ops arbitrary: c) simp_all

lemma applyAll_counts:
  "applyAll bs c = Inr c' \<Longrightarrow>
   cTxCount c' = cTxCount c + of_nat (length (concat (map bTransactions bs))) \<and>
   cOpCount c' = cOpCount c + of_nat (length (concat (map blockOps bs)))"
proof (induction bs arbitrary: c)
  case (Cons b bs)
  then obtain c1 where "applyLoaded b c = Inr c1" "applyAll bs c1 = Inr c'"
    by (auto split: sum.splits)
  with Cons.IH [of c1] show ?case
    by (auto simp: applyLoaded_Inr commitBlock_def commit_loop Let_def fold_countTx_counts blockOps_def)
qed simp

lemma replayable_counts:
  "replayable c \<Longrightarrow> cTxCount c = of_nat (length (concat (map bTransactions (cBlocks c)))) \<and>
     cOpCount c = of_nat (length (concat (map blockOps (cBlocks c))))"
  using applyAll_counts [of "cBlocks c" emptyChain c] by (simp add: replayable_def emptyChain_def)

lemma replayable_last:
  assumes "replayable c" and "cBlocks c \<noteq> []"
  defines "h \<equiv> bHeader (last (cBlocks c))"
  shows "hHeight h = of_nat (length (cBlocks c))" and "checkRoots (cState c) h = Inr ()" and "lastHash c = hRecordHash h"
proof -
  let ?i = "length (cBlocks c) - 1"
  note w = wellLinked_nth [OF replayable_wellLinked [OF assms(1)], of ?i]
  have "last (cBlocks c) = cBlocks c ! ?i" "Suc ?i = length (cBlocks c)"
    using assms(2) by (simp_all add: last_conv_nth)
  with w assms show "hHeight h = of_nat (length (cBlocks c))" and "checkRoots (cState c) h = Inr ()"
    and "lastHash c = hRecordHash h"
    by (simp_all add: replayable_state lastHash_def del: of_nat_Suc)
qed

lemma checkRoots_StateRoot: "checkRoots s h = Inr () \<Longrightarrow> StateRoot s = hStateRoot h"
  by (simp add: checkRoots_def split: if_splits)

lemma checkRoots_schema4:
  "checkRoots s h = Inr () \<Longrightarrow> 4 \<le> hSchema h \<Longrightarrow>
   contractAggregateRoot s = hContractRoot h \<and> PrefixRoot s ''account/'' = hAccountRoot h \<and>
   PrefixRoot s ''contract/code/'' = hContractCodeRoot h \<and>
   PrefixRoot s ''contract-storage/'' = hContractStorageRoot h \<and> PrefixRoot s ''log/'' = hLogRoot h \<and>
   PrefixRoot s ''zk/'' = hZKRoot h \<and> PrefixRoot s ''receipt/'' = hReceiptRoot h"
proof -
  assume c: "checkRoots s h = Inr ()" and s: "4 \<le> hSchema h"
  have "3 \<le> hSchema h" using s by (rule order_trans [rotated]) simp
  with c s show ?thesis by (simp add: checkRoots_def Let_def split: if_splits)
qed

lemma Block_at_iff:
  assumes "replayable (eChain e)" and "length (cBlocks (eChain e)) < 2 ^ 64"
  shows "Block_at e h = Some b \<longleftrightarrow> b \<in> set (cBlocks (eChain e)) \<and> hHeight (bHeader b) = h"
proof -
  let ?bs = "cBlocks (eChain e)"
  note w = wellLinked_nth(1) [OF replayable_wellLinked [OF assms(1)]]
  have range: "\<not> (h = 0 \<or> of_nat (length ?bs) < h) \<longleftrightarrow> 0 < unat h \<and> unat h \<le> length ?bs"
    using assms(2) by (auto simp: word_less_nat_alt unat_of_nat unat_gt_0)
  have u: "unat (h - 1) = unat h - 1" if "0 < unat h"
    using that by (simp add: unat_minus_one unat_gt_0)
  show ?thesis
  proof
    assume l: "Block_at e h = Some b"
    then have r: "0 < unat h" "unat h \<le> length ?bs" and b: "b = ?bs ! (unat h - 1)"
      using range u by (auto simp: Block_at_def Let_def split: if_splits)
    then show "b \<in> set ?bs \<and> hHeight (bHeader b) = h"
      using w [of "unat h - 1"] by (simp del: of_nat_Suc)
  next
    assume "b \<in> set ?bs \<and> hHeight (bHeader b) = h"
    then obtain i where i: "i < length ?bs" "b = ?bs ! i" "h = of_nat (Suc i)"
      using w by (auto simp: in_set_conv_nth)
    then have "unat h = Suc i" using assms(2) by (simp add: unat_of_nat del: of_nat_Suc)
    then show "Block_at e h = Some b"
      using range u i(1,2) by (auto simp: Block_at_def Let_def)
  qed
qed

subsection \<open>Properties\<close>

text \<open>
  C2: Commit and load agree. The block that \<open>Commit\<close> builds from any transactions on any chain
  passes every check of \<open>applyLoaded\<close> on that chain, and loading it makes exactly the change of
  blocks, state, versions and counters that \<open>Commit\<close> makes in memory.
\<close>

theorem Commit_block_loads:
  "prepareBlock now txs c = Inr b \<Longrightarrow> applyLoaded b c = Inr (commitBlock b c)"
  by (rule prepareBlock_loads)

theorem Commit_block_loads_witness:
  "applyLoaded exFirst emptyChain = Inr (commitBlock exFirst emptyChain)"
  by (rule Commit_block_loads [OF exFirst_prepared])

text \<open>
  C1: Every engine a process can hold verifies. Opened over any directory, after any commits
  and batches under any failures of the operating system, and while the files are changed
  behind its back, \<open>Verify\<close> replays the blocks in memory without an error.
\<close>

theorem reachable_verifies: "reachable cx d e \<Longrightarrow> Verify e = Inr ()"
  using reachable_replayable [of cx d e] by (simp add: replayable_def Verify_def)

theorem reachable_verifies_witness:
  "\<exists>e d. reachable exChainCodec d e \<and> cBlocks (eChain e) = [exFirst] \<and> Verify e = Inr ()"
proof (rule exFirst_committed)
  fix e d e' d'
  assume "eChain e' = commitBlock exFirst emptyChain" and r: "reachable exChainCodec d' e'"
  then have "cBlocks (eChain e') = [exFirst]" by (simp add: emptyChain_def)
  with reachable_verifies [OF r] r show ?thesis by blast
qed

text \<open>
  C27: The chain of a reachable engine is numbered and linked: block \<open>i\<close> (from 0) has height
  \<open>i + 1\<close>, carries the record hash of its predecessor (nothing for the first), its own record
  hash is the hash of its contents, and its state root is the root of the state that the
  operations of the blocks up to it leave.
\<close>

theorem reachable_chain_linked:
  assumes "reachable cx d e" and "i < length (cBlocks (eChain e))"
  shows "let b = cBlocks (eChain e) ! i in
     hHeight (bHeader b) = of_nat (Suc i) \<and>
     hPrevHash (bHeader b) = (if i = 0 then [] else hRecordHash (bHeader (cBlocks (eChain e) ! (i - 1)))) \<and>
     hRecordHash (bHeader b) = hashBlock b \<and>
     hStateRoot (bHeader b) = StateRoot (chainState (take (Suc i) (cBlocks (eChain e))))"
proof -
  note w = wellLinked_nth [OF replayable_wellLinked [OF reachable_replayable [OF assms(1)]] assms(2)]
  have "hStateRoot (bHeader (cBlocks (eChain e) ! i)) = StateRoot (chainState (take (Suc i) (cBlocks (eChain e))))"
    using w(4) by (simp add: checkRoots_def split: if_splits)
  with w(1-3) show ?thesis by (simp only: Let_def simp_thms)
qed

theorem reachable_chain_linked_witness:
  "\<exists>e d. reachable exChainCodec d e \<and> cBlocks (eChain e) = [exFirst] \<and>
     hStateRoot (bHeader exFirst) = StateRoot (chainState [exFirst])"
proof (rule exFirst_committed)
  fix e d e' d'
  assume "eChain e' = commitBlock exFirst emptyChain" and r: "reachable exChainCodec d' e'"
  then have b: "cBlocks (eChain e') = [exFirst]" by (simp add: emptyChain_def)
  with reachable_chain_linked [OF r, of 0] have "hStateRoot (bHeader exFirst) = StateRoot (chainState [exFirst])"
    by (simp add: Let_def)
  with b r show ?thesis by blast
qed

text \<open>
  C5: Time travel. In a reachable engine \<open>GetAt\<close> returns, for every key and every height, what
  the key has in the state after the first \<open>height\<close> blocks (all blocks for a height beyond the
  chain, the empty state for height 0), deletions and repeated writes in one block included.
\<close>

theorem GetAt_time_travel:
  "reachable cx d e \<Longrightarrow> length (cBlocks (eChain e)) < 2 ^ 64 \<Longrightarrow>
   GetAt e key h = fmlookup (chainState (take (unat h) (cBlocks (eChain e)))) key"
  using reachable_replayable by (rule GetAt_replayable)

theorem GetAt_time_travel_witness:
  "\<exists>e d. reachable exChainCodec d e \<and> GetAt e ''a'' 0 = None \<and> GetAt e ''a'' 1 = Some [7]"
proof (rule exFirst_committed)
  fix e d e' d'
  assume "eChain e' = commitBlock exFirst emptyChain" and r: "reachable exChainCodec d' e'"
  then have b: "cBlocks (eChain e') = [exFirst]" by (simp add: emptyChain_def)
  have "blockOps exFirst = txOps (exTx [7])" by (simp add: blockOps_def exFirst_def)
  with GetAt_time_travel [OF r] b have "GetAt e' ''a'' 0 = None" "GetAt e' ''a'' 1 = Some [7]"
    by (simp_all add: chainState_def exTx_def fmlookup_applyState)
  with r show ?thesis by blast
qed

text \<open>
  The state of a reachable engine is the result of running the operations of its blocks,
  in order, from the empty state, and \<open>Get\<close> reads it.
\<close>

theorem Get_reads_history:
  "reachable cx d e \<Longrightarrow>
   Get e key = (lookup0 (chainState (cBlocks (eChain e))) key,
                fmlookup (chainState (cBlocks (eChain e))) key \<noteq> None)"
  by (simp add: Get_def lookup0_def replayable_state reachable_replayable)

theorem Get_reads_history_witness:
  "\<exists>e d. reachable exChainCodec d e \<and> Get e ''a'' = ([7], True) \<and> Get e ''b'' = ([], False)"
proof (rule exFirst_committed)
  fix e d e' d'
  assume "eChain e' = commitBlock exFirst emptyChain" and r: "reachable exChainCodec d' e'"
  then have b: "cBlocks (eChain e') = [exFirst]" by (simp add: emptyChain_def)
  have "blockOps exFirst = txOps (exTx [7])" by (simp add: blockOps_def exFirst_def)
  with Get_reads_history [OF r] b have "Get e' ''a'' = ([7], True)" "Get e' ''b'' = ([], False)"
    by (simp_all add: chainState_def exTx_def fmlookup_applyState lookup0_def)
  with r show ?thesis by blast
qed

text \<open>
  C28: Suppressing no-op writes loses nothing: when \<open>Commit\<close> makes a block, the operations it
  keeps leave the same state as all operations of all the transactions in order, each of them
  changes the state it is applied to, and at least one is kept.
\<close>

theorem Commit_suppression_sound:
  "prepareBlock now txs c = Inr b \<Longrightarrow>
   cState (commitBlock b c) = runOps (concat (map txOps txs)) (cState c) \<and>
   effective (blockOps b) (cState c) \<and> blockOps b \<noteq> []"
  using prepareBlock_state [of now txs c b] by simp

theorem Commit_suppression_sound_witness:
  "cState (commitBlock exFirst emptyChain) = runOps (txOps (exTx [7])) fmempty"
  using Commit_suppression_sound [OF exFirst_prepared] by (simp add: emptyChain_def)

text \<open>
  \<open>Commit\<close> reports that nothing changed exactly when there is a transaction, every id and
  every key is present, and every single operation leaves the current state as it is; disk and
  engine are then untouched.
\<close>

theorem Commit_no_state_change:
  "Commit env cx now txs d e = (Inl NoStateChange, d, e) \<longleftrightarrow>
   txs \<noteq> [] \<and> (\<forall>tx \<in> set txs. txID tx \<noteq> [] \<and>
     (\<forall>op \<in> set (txOps tx). opKey op \<noteq> [] \<and> applyState op (cState (eChain e)) = cState (eChain e)))"
proof -
  have "Commit env cx now txs d e = (Inl NoStateChange, d, e)" if "prepareBlock now txs (eChain e) = Inl NoStateChange"
    using that by (simp add: Commit_def)
  then show ?thesis
    unfolding prepareBlock_NoStateChange_iff [of now txs "eChain e", symmetric]
    using Commit_NoStateChange_iff [of env cx now txs d e] by auto
qed

theorem Commit_no_state_change_witness:
  "Commit healthy exChainCodec exNow [exTx [7]] emptyDisk
     \<lparr>eStore = undefined, eChain = commitBlock exFirst emptyChain, eAirGapped = False\<rparr>
   = (Inl NoStateChange, emptyDisk, \<lparr>eStore = undefined, eChain = commitBlock exFirst emptyChain, eAirGapped = False\<rparr>)"
proof -
  have "cState (commitBlock exFirst emptyChain) = fmupd ''a'' [7] fmempty"
    by (simp add: blockOps_def exFirst_def exTx_def applyState_def emptyChain_def)
  then show ?thesis
    by (subst Commit_no_state_change) (simp add: exTx_def applyState_noop)
qed

text \<open>
  A commit that fails leaves blocks, state, versions and counters of the engine as they
  were, whatever step failed; the one exception is a failure to remove the write-ahead log
  after the block was stored, which is reported with the block committed. A commit that
  succeeds appends one block at the end of the chain.
\<close>

theorem Commit_outcomes:
  "Commit env cx now txs d e = (r, d', e') \<Longrightarrow>
   case r of
     Inl x \<Rightarrow> eChain e' = eChain e \<or>
       x = IOFailed WalRemove \<and> (\<exists>b. prepareBlock now txs (eChain e) = Inr b \<and> eChain e' = commitBlock b (eChain e))
   | Inr b \<Rightarrow> prepareBlock now txs (eChain e) = Inr b \<and> eChain e' = commitBlock b (eChain e) \<and>
       cBlocks (eChain e') = cBlocks (eChain e) @ [b]"
  by (erule Commit_cases) auto

theorem Commit_outcomes_witness:
  "\<exists>e d d' e'. Commit healthy exChainCodec exNow [exTx [7]] d e = (Inr exFirst, d', e') \<and>
     cBlocks (eChain e') = cBlocks (eChain e) @ [exFirst]"
proof (rule exFirst_committed)
  fix e d e' d'
  assume c: "Commit healthy exChainCodec exNow [exTx [7]] d e = (Inr exFirst, d', e')"
  from Commit_outcomes [OF c] c show ?thesis by auto
qed

text \<open>
  \<open>Block\<close> finds exactly the blocks of the chain by their height: it returns a block for a
  height if and only if the chain has that block and the block carries that height.
\<close>

theorem Block_lookup:
  "reachable cx d e \<Longrightarrow> length (cBlocks (eChain e)) < 2 ^ 64 \<Longrightarrow>
   Block_at e h = Some b \<longleftrightarrow> b \<in> set (cBlocks (eChain e)) \<and> hHeight (bHeader b) = h"
  using reachable_replayable by (rule Block_at_iff)

theorem Block_lookup_witness:
  "\<exists>e d. reachable exChainCodec d e \<and> Block_at e 1 = Some exFirst"
proof (rule exFirst_committed)
  fix e d e' d'
  assume "eChain e' = commitBlock exFirst emptyChain" and r: "reachable exChainCodec d' e'"
  then have b: "cBlocks (eChain e') = [exFirst]" by (simp add: emptyChain_def)
  have "hHeight (bHeader exFirst) = 1" by (simp add: exFirst_def nextHeight_def emptyChain_def)
  with Block_lookup [OF r, of 1 exFirst] b r show ?thesis by auto
qed

text \<open>
  The status report of a reachable engine is the last block's: its height and hash and its
  state root are those of the last header, for a block of schema 4 (all that \<open>Commit\<close> makes) so
  are the seven other roots, and the counters are the numbers of transactions and operations in
  the chain.
\<close>

theorem Status_reports_tip:
  assumes "reachable cx d e" and "cBlocks (eChain e) \<noteq> []"
  shows "let h = bHeader (last (cBlocks (eChain e))); s = Engine_Status env d' e in
    stHeight s = hHeight h \<and> stLatestHash s = hRecordHash h \<and> stStateRoot s = hStateRoot h \<and>
    stTransactions s = of_nat (length (concat (map bTransactions (cBlocks (eChain e))))) \<and>
    stOperations s = of_nat (length (concat (map blockOps (cBlocks (eChain e))))) \<and>
    (4 \<le> hSchema h \<longrightarrow> stContractRoot s = hContractRoot h \<and> stAccountRoot s = hAccountRoot h \<and>
       stContractCodeRoot s = hContractCodeRoot h \<and> stContractStorageRoot s = hContractStorageRoot h \<and>
       stLogRoot s = hLogRoot h \<and> stZKRoot s = hZKRoot h \<and> stReceiptRoot s = hReceiptRoot h)"
proof -
  note rep = reachable_replayable [OF assms(1)]
  note l = replayable_last [OF rep assms(2)]
  show ?thesis
    using replayable_counts [OF rep] l(1,3) checkRoots_StateRoot [OF l(2)] checkRoots_schema4 [OF l(2)]
    by (simp add: Engine_Status_def Let_def)
qed

theorem Status_reports_tip_witness:
  "\<exists>e d. reachable exChainCodec d e \<and> stStateRoot (Engine_Status healthy d e) = hStateRoot (bHeader exFirst) \<and>
     stTransactions (Engine_Status healthy d e) = 1"
proof (rule exFirst_committed)
  fix e d e' d'
  assume "eChain e' = commitBlock exFirst emptyChain" and r: "reachable exChainCodec d' e'"
  then have b: "cBlocks (eChain e') = [exFirst]" by (simp add: emptyChain_def)
  have "bTransactions exFirst = [exTx [7]]" by (simp add: exFirst_def)
  with Status_reports_tip [OF r, of healthy d'] b r show ?thesis by (auto simp: Let_def)
qed

text \<open>
  C29: \<open>CommitOperations\<close> that ends without an error leaves the state that running all its
  operations in order leaves, whatever the batch size, and returns the blocks it added to the
  chain; batches that changed nothing are passed over.
\<close>

theorem CommitOperations_runs:
  "CommitOperations w cx ops sender batchSize d e = ((bs, None), d', e') \<Longrightarrow>
   cState (eChain e') = runOps ops (cState (eChain e)) \<and> cBlocks (eChain e') = cBlocks (eChain e) @ bs"
  by (erule CommitOperations_cases) (auto dest: commitBatches_runs [rotated])

theorem CommitOperations_runs_witness:
  "let op = \<lparr>opKey = ''a'', opValue = Some [7], opDelete = False\<rparr>;
       w = \<lparr>wRandom = (\<lambda>i. [1]), wTxClock = (\<lambda>i. exNow), wClock = (\<lambda>i. exNow), wEnv = (\<lambda>i. healthy)\<rparr>
   in \<exists>d e d' e'. CommitOperations w exChainCodec [op] ''s'' 0 d e = (([exFirst], None), d', e') \<and>
        cState (eChain e') = runOps [op] (cState (eChain e)) \<and> cBlocks (eChain e') = cBlocks (eChain e) @ [exFirst]"
proof -
  let ?op = "\<lparr>opKey = ''a'', opValue = Some [7], opDelete = False\<rparr>"
  let ?w = "\<lparr>wRandom = (\<lambda>i. [1]), wTxClock = (\<lambda>i. exNow), wClock = (\<lambda>i. exNow), wEnv = (\<lambda>i. healthy)\<rparr>"
  have tx: "batchTxs ?w ''s'' 0 [?op] = [exTx [7]]"
    by (simp add: batchTxs_def NewTransaction_def exTx_def exNow_def hex_char_def hexdigits_def)
  obtain e d e' d' where c: "Commit healthy exChainCodec exNow [exTx [7]] d e = (Inr exFirst, d', e')"
    by (rule exFirst_committed)
  have run: "CommitOperations ?w exChainCodec [?op] ''s'' 0 d e = (([exFirst], None), d', e')"
    by (simp add: CommitOperations_def commitBatches.simps tx c signed_divide_int_def Let_def)
  from CommitOperations_runs [OF run] run show ?thesis by (auto simp: Let_def)
qed

text \<open>
  A proof served by a reachable engine for a present key verifies and is rooted in the
  state root of the last block's header.
\<close>

theorem Engine_StateProof_verifies:
  "reachable cx d e \<Longrightarrow> fmlookup (chainState (cBlocks (eChain e))) key = Some v \<Longrightarrow> cBlocks (eChain e) \<noteq> [] \<Longrightarrow>
   VerifyProof (Engine_StateProof e key) \<and> pValue (Engine_StateProof e key) = v \<and>
   pRoot (Engine_StateProof e key) = hStateRoot (bHeader (last (cBlocks (eChain e))))"
  using reachable_replayable [of cx d e] replayable_last(2) [of "eChain e"] replayable_state [of "eChain e"]
    StateProof_correct [of "cState (eChain e)" key]
  by (auto simp: Engine_StateProof_def lookup0_def dest!: checkRoots_StateRoot)

theorem Engine_StateProof_verifies_witness:
  "\<exists>e d. reachable exChainCodec d e \<and> VerifyProof (Engine_StateProof e ''a'') \<and>
     pRoot (Engine_StateProof e ''a'') = hStateRoot (bHeader exFirst)"
proof (rule exFirst_committed)
  fix e d e' d'
  assume "eChain e' = commitBlock exFirst emptyChain" and r: "reachable exChainCodec d' e'"
  then have b: "cBlocks (eChain e') = [exFirst]" by (simp add: emptyChain_def)
  have "blockOps exFirst = txOps (exTx [7])" by (simp add: blockOps_def exFirst_def)
  then have "fmlookup (chainState [exFirst]) ''a'' = Some [7]"
    by (simp add: chainState_def exTx_def fmlookup_applyState)
  with Engine_StateProof_verifies [OF r, of "''a''" "[7]"] b r show ?thesis by auto
qed

end
