(* ===== verification/EngineStore.thy ===== *)
theory EngineStore
  imports EngineChain
begin

text \<open>
  The engine over its store: what is left in the directory by a commit that any operating-system
  failure, or a crash, cuts short, and which chain opening the directory then gives. A crash at
  a call is the failure of that call with nothing after it; the lock file it leaves behind is
  removed by the operator. The last part shows where the program falls short of this contract.
\<close>

subsection \<open>Opening a directory that a crash may have left\<close>

definition opens_to :: "codec \<Rightarrow> disk \<Rightarrow> Block list \<Rightarrow> bool" where
  "opens_to cx d bs \<longleftrightarrow> (\<exists>f d'. Storage_Open healthy cx d = (Inr f, d') \<and> store_rep cx (d', f) bs \<and> dWal d' = dWal d)"

lemma opens_to_clean: "dir_holds cx d bs \<Longrightarrow> opens_to cx d bs"
  using log.opens_rep [of cx d bs] Storage_Open_wal unfolding opens_to_def by blast

text \<open>The last segment ends in the first \<open>n\<close> bytes of a block's frame, all of them or not.\<close>

lemma opens_to_torn:
  assumes cx: "codec_laws cx" and h: "disk_holds cx d (css @ [bs])" and lock: "\<not> dLock d" and b: "storable cx b"
    and num: "numbered (concat (css @ [bs]) @ [b])" and len: "[] \<notin> set css" and n: "n \<noteq> 16"
  shows "opens_to cx (setData (of_nat (Suc (length css))) (segBytes cx bs @ take n (blockFrame cx b)) d)
    (if length (blockFrame cx b) \<le> n then concat (css @ [bs]) @ [b] else concat (css @ [bs]))"
proof (cases "length (blockFrame cx b) \<le> n")
  case True
  have "disk_holds cx (setData (of_nat (Suc (length css))) (segBytes cx bs @ blockFrame cx b) d) (css @ [bs @ [b]])"
    using h b by (rule disk_holds_grow)
  moreover have "numbered (concat (css @ [bs @ [b]]))" using num by simp
  moreover have "\<not> dLock (setData (of_nat (Suc (length css))) (segBytes cx bs @ blockFrame cx b) d)"
    using lock by (simp add: setData_def)
  ultimately have "dir_holds cx (setData (of_nat (Suc (length css))) (segBytes cx bs @ blockFrame cx b) d) (concat (css @ [bs]) @ [b])"
    unfolding dir_holds_def using cx len by (intro conjI exI [of _ "css @ [bs @ [b]]"]) (simp_all add: tight_snoc)
  with True show ?thesis by (simp add: opens_to_clean)
next
  case False
  obtain f d' where o: "Storage_Open healthy cx
       (setData (of_nat (Suc (length css))) (segBytes cx bs @ take n (blockFrame cx b)) d) = (Inr f, d')"
     "files_rep cx d' f (css @ [bs])" "dLock d'" "dWal d' = dWal d"
    using Storage_Open_repairs_torn_tail_lemma [OF cx h lock b _ n] False by auto
  have "store_rep cx (d', f) (concat (css @ [bs]))"
    unfolding store_rep_def using o cx len numbered_prefix [OF num]
    by (intro conjI exI [of _ "css @ [bs]"]) (simp_all add: tight_snoc)
  with o False show ?thesis unfolding opens_to_def by auto
qed

lemma Engine_Open_no_wal:
  assumes "opens_to cx d bs" and st: "\<forall>b \<in> set bs. gobBlock b = b" and c: "applyAll bs emptyChain = Inr c"
    and w: "dWal d = None"
  shows "\<exists>e d'. Engine_Open healthy cx ag d = (Inr e, d') \<and> eChain e = c \<and>
    store_rep cx (d', eStore e) bs \<and> dWal d' = None"
proof -
  obtain f d1 where o: "Storage_Open healthy cx d = (Inr f, d1)" "store_rep cx (d1, f) bs" "dWal d1 = None"
    using assms by (auto simp: opens_to_def)
  have "map gobBlock bs = bs" using st by (simp add: map_idI)
  then have "ReadAll healthy cx d1 f = Inr bs"
    using log.readAll_rep [OF o(2)] by (simp add: storeReadAll_def)
  with o c show ?thesis by (simp add: Engine_Open_def ReadWAL_def)
qed

lemma ReadWAL_frame:
  assumes "codec_laws cx" and "gobEncode cx b = Some p" and "length (frame cx p) \<le> defaultSegmentSize" and "dWal d = Some (frame cx p)"
  shows "ReadWAL healthy cx d = Inr (Some (gobBlock b))"
proof -
  have "length (frameBody cx p) \<le> maxRecordSize" using assms(3) by (simp add: max_eq_default)
  with readFrame_frame [OF assms(1) codec_lawsD(1) [OF assms(1,2)], of "[]"]
  show ?thesis by (simp add: ReadWAL_def assms(4) codec_lawsD(2) [OF assms(1,2)])
qed

lemma Engine_Open_wal:
  assumes cx: "codec_laws cx" and op: "opens_to cx d bs" and st: "\<forall>b \<in> set bs. gobBlock b = b" and c: "applyAll bs emptyChain = Inr c"
    and w: "dWal d = Some (frame cx p)" and b: "gobEncode cx b = Some p" "length (frame cx p) \<le> defaultSegmentSize" "gobBlock b = b"
    and cases: "bs \<noteq> [] \<and> hRecordHash (bHeader (last bs)) = hRecordHash (bHeader b) \<and> bs' = bs \<and> c' = c \<or>
      (bs = [] \<or> hRecordHash (bHeader (last bs)) \<noteq> hRecordHash (bHeader b)) \<and>
        applyLoaded b c = Inr c' \<and> bs' = bs @ [b] \<and> length bs + 2 < 2 ^ 64 \<and> numbered (bs @ [b])"
  shows "\<exists>e d'. Engine_Open healthy cx ag d = (Inr e, d') \<and> eChain e = c' \<and>
    store_rep cx (d', eStore e) bs' \<and> dWal d' = None"
proof -
  obtain f d1 where o: "Storage_Open healthy cx d = (Inr f, d1)" and rep: "store_rep cx (d1, f) bs" and w1: "dWal d1 = Some (frame cx p)"
    using op w by (auto simp: opens_to_def)
  have "map gobBlock bs = bs" using st by (simp add: map_idI)
  then have r: "ReadAll healthy cx d1 f = Inr bs"
    using log.readAll_rep [OF rep] by (simp add: storeReadAll_def)
  have wal: "ReadWAL healthy cx d1 = Inr (Some b)"
    using ReadWAL_frame [OF cx b(1,2) w1] b(3) by simp
  have blocks: "cBlocks c = bs" using applyAll_blocks [OF c] by (simp add: emptyChain_def)
  from cases show ?thesis
  proof
    assume "bs \<noteq> [] \<and> hRecordHash (bHeader (last bs)) = hRecordHash (bHeader b) \<and> bs' = bs \<and> c' = c"
    with o r c wal blocks rep w1 show ?thesis
      by (simp add: Engine_Open_def ClearWAL_def)
  next
    assume "(bs = [] \<or> hRecordHash (bHeader (last bs)) \<noteq> hRecordHash (bHeader b)) \<and>
        applyLoaded b c = Inr c' \<and> bs' = bs @ [b] \<and> length bs + 2 < 2 ^ 64 \<and> numbered (bs @ [b])"
    then have new: "bs = [] \<or> hRecordHash (bHeader (last bs)) \<noteq> hRecordHash (bHeader b)"
      and l: "applyLoaded b c = Inr c'" "bs' = bs @ [b]" and num: "length bs + 2 < 2 ^ 64" "numbered (bs @ [b])"
      by blast+
    obtain d2 f2 where a: "storeAppend healthy cx b (d1, f) = (Inr (), d2, f2)"
      using storeAppend_healthy [OF rep, of b] b num by (auto simp: blockFrame_def)
    have "store_rep cx (d2, f2) (bs @ [b])"
      using rep num(2,1) a by (rule log.append_rep)
    moreover have "dWal d2 \<noteq> None" using AppendBlock_wal [of healthy cx b d1 f] a w1 by (auto simp: storeAppend_def)
    ultimately show ?thesis
      using o r c wal blocks new l a by (auto simp: Engine_Open_def storeAppend_def ClearWAL_def)
  qed
qed

subsection \<open>What a failing append leaves on the disk\<close>

lemma AppendBlock_disk:
  assumes rep: "files_rep cx d f bss" and p: "gobEncode cx b = Some p" "length (frame cx p) \<le> defaultSegmentSize"
    and tight: "tight bss" and bound: "Suc (length bss) < 2 ^ 64" and run: "AppendBlock env cx b d f = (r, d', f')"
  obtains css bs base n where "disk_holds cx base (css @ [bs])" "concat (css @ [bs]) = concat bss"
    "[] \<notin> set css" "dWal base = dWal d" "dLock base = dLock d"
    "d' = setData (of_nat (Suc (length css))) (segBytes cx bs @ take n (blockFrame cx b)) base"
    "n = 0 \<or> n = shortWrite env \<or> length (blockFrame cx b) \<le> n" "r = Inr () \<longrightarrow> length (blockFrame cx b) \<le> n"
proof -
  from rep obtain css bs where bss: "bss = css @ [bs]"
    by (cases bss rule: rev_cases) (auto simp: files_rep_def)
  let ?n = "Suc (length css)" and ?m = "of_nat (Suc (length bss)) :: u64" and ?fr = "blockFrame cx b"
  have fr: "?fr = frame cx p" by (simp add: blockFrame_def p)
  have f: "fActiveID f = of_nat ?n" "fActive f = OpenFile (of_nat ?n)" "fActiveSize f = length (segBytes cx bs)"
     "fSegmentSize f = defaultSegmentSize" and h: "disk_holds cx d (css @ [bs])"
    using rep by (simp_all add: files_rep_def bss)
  have content: "dataFile d (of_nat ?n) = segBytes cx bs" and same: "d = setData (of_nat ?n) (segBytes cx bs @ take 0 ?fr) d"
    using disk_holds_last [OF h] by (simp_all add: dataFile_def setData_same)
  have hm: "disk_holds cx (setData ?m [] d) (bss @ [[]])"
    using disk_holds_snoc_segment [of cx d bss "[]"] h bound bss by simp
  have m: "?m = of_nat ?n + 1" "?m \<noteq> 0"
    using bound of_nat_eq_u64 [of "Suc (length bss)" 0] by (simp_all add: bss del: of_nat_Suc) simp
  show ?thesis
  proof (cases "length (segBytes cx bs) + length ?fr \<le> defaultSegmentSize")
    case True
    have "\<exists>n. d' = setData (of_nat ?n) (segBytes cx bs @ take n ?fr) d \<and>
        (n = shortWrite env \<or> length ?fr \<le> n) \<and> (r = Inr () \<longrightarrow> length ?fr \<le> n)"
    proof (cases "fails env SegmentWrite")
      case w: True
      have "r = Inl (IOFailed SegmentWrite) \<and> d' = setData (of_nat ?n) (segBytes cx bs @ take (shortWrite env) ?fr) d"
        using run True p f content w by (simp add: AppendBlock_def Let_def fr not_less)
      then show ?thesis by (intro exI [of _ "shortWrite env"]) simp
    next
      case w: False
      have "d' = setData (of_nat ?n) (segBytes cx bs @ ?fr) d"
        using run True p f content w by (auto simp: AppendBlock_def Let_def fr not_less split: if_splits)
      then show ?thesis by (intro exI [of _ "length ?fr"]) simp
    qed
    then show ?thesis using that [of d css bs] h bss tight by (auto simp: tight_snoc)
  next
    case False
    have full: "[] \<notin> set bss"
      using tight False p by (auto simp: bss tight_snoc fr)
    have "segmentPath ?m \<notin> fmdom' (dData d)"
      using h bound by (auto simp: bss disk_holds_def segIds_def of_nat_eq_u64 simp del: of_nat_Suc upt_Suc)
    then have fresh: "fmlookup (dData d) (segmentPath ?m) = None"
      by (simp add: fmdom'_notD)
    consider (before) "fails env SyncActive \<or> fails env CloseActive \<or> fails env OpenActive"
      | (stat) "\<not> (fails env SyncActive \<or> fails env CloseActive \<or> fails env OpenActive)" "fails env StatActive"
      | (opened) "\<not> (fails env SyncActive \<or> fails env CloseActive \<or> fails env OpenActive)" "\<not> fails env StatActive"
      by blast
    then show ?thesis
    proof cases
      case before
      then have "r \<noteq> Inr ()" "d' = d"
        using run False p f by (auto simp: AppendBlock_def rotate_def openActive_def Let_def fr not_less split: if_splits)
      with that [of d css bs 0] h bss same tight_snoc tight show ?thesis by simp
    next
      case stat
      then have "r \<noteq> Inr ()" "d' = setData ?m [] d"
        using run False p f fresh m by (auto simp: AppendBlock_def rotate_def openActive_def Let_def fr not_less)
      with that [of "setData ?m [] d" bss "[]" 0] hm bss full show ?thesis by (simp add: setData_setData)
    next
      case opened
      show ?thesis
      proof (cases "fails env SegmentWrite")
        case w: True
        have "r \<noteq> Inr ()" "d' = setData ?m (take (shortWrite env) ?fr) (setData ?m [] d)"
          using run False p f fresh m opened w
          by (auto simp: AppendBlock_def rotate_def openActive_def Let_def fr not_less)
        with that [of "setData ?m [] d" bss "[]" "shortWrite env"] hm bss full show ?thesis by simp
      next
        case w: False
        have "d' = setData ?m ?fr (setData ?m [] d)"
          using run False p f fresh m opened w
          by (auto simp: AppendBlock_def rotate_def openActive_def Let_def fr not_less split: if_splits)
        with that [of "setData ?m [] d" bss "[]" "length ?fr"] hm bss full show ?thesis by simp
      qed
    qed
  qed
qed

subsection \<open>The engine and its directory\<close>

definition wal_ok :: "codec \<Rightarrow> disk \<Rightarrow> Block list \<Rightarrow> bool" where
  "wal_ok cx d bs \<longleftrightarrow> dWal d = None \<or>
     (\<exists>p. bs \<noteq> [] \<and> gobEncode cx (last bs) = Some p \<and> dWal d = Some (frame cx p) \<and>
        length (frame cx p) \<le> defaultSegmentSize)"

definition engine_rep :: "codec \<Rightarrow> disk \<Rightarrow> Engine \<Rightarrow> bool" where
  "engine_rep cx d e \<longleftrightarrow>
     store_rep cx (d, eStore e) (cBlocks (eChain e)) \<and> replayable (eChain e) \<and>
     (\<forall>b \<in> set (cBlocks (eChain e)). gobBlock b = b) \<and> wal_ok cx d (cBlocks (eChain e))"

lemma setData_dWal: "setData n c (d\<lparr>dWal := w\<rparr>) = (setData n c d)\<lparr>dWal := w\<rparr>"
  by (simp add: setData_def)

lemma disk_holds_dWal [simp]: "disk_holds cx (d\<lparr>dWal := w\<rparr>) bss = disk_holds cx d bss"
  by (simp add: disk_holds_def)

lemma disk_eta [simp]: "(d\<lparr>dWal := dWal d\<rparr>) = (d::disk)"
  by simp

lemma store_rep_unlock:
  assumes "store_rep cx (d, f) bs"
  shows "opens_to cx (d\<lparr>dLock := False\<rparr>) bs"
proof -
  obtain bss where "files_rep cx d f bss" "concat bss = bs" "tight bss"
    using assms by (auto simp: store_rep_def)
  with assms have "dir_holds cx (d\<lparr>dLock := False\<rparr>) bs"
    by (auto simp: dir_holds_def store_rep_def files_rep_def)
  then show ?thesis by (rule opens_to_clean)
qed

lemma store_rep_laws: "store_rep cx s bs \<Longrightarrow> codec_laws cx \<and> numbered bs"
  by (simp add: store_rep_def)

text \<open>Opening again after the lock is gone gives the same chain.\<close>

lemma engine_rep_reopens:
  assumes rep: "engine_rep cx d e"
  shows "\<exists>e2 d2. Engine_Open healthy cx ag (d\<lparr>dLock := False\<rparr>) = (Inr e2, d2) \<and>
    engine_rep cx d2 e2 \<and> eChain e2 = eChain e \<and> dWal d2 = None"
proof -
  let ?d = "d\<lparr>dLock := False\<rparr>" and ?bs = "cBlocks (eChain e)"
  have st: "store_rep cx (d, eStore e) ?bs" and stable: "\<forall>b \<in> set ?bs. gobBlock b = b"
    and c: "applyAll ?bs emptyChain = Inr (eChain e)" and w: "wal_ok cx d ?bs"
    using rep by (simp_all add: engine_rep_def replayable_def)
  note op = store_rep_unlock [OF st]
  have "\<exists>e2 d2. Engine_Open healthy cx ag ?d = (Inr e2, d2) \<and> eChain e2 = eChain e \<and>
      store_rep cx (d2, eStore e2) ?bs \<and> dWal d2 = None"
  proof (cases "dWal d")
    case None
    then show ?thesis using Engine_Open_no_wal [OF op stable c] by simp
  next
    case (Some x)
    then obtain p where p: "?bs \<noteq> []" "gobEncode cx (last ?bs) = Some p" "dWal ?d = Some (frame cx p)"
       "length (frame cx p) \<le> defaultSegmentSize"
      using w by (auto simp: wal_ok_def)
    then show ?thesis
      using Engine_Open_wal [OF _ op stable c p(3,2,4), of ?bs "eChain e"] stable store_rep_laws [OF st] by simp
  qed
  with rep show ?thesis by (auto simp: engine_rep_def wal_ok_def)
qed

subsection \<open>Commits and crashes\<close>

lemma Commit_store_rep:
  assumes st: "store_rep cx (d, eStore e) (cBlocks (eChain e))" and rp: "replayable (eChain e)"
    and b: "prepareBlock now txs (eChain e) = Inr b"
    and len: "length (cBlocks (eChain e)) + 2 < 2 ^ 64"
    and run: "Commit env cx now txs d e = (r, d', e')" and r: "r = Inr b \<or> r = Inl (IOFailed WalRemove)"
  shows "store_rep cx (d', eStore e') (cBlocks (eChain e) @ [b]) \<and> wal_ok cx d' (cBlocks (eChain e) @ [b]) \<and>
    eChain e' = commitBlock b (eChain e)"
proof -
  let ?bs = "cBlocks (eChain e)"
  note rp' = replayable_commitBlock [OF rp b(1)]
  have num: "numbered (?bs @ [b])"
    using wellLinked_numbered [OF replayable_wellLinked [OF rp']] len by simp
  show ?thesis
  proof (cases "gobEncode cx b")
    case None
    then show ?thesis using run r by (auto simp: Commit_def b WriteWAL_def)
  next
    case (Some p)
    let ?d = "d\<lparr>dWal := Some (frame cx p)\<rparr>"
    have "\<not> fails env WalWrite" using run r Some by (auto simp: Commit_def b WriteWAL_def)
    then obtain ra d2 f2 where a: "AppendBlock env cx b ?d (eStore e) = (ra, d2, f2)"
      and c: "Commit env cx now txs d e = (case ra of Inl x \<Rightarrow> (Inl x, d2, e\<lparr>eStore := f2\<rparr>)
         | Inr _ \<Rightarrow> (case ClearWAL env d2 of (Inl x, d3) \<Rightarrow> (Inl x, d3, e\<lparr>eStore := f2, eChain := commitBlock b (eChain e)\<rparr>)
            | (Inr _, d3) \<Rightarrow> (Inr b, d3, e\<lparr>eStore := f2, eChain := commitBlock b (eChain e)\<rparr>)))"
      by (cases "AppendBlock env cx b ?d (eStore e)") (auto simp: Commit_def b WriteWAL_def Some Let_def split: sum.splits)
    have ok: "ra = Inr ()"
      using c run r AppendBlock_Inl [of env cx b ?d "eStore e" _ d2 f2] a by (cases ra) auto
    have e': "e' = e\<lparr>eStore := f2, eChain := commitBlock b (eChain e)\<rparr>" and d': "d' = d2 \<or> d' = d2\<lparr>dWal := None\<rparr>"
      using run c ok by (auto simp: ClearWAL_def split: if_splits)
    have "store_rep cx (d2, f2) (?bs @ [b])"
      using log.append_rep [of cx "(?d, eStore e)" ?bs b env "(d2, f2)"] st num len a ok by (simp add: storeAppend_def)
    moreover have "dWal d2 = Some (frame cx p)" using AppendBlock_wal [OF a] by simp
    moreover have "length (frame cx p) \<le> defaultSegmentSize"
    proof -
      have "fst (AppendBlock env cx b ?d (eStore e)) = Inr ()" using a ok by simp
      then have "length (blockFrame cx b) \<le> fSegmentSize (eStore e)" by (rule AppendBlock_size)
      with st Some show ?thesis by (auto simp: store_rep_def files_rep_def blockFrame_def)
    qed
    ultimately have "store_rep cx (d', f2) (?bs @ [b])" "wal_ok cx d' (?bs @ [b])"
      using d' Some by (auto simp: wal_ok_def)
    then show ?thesis by (simp add: e')
  qed
qed

lemma Commit_engine_rep:
  assumes rep: "engine_rep cx d e" and b: "prepareBlock now txs (eChain e) = Inr b" "gobBlock b = b"
    and len: "length (cBlocks (eChain e)) + 2 < 2 ^ 64"
    and run: "Commit env cx now txs d e = (r, d', e')" and r: "r = Inr b \<or> r = Inl (IOFailed WalRemove)"
  shows "engine_rep cx d' e' \<and> eChain e' = commitBlock b (eChain e)"
  using Commit_store_rep [OF _ _ b(1) len run r] replayable_commitBlock [OF _ b(1)] rep b(2)
  by (auto simp: engine_rep_def)

lemma disk_eq_unlock_wal: "(d::disk)\<lparr>dWal := w, dLock := False\<rparr> = d\<lparr>dLock := False, dWal := w\<rparr>"
  by simp

text \<open>
  The segments after an append that a failure cut at \<open>n\<close> bytes, with any write-ahead log: the
  block is among those found by the next opening exactly when its whole record was written.
\<close>

lemma AppendBlock_then_open:
  assumes st: "store_rep cx (d, f) bs" and num: "numbered (bs @ [b])" and len: "length bs + 2 < 2 ^ 64"
    and p: "gobEncode cx b = Some p" "length (frame cx p) \<le> defaultSegmentSize"
    and run: "AppendBlock env cx b d f = (r, d', f')" and n16: "shortWrite env \<noteq> 16"
  shows "opens_to cx (d'\<lparr>dLock := False, dWal := w\<rparr>) bs \<and> r \<noteq> Inr () \<or> opens_to cx (d'\<lparr>dLock := False, dWal := w\<rparr>) (bs @ [b])"
proof -
  obtain bss where rep: "files_rep cx d f bss" and bss: "concat bss = bs" "tight bss"
    using st by (auto simp: store_rep_def)
  have "Suc (length bss) < 2 ^ 64" using tight_length [OF bss(2)] bss(1) len by simp
  then obtain css ls base n where h: "disk_holds cx base (css @ [ls])" and eq: "concat (css @ [ls]) = concat bss"
    and le: "[] \<notin> set css"
    and d': "d' = setData (of_nat (Suc (length css))) (segBytes cx ls @ take n (blockFrame cx b)) base"
    and n: "n = 0 \<or> n = shortWrite env \<or> length (blockFrame cx b) \<le> n" "r = Inr () \<longrightarrow> length (blockFrame cx b) \<le> n"
    by (rule AppendBlock_disk [OF rep p bss(2) _ run])
  have cx: "codec_laws cx" using store_rep_laws [OF st] by simp
  have len_b: "16 < length (blockFrame cx b)"
    using codec_lawsD(1) [OF cx p(1)] frameBody_not_Nil [OF cx, of p] by (simp add: blockFrame_def p)
  have sb: "storable cx b" using p by (auto simp: storable_def max_eq_default)
  let ?base = "base\<lparr>dLock := False, dWal := w\<rparr>"
  have d'': "d'\<lparr>dLock := False, dWal := w\<rparr> = setData (of_nat (Suc (length css))) (segBytes cx ls @ take n (blockFrame cx b)) ?base"
    by (simp add: d' setData_def)
  have h': "disk_holds cx ?base (css @ [ls])" using h by (simp add: disk_holds_def)
  have num': "numbered (concat (css @ [ls]) @ [b])" using num eq bss by simp
  have "n \<noteq> 16" using n(1) n16 len_b by auto
  have "\<not> dLock ?base" by simp
  from opens_to_torn [OF cx h' this sb num' le \<open>n \<noteq> 16\<close>]
  have op: "opens_to cx (d'\<lparr>dLock := False, dWal := w\<rparr>) (if length (blockFrame cx b) \<le> n then bs @ [b] else bs)"
    unfolding d'' eq bss(1) .
  show ?thesis
  proof (cases "length (blockFrame cx b) \<le> n")
    case True
    with op show ?thesis by simp
  next
    case False
    with n(2) have "r \<noteq> Inr ()" by simp
    with op False show ?thesis by simp
  qed
qed


text \<open>
  The write-ahead log is the commit point: whatever fails later, opening the directory gives the
  chain with the block, and if writing the log failed, the chain without it.
\<close>

lemma Commit_crash:
  assumes rep: "engine_rep cx d e" and b: "prepareBlock now txs (eChain e) = Inr b" "gobBlock b = b"
    and p: "gobEncode cx b = Some p" "length (frame cx p) \<le> defaultSegmentSize"
    and len: "length (cBlocks (eChain e)) + 2 < 2 ^ 64" and fresh: "hRecordHash (bHeader b) \<noteq> lastHash (eChain e)"
    and n16: "shortWrite env \<noteq> 16" and run: "Commit env cx now txs d e = (r, d', e')"
  shows "\<exists>e2 d2. Engine_Open healthy cx ag (d'\<lparr>dLock := False\<rparr>) = (Inr e2, d2) \<and> engine_rep cx d2 e2 \<and>
    eChain e2 = (if fails env WalWrite then eChain e else commitBlock b (eChain e))"
proof (cases "fails env WalWrite")
  case True
  then have "d' = d" using run by (simp add: Commit_def b WriteWAL_def p)
  with engine_rep_reopens [OF rep, of ag] True show ?thesis by auto
next
  case wal: False
  let ?c = "eChain e" and ?bs = "cBlocks (eChain e)" and ?d = "d\<lparr>dWal := Some (frame cx p)\<rparr>"
  have st: "store_rep cx (d, eStore e) ?bs" and rp: "replayable ?c" and stable: "\<forall>b \<in> set ?bs. gobBlock b = b"
    using rep by (simp_all add: engine_rep_def)
  have cx: "codec_laws cx" using store_rep_laws [OF st] by simp
  note rp' = replayable_commitBlock [OF rp b(1)]
  have num: "numbered (?bs @ [b])"
    using wellLinked_numbered [OF replayable_wellLinked [OF rp']] len by simp
  have c: "applyAll ?bs emptyChain = Inr ?c" and c': "applyAll (?bs @ [b]) emptyChain = Inr (commitBlock b ?c)"
    using rp rp' by (simp_all add: replayable_def)
  have stable': "\<forall>x \<in> set (?bs @ [b]). gobBlock x = x" using stable b(2) by auto
  obtain ra d2 f2 where a: "AppendBlock env cx b ?d (eStore e) = (ra, d2, f2)" by (metis prod_cases3)
  have w2: "dWal d2 = Some (frame cx p)" using AppendBlock_wal [OF a] by simp
  have st': "store_rep cx (?d, eStore e) ?bs" using st by simp
  note op = AppendBlock_then_open [OF st' num len p a n16]
  have d': "d' = d2 \<or> ra = Inr () \<and> d' = d2\<lparr>dWal := None\<rparr>"
    using run wal by (auto simp: Commit_def b WriteWAL_def p a ClearWAL_def Let_def split: sum.splits if_splits)
  have "\<exists>e2 d3. Engine_Open healthy cx ag (d'\<lparr>dLock := False\<rparr>) = (Inr e2, d3) \<and> eChain e2 = commitBlock b ?c \<and>
      store_rep cx (d3, eStore e2) (?bs @ [b]) \<and> dWal d3 = None"
    using d'
  proof (elim disjE conjE)
    assume d': "d' = d2"
    then have dd: "d'\<lparr>dLock := False\<rparr> = d2\<lparr>dLock := False, dWal := Some (frame cx p)\<rparr>" using w2 by simp
    have w: "dWal (d'\<lparr>dLock := False\<rparr>) = Some (frame cx p)" using w2 d' by simp
    from op [of "Some (frame cx p)"] show ?thesis
    proof (elim disjE conjE)
      assume "opens_to cx (d2\<lparr>dLock := False, dWal := Some (frame cx p)\<rparr>) ?bs"
      then have o: "opens_to cx (d'\<lparr>dLock := False\<rparr>) ?bs" by (simp only: dd)
      have "?bs = [] \<or> hRecordHash (bHeader (last ?bs)) \<noteq> hRecordHash (bHeader b)"
        using fresh by (auto simp: lastHash_def)
      with num len prepareBlock_loads [OF b(1)] show ?thesis
        using Engine_Open_wal [OF cx o stable c w p b(2), of "?bs @ [b]" "commitBlock b ?c"] by simp
    next
      assume "opens_to cx (d2\<lparr>dLock := False, dWal := Some (frame cx p)\<rparr>) (?bs @ [b])"
      then have o: "opens_to cx (d'\<lparr>dLock := False\<rparr>) (?bs @ [b])" by (simp only: dd)
      show ?thesis
        using Engine_Open_wal [OF cx o stable' c' w p b(2), of "?bs @ [b]" "commitBlock b ?c"] by simp
    qed
  next
    assume d': "ra = Inr ()" "d' = d2\<lparr>dWal := None\<rparr>"
    then have dd: "d'\<lparr>dLock := False\<rparr> = d2\<lparr>dLock := False, dWal := None\<rparr>" by simp
    have "opens_to cx (d'\<lparr>dLock := False\<rparr>) (?bs @ [b])" using op [of None] d'(1) by (simp only: dd) simp
    then show ?thesis by (rule Engine_Open_no_wal [OF _ stable' c']) (simp add: d')
  qed
  then obtain e2 d3 where "Engine_Open healthy cx ag (d'\<lparr>dLock := False\<rparr>) = (Inr e2, d3)" "eChain e2 = commitBlock b ?c"
      "store_rep cx (d3, eStore e2) (?bs @ [b])" "dWal d3 = None"
    by blast
  then show ?thesis using rp' stable' wal by (auto simp: engine_rep_def wal_ok_def)
qed

subsection \<open>Sessions\<close>

definition noEmptyValues :: "Transaction list \<Rightarrow> bool" where
  "noEmptyValues txs \<longleftrightarrow> (\<forall>tx \<in> set txs. \<forall>op \<in> set (txOps tx). opValue op \<noteq> Some [])"

lemma filterOps_subset: "filterOps ops s = Inr (fops, s') \<Longrightarrow> set fops \<subseteq> set ops"
  using filterOps_spec by blast

lemma filterTxs_noEmptyValues:
  "filterTxs txs s = Inr (ftxs, s') \<Longrightarrow> noEmptyValues txs \<Longrightarrow> noEmptyValues ftxs"
proof (induction txs arbitrary: s ftxs)
  case (Cons tx txs)
  then obtain fops s1 ftxs1 where f: "filterOps (txOps tx) s = Inr (fops, s1)" "filterTxs txs s1 = Inr (ftxs1, s')"
     "ftxs = (if fops = [] then ftxs1 else tx\<lparr>txOps := fops\<rparr> # ftxs1)"
    by (auto split: if_splits sum.splits prod.splits)
  have "noEmptyValues ftxs1" using Cons.IH [OF f(2)] Cons.prems(2) by (simp add: noEmptyValues_def)
  with filterOps_subset [OF f(1)] f(3) Cons.prems(2) show ?case by (auto simp: noEmptyValues_def)
qed simp

lemma gobTransaction_id: "\<forall>op \<in> set (txOps tx). opValue op \<noteq> Some [] \<Longrightarrow> gobTransaction tx = tx"
  by (simp add: gobTransaction_def gobOperation_def map_idI)

lemma noEmptyValues_gobBlock: "noEmptyValues (bTransactions b) \<Longrightarrow> gobBlock b = b"
  by (simp add: gobBlock_def noEmptyValues_def gobTransaction_id map_idI)

lemma prepareBlock_stable: "prepareBlock now txs c = Inr b \<Longrightarrow> noEmptyValues txs \<Longrightarrow> gobBlock b = b"
  by (erule prepareBlock_Inr) (auto intro!: noEmptyValues_gobBlock elim: filterTxs_noEmptyValues)

text \<open>
  What can happen to a database that starts as an empty directory, as long as values are not
  empty and records fit: commits that succeed, clean restarts, restarts of a killed process after its
  lock was removed, and a commit that was cut short (at any point but one, see below) with the restart
  that follows. A process that goes on after a commit failed is not in a session: what it commits next
  can be lost (\<open>commit_after_failed_write_lost\<close>). Attempts that change nothing leave a session as it is.
\<close>

inductive session :: "codec \<Rightarrow> disk \<Rightarrow> Engine \<Rightarrow> bool" for cx where
  created: "Engine_Open healthy cx ag emptyDisk = (Inr e, d) \<Longrightarrow> session cx d e"
| committed: "session cx d e \<Longrightarrow> prepareBlock now txs (eChain e) = Inr b \<Longrightarrow> noEmptyValues txs \<Longrightarrow>
    length (cBlocks (eChain e)) + 2 < 2 ^ 64 \<Longrightarrow>
    Commit env cx now txs d e = (Inr b, d', e') \<Longrightarrow> session cx d' e'"
| closed: "session cx d e \<Longrightarrow> Engine_Close env d e = (Inr (), d1, e1) \<Longrightarrow>
    Engine_Open healthy cx ag d1 = (Inr e2, d2) \<Longrightarrow> session cx d2 e2"
| killed: "session cx d e \<Longrightarrow> Engine_Open healthy cx ag (d\<lparr>dLock := False\<rparr>) = (Inr e2, d2) \<Longrightarrow> session cx d2 e2"
| crashed: "session cx d e \<Longrightarrow> prepareBlock now txs (eChain e) = Inr b \<Longrightarrow> noEmptyValues txs \<Longrightarrow>
    gobEncode cx b = Some p \<Longrightarrow> length (frame cx p) \<le> defaultSegmentSize \<Longrightarrow>
    length (cBlocks (eChain e)) + 2 < 2 ^ 64 \<Longrightarrow> hRecordHash (bHeader b) \<noteq> lastHash (eChain e) \<Longrightarrow>
    shortWrite env \<noteq> 16 \<Longrightarrow> Commit env cx now txs d e = (r, d', e') \<Longrightarrow>
    Engine_Open healthy cx ag (d'\<lparr>dLock := False\<rparr>) = (Inr e2, d2) \<Longrightarrow> session cx d2 e2"

lemma Engine_Close_unlocks:
  assumes "store_rep cx (d, eStore e) bs" and "Engine_Close env d e = (Inr (), d', e')"
  shows "d' = d\<lparr>dLock := False\<rparr>"
  using assms by (auto simp: store_rep_def files_rep_def Engine_Close_def Storage_Close_def Let_def split: if_splits)

lemma session_rep:
  assumes "codec_laws cx"
  shows "session cx d e \<Longrightarrow> engine_rep cx d e"
proof (induction rule: session.induct)
  case (created ag e d)
  obtain e' d' where "Engine_Open healthy cx ag emptyDisk = (Inr e', d')" "eChain e' = emptyChain"
    "store_rep cx (d', eStore e') []" "dWal d' = None"
    using Engine_Open_emptyDisk [OF assms] .
  with created show ?case by (simp add: engine_rep_def wal_ok_def emptyChain_def replayable_def)
next
  case (committed d e now txs b env d' e')
  show ?case
    using Commit_engine_rep [OF committed.IH committed(2) prepareBlock_stable [OF committed(2,3)] committed(4,5)] by simp
next
  case (closed d e env d1 e1 ag e2 d2)
  from closed.IH have "store_rep cx (d, eStore e) (cBlocks (eChain e))" by (simp add: engine_rep_def)
  from Engine_Close_unlocks [OF this closed(2)] engine_rep_reopens [OF closed.IH, of ag] closed(3) show ?case by auto
next
  case (killed d e ag e2 d2)
  from engine_rep_reopens [OF killed.IH, of ag] killed(2) show ?case by auto
next
  case (crashed d e now txs b p env r d' e' ag e2 d2)
  from Commit_crash [OF crashed.IH crashed(2) prepareBlock_stable [OF crashed(2,3)] crashed(4-9), of ag] crashed(10)
  show ?case by auto
qed

subsection \<open>The lock after a failed opening\<close>

lemma setData_dLock [simp]: "dLock (setData n c d) = dLock d"
  by (simp add: setData_def)

lemma recoverAll_lock: "recoverAll env cx ids d idx = (r, d') \<Longrightarrow> dLock d' = dLock d"
  by (induction ids arbitrary: d idx)
    (auto simp: recoverSegment_def split: option.splits sum.splits prod.splits if_splits)

lemma openActive_lock: "openActive env d f = (r, d', f') \<Longrightarrow> dLock d' = dLock d"
  by (auto simp: openActive_def Let_def split: if_splits)

lemma rotate_lock: "rotate env d f = (r, d', f') \<Longrightarrow> dLock d' = dLock d"
  by (auto simp: rotate_def split: handle.splits if_splits dest!: openActive_lock)

lemma AppendBlock_lock: "AppendBlock env cx b d f = (r, d', f') \<Longrightarrow> dLock d' = dLock d"
  by (auto simp: AppendBlock_def Let_def split: option.splits if_splits sum.splits prod.splits handle.splits
      dest!: rotate_lock)

lemma Storage_Open_lock:
  "Storage_Open env cx d = (r, d') \<Longrightarrow> \<not> fails env MkdirAll \<Longrightarrow> \<not> fails env LockCreate \<Longrightarrow> dLock d'"
  by (auto simp: Storage_Open_def recoverSegments_def Let_def split: if_splits sum.splits prod.splits
      dest!: recoverAll_lock openActive_lock)

lemma Engine_Open_lock:
  "Engine_Open env cx ag d = (r, d') \<Longrightarrow> \<not> fails env MkdirAll \<Longrightarrow> \<not> fails env LockCreate \<Longrightarrow> dLock d'"
  by (auto simp: Engine_Open_def ClearWAL_def split: sum.splits prod.splits option.splits if_splits
      dest!: Storage_Open_lock AppendBlock_lock)

lemma Engine_Open_locked:
  "dLock d \<Longrightarrow> \<not> fails env MkdirAll \<Longrightarrow> Engine_Open env cx ag d = (Inl LockUnavailable, d)"
  by (simp add: Engine_Open_def Storage_Open_def)


subsection \<open>Empty values\<close>

text \<open>
  gob brings an empty value back as nil, and JSON writes the two as \<open>""\<close> and \<open>null\<close>: the
  stored block is two characters longer for each empty value when it is hashed again.
\<close>

definition emptyValues :: "Operation list \<Rightarrow> nat" where
  "emptyValues ops = length (filter (\<lambda>op. opValue op = Some []) ops)"

lemma length_json_commas:
  "length (json_commas xs) = (if xs = [] then 0 else sum_list (map length xs) + length xs - 1)"
  by (induction xs rule: json_commas.induct) auto

lemma length_json_operation:
  "length (json_operation (gobOperation op)) = length (json_operation op) + (if opValue op = Some [] then 2 else 0)"
  by (simp add: json_operation_def gobOperation_def json_object_def json_field_def json_bytes_def)

lemma length_json_array:
  "length (json_array xs) = (if xs = [] then 4 else sum_list (map length xs) + length xs + 1)"
  by (cases xs) (simp_all add: json_array_def length_json_commas)

lemma sum_json_operations:
  "sum_list (map (\<lambda>op. length (json_operation (gobOperation op))) ops) =
     sum_list (map (\<lambda>op. length (json_operation op)) ops) + 2 * emptyValues ops"
  by (induction ops) (simp_all add: length_json_operation emptyValues_def)

lemma length_json_transaction:
  "length (json_transaction (gobTransaction tx)) = length (json_transaction tx) + 2 * emptyValues (txOps tx)"
proof -
  have "length (json_array (map json_operation (map gobOperation (txOps tx)))) =
      length (json_array (map json_operation (txOps tx))) + 2 * emptyValues (txOps tx)"
    by (simp add: length_json_array comp_def sum_json_operations) (simp add: emptyValues_def)
  then show ?thesis
    by (simp add: json_transaction_def gobTransaction_def json_object_def length_json_commas json_field_def json_opt_def)
qed

lemma sum_json_transactions:
  "sum_list (map (\<lambda>tx. length (json_transaction (gobTransaction tx))) txs) =
     sum_list (map (\<lambda>tx. length (json_transaction tx)) txs) + 2 * emptyValues (concat (map txOps txs))"
  by (induction txs) (simp_all add: length_json_transaction emptyValues_def)

lemma length_json_block:
  "length (json_block (gobBlock b)) = length (json_block b) + 2 * emptyValues (blockOps b)"
proof -
  have "length (json_array (map json_transaction (map gobTransaction (bTransactions b)))) =
      length (json_array (map json_transaction (bTransactions b))) + 2 * emptyValues (blockOps b)"
    by (simp add: length_json_array comp_def sum_json_transactions blockOps_def) (simp add: emptyValues_def)
  then show ?thesis
    by (simp add: json_block_def gobBlock_def json_object_def length_json_commas json_field_def)
qed

text \<open>What is hashed for the record hash.\<close>

definition hashInput :: "Block \<Rightarrow> bytes" where
  "hashInput b = marshal_block (b\<lparr>bHeader := (bHeader b)\<lparr>hRecordHash := []\<rparr>\<rparr>)"

definition fourDigitYears :: "Block \<Rightarrow> bool" where
  "fourDigitYears b \<longleftrightarrow> tYear (hTimestamp (bHeader b)) \<le> 9999 \<and>
     (\<forall>tx \<in> set (bTransactions b). tYear (txTimestamp tx) \<le> 9999)"

lemma hashInput_gobBlock:
  assumes "fourDigitYears b" and "opValue op = Some []" and "op \<in> set (blockOps b)"
  shows "hashInput (gobBlock b) \<noteq> hashInput b"
proof -
  let ?b = "b\<lparr>bHeader := (bHeader b)\<lparr>hRecordHash := []\<rparr>\<rparr>"
  have g: "(gobBlock b)\<lparr>bHeader := (bHeader (gobBlock b))\<lparr>hRecordHash := []\<rparr>\<rparr> = gobBlock ?b"
    by (simp add: gobBlock_def)
  have "hashInput b = bytes_of (json_block ?b)" "hashInput (gobBlock b) = bytes_of (json_block (gobBlock ?b))"
    using assms(1) unfolding hashInput_def g
    by (auto simp: marshal_block_def fourDigitYears_def list_all_iff gobBlock_def gobTransaction_def)
  moreover have "0 < emptyValues (blockOps ?b)"
    using assms(2,3) by (auto simp: emptyValues_def blockOps_def filter_empty_conv)
  ultimately show ?thesis
    using length_json_block [of ?b] by (metis add_cancel_right_right length_bytes_of mult_eq_0_iff less_numeral_extra(3) zero_neq_numeral)
qed

lemma applyLoaded_gobBlock:
  assumes "applyLoaded b c = Inr c'" and "Hash (hashInput (gobBlock b)) \<noteq> Hash (hashInput b)"
  shows "applyLoaded (gobBlock b) c = Inl (RecordHashMismatch (hHeight (bHeader b)))"
proof -
  have "hashBlock b = Hash (hashInput b)" "hashBlock (gobBlock b) = Hash (hashInput (gobBlock b))"
    by (simp_all add: hashBlock_def hashInput_def)
  with assms(2) assms(1) [unfolded applyLoaded_Inr] show ?thesis
    by (simp add: applyLoaded_eq [of "gobBlock b"] Let_def)
qed

lemma empty_value_breaks_reopen_lemma:
  assumes rep: "engine_rep cx d e" and b: "prepareBlock now txs (eChain e) = Inr b"
    and len: "length (cBlocks (eChain e)) + 2 < 2 ^ 64"
    and run: "Commit env cx now txs d e = (Inr b, d', e')"
    and close: "Engine_Close env' d' e' = (Inr (), d2, e2)"
    and neq: "Hash (hashInput (gobBlock b)) \<noteq> Hash (hashInput b)"
  shows "fst (Engine_Open healthy cx ag d2) = Inl (RecordHashMismatch (hHeight (bHeader b)))"
proof -
  let ?c = "eChain e" and ?bs = "cBlocks (eChain e)"
  have st: "store_rep cx (d, eStore e) ?bs" and rp: "replayable ?c" and stable: "\<forall>b \<in> set ?bs. gobBlock b = b"
    using rep by (simp_all add: engine_rep_def)
  have st': "store_rep cx (d', eStore e') (?bs @ [b])"
    using Commit_store_rep [OF st rp b len run] by simp
  note d2 = Engine_Close_unlocks [OF st' close]
  obtain f d3 where o: "Storage_Open healthy cx d2 = (Inr f, d3)" "store_rep cx (d3, f) (?bs @ [b])"
    using store_rep_unlock [OF st'] by (auto simp: opens_to_def d2)
  have "map gobBlock ?bs = ?bs" using stable by (simp add: map_idI)
  then have r: "ReadAll healthy cx d3 f = Inr (?bs @ [gobBlock b])"
    using log.readAll_rep [OF o(2)] by (simp add: storeReadAll_def)
  have "applyAll (?bs @ [gobBlock b]) emptyChain = Inl (RecordHashMismatch (hHeight (bHeader b)))"
    using rp applyLoaded_gobBlock [OF prepareBlock_loads [OF b] neq] by (simp add: applyAll_append replayable_def)
  with o(1) r show ?thesis by (simp add: Engine_Open_def)
qed

subsection \<open>Records beyond the segment size\<close>

lemma readFrame_oversized:
  assumes "maxRecordSize < length body" and "length body < 2 ^ 32"
  shows "fst (readFrame cx (frameHeader (length body) crc schema @ body)) = Inl (InvalidRecordSize (length body))"
proof -
  have "unat (of_nat (length body) :: u32) = length body"
    using assms(2) by (simp add: unat_of_nat)
  with assms(1) show ?thesis
    by (simp add: readFrame_def Let_def)
qed

lemma oversized_block_lemma:
  assumes rep: "engine_rep cx d e" and b: "prepareBlock now txs (eChain e) = Inr b" "gobBlock b = b"
    and p: "gobEncode cx b = Some p" "defaultSegmentSize < length (frame cx p)" "length (frameBody cx p) < 2 ^ 32"
    and fresh: "hRecordHash (bHeader b) \<noteq> lastHash (eChain e)"
  shows "\<exists>d'. Commit healthy cx now txs d e = (Inl RecordExceedsSegment, d', e) \<and>
    fst (Engine_Open healthy cx ag (d'\<lparr>dLock := False\<rparr>)) \<in>
      {Inl RecordExceedsSegment, Inl (InvalidRecordSize (length (frameBody cx p)))}"
proof -
  let ?d' = "d\<lparr>dWal := Some (frame cx p)\<rparr>" and ?bs = "cBlocks (eChain e)"
  have st: "store_rep cx (d, eStore e) ?bs" and stable: "\<forall>b \<in> set ?bs. gobBlock b = b"
    and c: "applyAll ?bs emptyChain = Inr (eChain e)"
    using rep by (simp_all add: engine_rep_def replayable_def)
  have cx: "codec_laws cx" using store_rep_laws [OF st] by simp
  have seg: "fSegmentSize (eStore e) = defaultSegmentSize"
    using st by (auto simp: store_rep_def files_rep_def)
  have commit: "Commit healthy cx now txs d e = (Inl RecordExceedsSegment, ?d', e)"
    using p seg by (simp add: Commit_def b WriteWAL_def AppendBlock_def Let_def)
  obtain f d1 where o: "Storage_Open healthy cx (?d'\<lparr>dLock := False\<rparr>) = (Inr f, d1)" "store_rep cx (d1, f) ?bs"
      and w: "dWal d1 = Some (frame cx p)"
    using store_rep_unlock [of cx ?d' "eStore e" ?bs] st by (auto simp: opens_to_def)
  have "map gobBlock ?bs = ?bs" using stable by (simp add: map_idI)
  then have r: "ReadAll healthy cx d1 f = Inr ?bs"
    using log.readAll_rep [OF o(2)] by (simp add: storeReadAll_def)
  have seg1: "fSegmentSize f = defaultSegmentSize"
    using o(2) by (auto simp: store_rep_def files_rep_def)
  have new: "?bs = [] \<or> hRecordHash (bHeader (last ?bs)) \<noteq> hRecordHash (bHeader b)"
    using fresh by (auto simp: lastHash_def)
  have "fst (Engine_Open healthy cx ag (?d'\<lparr>dLock := False\<rparr>)) \<in>
      {Inl RecordExceedsSegment, Inl (InvalidRecordSize (length (frameBody cx p)))}"
  proof (cases "length (frameBody cx p) \<le> maxRecordSize")
    case True
    have "ReadWAL healthy cx d1 = Inr (Some b)"
      using readFrame_frame [OF cx codec_lawsD(1) [OF cx p(1)] True, of "[]"] b(2)
      by (simp add: ReadWAL_def w codec_lawsD(2) [OF cx p(1)])
    then show ?thesis
      using o(1) r c new p(1,2) seg1 by (simp add: Engine_Open_def AppendBlock_def Let_def)
  next
    case False
    then have "ReadWAL healthy cx d1 = Inl (InvalidRecordSize (length (frameBody cx p)))"
      using readFrame_oversized [of "frameBody cx p"] p(3) by (simp add: ReadWAL_def w frame_def Let_def)
    with o(1) r c show ?thesis by (simp add: Engine_Open_def)
  qed
  with commit show ?thesis by blast
qed

subsection \<open>Example sessions\<close>

lemma ex_session:
  obtains e d e' d' where "session exChainCodec d e" "eChain e = emptyChain"
    "Commit healthy exChainCodec exNow [exTx [7]] d e = (Inr exFirst, d', e')"
    "session exChainCodec d' e'" "eChain e' = commitBlock exFirst emptyChain"
proof (rule exFirst_committed)
  fix e d e' d'
  assume a: "Engine_Open healthy exChainCodec False emptyDisk = (Inr e, d)" "eChain e = emptyChain"
    "Commit healthy exChainCodec exNow [exTx [7]] d e = (Inr exFirst, d', e')"
    "eChain e' = commitBlock exFirst emptyChain"
  have s: "session exChainCodec d e" using a(1) by (rule session.created)
  have p: "prepareBlock exNow [exTx [7]] (eChain e) = Inr exFirst" by (simp add: a(2) exFirst_prepared)
  have ne: "noEmptyValues [exTx [7]]" by (simp add: noEmptyValues_def exTx_def)
  have len: "length (cBlocks (eChain e)) + 2 < 2 ^ 64" by (simp add: a(2) emptyChain_def)
  note s' = session.committed [OF s p ne len a(3)]
  show thesis by (rule that [OF s a(2,3) s' a(4)])
qed

lemma Hash_not_Nil [simp]: "Hash x \<noteq> []"
proof -
  have "length (Hash x) = 64" by (simp add: Hash_def)
  then show ?thesis by auto
qed

lemma exFirst_fresh: "hRecordHash (bHeader exFirst) \<noteq> lastHash emptyChain"
proof -
  have "hRecordHash (bHeader exFirst) = hashBlock exFirst" by (simp add: exFirst_def)
  then show ?thesis by (simp add: lastHash_def emptyChain_def hashBlock_def)
qed

text \<open>A failing segment write, after five bytes.\<close>

definition exBroken :: env where
  "exBroken = \<lparr>fails = (\<lambda>c. c = SegmentWrite), shortWrite = 5\<rparr>"

lemma exBroken_Commit:
  assumes "session exChainCodec d e" and "eChain e = emptyChain"
  shows "\<exists>d' e'. Commit exBroken exChainCodec exNow [exTx [7]] d e = (Inl (IOFailed SegmentWrite), d', e')"
proof -
  have "engine_rep exChainCodec d e" by (rule session_rep [OF exFirst_encoded(1) assms(1)])
  then have "store_rep exChainCodec (d, eStore e) []" using assms(2) by (simp add: engine_rep_def emptyChain_def)
  then obtain bss where r: "files_rep exChainCodec d (eStore e) bss" "concat bss = []" "tight bss"
    by (auto simp: store_rep_def)
  then have "segBytes exChainCodec (last bss) = []"
    by (cases bss rule: rev_cases) (auto simp: files_rep_def)
  with r(1) have f: "fActiveSize (eStore e) = 0" "fSegmentSize (eStore e) = defaultSegmentSize"
     "\<exists>n. fActive (eStore e) = OpenFile n"
    by (auto simp: files_rep_def)
  have "prepareBlock exNow [exTx [7]] (eChain e) = Inr exFirst" by (simp add: assms(2) exFirst_prepared)
  with f exFirst_encoded(2,3) show ?thesis
    by (auto simp: Commit_def WriteWAL_def AppendBlock_def exBroken_def Let_def not_less)
qed


text \<open>
  The same through the engine: a commit fails in the segment write and the process goes on. The next commit
  reports success and its block is in memory, but after a clean close the directory opens with
  the chain of before, unless a checksum matches by chance.
\<close>

lemma commit_after_failed_write_lost:
  assumes rep: "engine_rep cx d e" and b: "prepareBlock now txs (eChain e) = Inr b" "gobEncode cx b = Some p"
    and c: "prepareBlock now' txs' (eChain e) = Inr c" "gobEncode cx c = Some q"
    and room: "fActiveSize (eStore e) + length (frame cx p) \<le> defaultSegmentSize"
      "fActiveSize (eStore e) + length (frame cx q) \<le> defaultSegmentSize"
    and env: "\<not> fails env WalWrite" "fails env SegmentWrite" "16 < shortWrite env" "shortWrite env < length (frame cx p)"
    and nocrc: "let rest = drop 16 (take (shortWrite env) (frame cx p)) @ frame cx q in
      length rest < length (frameBody cx p) \<or> crc32c (take (length (frameBody cx p)) rest) \<noteq> crc32c (frameBody cx p)"
  shows "\<exists>d1 e1 d2 e2 d3 e3 d4 e4. Commit env cx now txs d e = (Inl (IOFailed SegmentWrite), d1, e1) \<and>
    Commit healthy cx now' txs' d1 e1 = (Inr c, d2, e2) \<and> eChain e2 = commitBlock c (eChain e) \<and>
    Engine_Close healthy d2 e2 = (Inr (), d3, e3) \<and>
    Engine_Open healthy cx ag d3 = (Inr e4, d4) \<and> eChain e4 = eChain e"
proof -
  let ?bs = "cBlocks (eChain e)" and ?d = "d\<lparr>dWal := Some (frame cx q)\<rparr>"
  have st: "store_rep cx (d, eStore e) ?bs" and rp: "applyAll ?bs emptyChain = Inr (eChain e)"
    and stable: "\<forall>b \<in> set ?bs. gobBlock b = b"
    using rep by (simp_all add: engine_rep_def replayable_def)
  have cx: "codec_laws cx" using store_rep_laws [OF st] by simp
  obtain bss where r: "files_rep cx d (eStore e) bss" "concat bss = ?bs" "tight bss" "dLock d" "numbered ?bs"
    using st by (auto simp: store_rep_def)
  then obtain css bs where cs: "bss = css @ [bs]" by (cases bss rule: rev_cases) (auto simp: files_rep_def)
  define sid :: u64 where "sid = of_nat (Suc (length css))"
  have f: "fSegmentSize (eStore e) = defaultSegmentSize" "fActive (eStore e) = OpenFile sid"
      "fActiveSize (eStore e) = length (segBytes cx bs)" and h: "disk_holds cx d (css @ [bs])"
    using r(1) by (simp_all add: cs files_rep_def sid_def)
  have seg: "dataFile d sid = segBytes cx bs" using disk_holds_last [OF h] by (simp add: dataFile_def sid_def)
  have fr: "blockFrame cx b = frame cx p" "blockFrame cx c = frame cx q" by (simp_all add: blockFrame_def b c)
  let ?torn = "setData sid (segBytes cx bs @ take (shortWrite env) (frame cx p))"
  let ?d1 = "?torn (d\<lparr>dWal := Some (frame cx p)\<rparr>)"
  have c1: "Commit env cx now txs d e = (Inl (IOFailed SegmentWrite), ?d1, e)"
    using room(1) f seg env(1,2) by (simp add: Commit_def b WriteWAL_def AppendBlock_def Let_def not_less dataFile_def)
  have rep': "files_rep cx ?d (eStore e) (css @ [bs])" "dLock ?d" using r(1,4) by (simp_all add: cs files_rep_def)
  have max: "length (frameBody cx p) \<le> maxRecordSize" using room(1) by (simp add: max_eq_default)
  obtain d2 f2 where a: "AppendBlock healthy cx c (?torn ?d) (eStore e) = (Inr (), d2, f2)" "fActive f2 = OpenFile sid"
      "dLock d2" "dWal d2 = Some (frame cx q)"
    and o: "\<And>w. \<exists>f4 d4. Storage_Open healthy cx (d2\<lparr>dLock := False, dWal := w\<rparr>) = (Inr f4, d4) \<and>
       files_rep cx d4 f4 (css @ [bs]) \<and> dLock d4 \<and> dWal d4 = w"
    using append_behind_torn_lost [OF cx rep' b(2) max c(2) env(3), folded sid_def] env(4) room(2) nocrc f(3) by (auto simp: fr)
  have "?d1\<lparr>dWal := Some (frame cx q)\<rparr> = ?torn ?d" by (simp add: setData_def)
  then have c2: "Commit healthy cx now' txs' ?d1 e = (Inr c, d2\<lparr>dWal := None\<rparr>, e\<lparr>eStore := f2, eChain := commitBlock c (eChain e)\<rparr>)"
    using a by (simp add: Commit_def c WriteWAL_def ClearWAL_def Let_def)
  let ?e2 = "e\<lparr>eStore := f2, eChain := commitBlock c (eChain e)\<rparr>"
  have c3: "\<exists>e3. Engine_Close healthy (d2\<lparr>dWal := None\<rparr>) ?e2 = (Inr (), d2\<lparr>dLock := False, dWal := None\<rparr>, e3)"
    using a(2) by (simp add: Engine_Close_def Storage_Close_def Let_def)
  obtain f4 d4 where o4: "Storage_Open healthy cx (d2\<lparr>dLock := False, dWal := None\<rparr>) = (Inr f4, d4)"
       "files_rep cx d4 f4 (css @ [bs])" "dLock d4" "dWal d4 = None" using o by blast
  then have "opens_to cx (d2\<lparr>dLock := False, dWal := None\<rparr>) ?bs"
    using cx r cs by (auto simp: opens_to_def store_rep_def)
  from Engine_Open_no_wal [OF this stable rp, of ag] c1 c2 c3 show ?thesis by fastforce
qed

text \<open>The example block with an empty value, and a codec for it.\<close>

definition exEmpty :: Block where
  "exEmpty = newBlock exNow emptyChain [exTx []] (fmupd ''a'' [] fmempty)"

lemma exEmpty_prepared: "prepareBlock exNow [exTx []] emptyChain = Inr exEmpty"
proof -
  have "fmupd ''a'' ([] :: bytes) fmempty \<noteq> fmempty" by (simp add: fmupd_same_iff)
  then show ?thesis
    by (simp add: prepareBlock_def emptyChain_def exTx_def applyState_def exEmpty_def)
qed

lemma exEmpty_encoded: "gobEncode (tableCodec [exEmpty]) exEmpty = Some [1]"
  "length (frame (tableCodec [exEmpty]) [1]) \<le> defaultSegmentSize"
proof -
  have "frameBody (tableCodec [exEmpty]) [1] = [1]"
    by (simp add: tableCodec_def frameBody_def numeral_eq_Suc)
  then show "length (frame (tableCodec [exEmpty]) [1]) \<le> defaultSegmentSize"
    by (simp add: defaultSegmentSize_def)
qed (simp add: tableCodec_def)

lemma emptyDisk_session:
  assumes "codec_laws cx"
  obtains e d where "session cx d e" "eChain e = emptyChain"
proof (rule Engine_Open_emptyDisk [OF assms, of False])
  fix e d
  assume "Engine_Open healthy cx False emptyDisk = (Inr e, d)" and c: "eChain e = emptyChain"
  from session.created [OF this(1)] c show thesis by (rule that)
qed

lemma session_Close_healthy:
  assumes "store_rep cx (d, eStore e) bs"
  shows "\<exists>d' e'. Engine_Close healthy d e = (Inr (), d', e')"
  using assms by (auto simp: store_rep_def files_rep_def Engine_Close_def Storage_Close_def Let_def)

text \<open>A codec whose encoding of the example block fills a whole segment.\<close>

definition bigPayload :: bytes where
  "bigPayload = replicate (2 ^ 28) 0"

definition bigCodec :: codec where
  "bigCodec = \<lparr>gobEncode = (\<lambda>b. if b = exFirst then Some bigPayload else None),
     gobDecode = (\<lambda>p. Some (gobBlock exFirst)),
     gobEncodeSnapshot = (\<lambda>s. None), gobDecodeSnapshot = (\<lambda>p. None), deflate = (\<lambda>p. None), inflate = (\<lambda>z. None)\<rparr>"

lemma length_bigPayload: "length bigPayload = 2 ^ 28"
  unfolding bigPayload_def by (rule length_replicate)

lemma bigCodec_laws: "codec_laws bigCodec"
proof -
  have "(0::nat) < 2 ^ 28" by (rule zero_less_power) simp
  then have "bigPayload \<noteq> []"
    unfolding length_bigPayload [symmetric] by (rule length_greater_0_conv [THEN iffD1])
  then show ?thesis by (simp add: codec_laws_def bigCodec_def)
qed

lemma bigCodec_encodes: "gobEncode bigCodec exFirst = Some bigPayload"
  "length (frameBody bigCodec bigPayload) = 2 ^ 28"
  by (simp_all add: bigCodec_def frameBody_def length_bigPayload)

subsection \<open>Properties\<close>

text \<open>
  C3: Durability of what a session did. A session starts from an empty directory and goes on with
  commits of non-empty values that report success, clean closes, kills, and commits that fail or are
  cut short; openings in it meet no failure of the operating system. Four limits are part of it. The
  process ends after a commit that failed: one that went on could lose the next block. A commit that
  is cut short is not cut at the sixteenth byte of its segment write, fits a segment, and its record
  hash differs from its predecessor's. Before the restart after a kill or a failed commit the lock is removed.
  There are fewer than \<open>2 ^ 64 - 2\<close> blocks. At any point of a session, opening the directory again, after a
  clean close or after the lock was removed, succeeds and gives exactly the chain that the engine has:
  blocks, state, versions and counters.
\<close>

theorem session_durable:
  assumes "codec_laws cx" and "session cx d e"
    and "d1 = d\<lparr>dLock := False\<rparr> \<or> (\<exists>env e1. Engine_Close env d e = (Inr (), d1, e1))"
  shows "\<exists>e2 d2. Engine_Open healthy cx ag d1 = (Inr e2, d2) \<and> eChain e2 = eChain e"
proof -
  note rep = session_rep [OF assms(1,2)]
  then have "store_rep cx (d, eStore e) (cBlocks (eChain e))" by (simp add: engine_rep_def)
  then have "d1 = d\<lparr>dLock := False\<rparr>" using assms(3) Engine_Close_unlocks by blast
  with engine_rep_reopens [OF rep] show ?thesis by blast
qed

theorem session_durable_witness:
  "\<exists>d e e2 d2. session exChainCodec d e \<and> cBlocks (eChain e) = [exFirst] \<and>
     Engine_Open healthy exChainCodec True (d\<lparr>dLock := False\<rparr>) = (Inr e2, d2) \<and> cBlocks (eChain e2) = [exFirst]"
proof (rule ex_session)
  fix e d e' d'
  assume s: "session exChainCodec d' e'" and c: "eChain e' = commitBlock exFirst emptyChain"
  have b: "cBlocks (eChain e') = [exFirst]" by (simp add: c emptyChain_def)
  from session_durable [OF exFirst_encoded(1) s, of _ True] obtain e2 d2 where
    "Engine_Open healthy exChainCodec True (d'\<lparr>dLock := False\<rparr>) = (Inr e2, d2)" "eChain e2 = eChain e'" by blast
  with s b show ?thesis by metis
qed

text \<open>
  C4: The write-ahead log makes a commit atomic against a failure that ends the process. Whatever
  operating-system call fails or crashes a commit, at whatever byte of the segment write but the
  sixteenth, opening the directory afterwards gives the chain without the block if the log was not
  written, and the chain with the block otherwise - also when \<open>Commit\<close> reported an error. This is for the
  database of a session (see \<open>session\<close>) of fewer than \<open>2 ^ 64 - 2\<close> blocks, for transactions without empty
  values (with one the next opening fails), for a block that gob encodes
  to a record that fits a segment and whose hash differs from its predecessor's, and for an opening
  that meets no failure itself, after the lock of the failed process was removed (with the lock there
  every opening fails).
\<close>

theorem Commit_survives_crash:
  assumes "codec_laws cx" and "session cx d e" and "prepareBlock now txs (eChain e) = Inr b" and "noEmptyValues txs"
    and "gobEncode cx b = Some p" and "length (frame cx p) \<le> defaultSegmentSize"
    and "length (cBlocks (eChain e)) + 2 < 2 ^ 64" and "hRecordHash (bHeader b) \<noteq> lastHash (eChain e)"
    and "shortWrite env \<noteq> 16" and "Commit env cx now txs d e = (r, d', e')"
  shows "\<exists>e2 d2. Engine_Open healthy cx ag (d'\<lparr>dLock := False\<rparr>) = (Inr e2, d2) \<and>
    eChain e2 = (if fails env WalWrite then eChain e else commitBlock b (eChain e))"
  using Commit_crash [OF session_rep [OF assms(1,2)] assms(3) prepareBlock_stable [OF assms(3,4)] assms(5-10)]
  by blast

theorem Commit_survives_crash_witness:
  "\<exists>d e d' e' e2 d2. Commit exBroken exChainCodec exNow [exTx [7]] d e = (Inl (IOFailed SegmentWrite), d', e') \<and>
     Engine_Open healthy exChainCodec False (d'\<lparr>dLock := False\<rparr>) = (Inr e2, d2) \<and>
     eChain e2 = commitBlock exFirst emptyChain"
proof (rule ex_session)
  fix e d e1 d1
  assume s: "session exChainCodec d e" and c: "eChain e = emptyChain"
  obtain d' e' where r: "Commit exBroken exChainCodec exNow [exTx [7]] d e = (Inl (IOFailed SegmentWrite), d', e')"
    using exBroken_Commit [OF s c] by blast
  have p: "prepareBlock exNow [exTx [7]] (eChain e) = Inr exFirst" by (simp add: c exFirst_prepared)
  have ne: "noEmptyValues [exTx [7]]" by (simp add: noEmptyValues_def exTx_def)
  have len: "length (cBlocks (eChain e)) + 2 < 2 ^ 64" by (simp add: c emptyChain_def)
  have fr: "hRecordHash (bHeader exFirst) \<noteq> lastHash (eChain e)" by (simp only: c exFirst_fresh not_False_eq_True)
  have br: "shortWrite exBroken \<noteq> 16" "\<not> fails exBroken WalWrite" by (simp_all add: exBroken_def)
  from Commit_survives_crash [OF exFirst_encoded(1) s p ne exFirst_encoded(2,3) len fr br(1) r, of False]
  obtain e2 d2 where "Engine_Open healthy exChainCodec False (d'\<lparr>dLock := False\<rparr>) = (Inr e2, d2)"
      "eChain e2 = commitBlock exFirst emptyChain"
    using br(2) c by auto
  with r show ?thesis by blast
qed

text \<open>
  C12: An empty value breaks the database. If a commit of a session stores a value that is empty
  but not nil (what \<open>put KEY ""\<close> and a JSON \<open>"value":""\<close> give), then after a clean close opening
  the directory fails with a record hash mismatch at that block, or the two different texts
  hashed for the block before and after gob collide under SHA-256.
\<close>

theorem empty_value_breaks_reopen:
  assumes "codec_laws cx" and "session cx d e" and "prepareBlock now txs (eChain e) = Inr b"
    and "opValue op = Some []" and "op \<in> set (blockOps b)" and "fourDigitYears b"
    and "length (cBlocks (eChain e)) + 2 < 2 ^ 64" and "Commit env cx now txs d e = (Inr b, d', e')"
    and "Engine_Close env' d' e' = (Inr (), d2, e2)"
  shows "fst (Engine_Open healthy cx ag d2) = Inl (RecordHashMismatch (hHeight (bHeader b))) \<or>
    hashInput (gobBlock b) \<noteq> hashInput b \<and> Hash (hashInput (gobBlock b)) = Hash (hashInput b)"
  using empty_value_breaks_reopen_lemma [OF session_rep [OF assms(1,2)] assms(3,7-9)]
    hashInput_gobBlock [OF assms(6,4,5)] by blast

theorem empty_value_breaks_reopen_witness:
  "\<exists>d e d' e' d2 e2. Commit healthy (tableCodec [exEmpty]) exNow [exTx []] d e = (Inr exEmpty, d', e') \<and>
     Engine_Close healthy d' e' = (Inr (), d2, e2) \<and>
     (fst (Engine_Open healthy (tableCodec [exEmpty]) True d2) = Inl (RecordHashMismatch 1) \<or>
      hashInput (gobBlock exEmpty) \<noteq> hashInput exEmpty \<and>
      Hash (hashInput (gobBlock exEmpty)) = Hash (hashInput exEmpty))"
proof -
  let ?cx = "tableCodec [exEmpty]"
  obtain e d where s: "session ?cx d e" "eChain e = emptyChain"
    using emptyDisk_session [OF tableCodec_laws] .
  have p: "prepareBlock exNow [exTx []] (eChain e) = Inr exEmpty" by (simp add: s(2) exEmpty_prepared)
  have len: "length (cBlocks (eChain e)) + 2 < 2 ^ 64" by (simp add: s(2) emptyChain_def)
  have st: "store_rep ?cx (d, eStore e) (cBlocks (eChain e))" and rp: "replayable (eChain e)"
    using session_rep [OF tableCodec_laws s(1)] by (simp_all add: engine_rep_def)
  obtain d' e' where c: "Commit healthy ?cx exNow [exTx []] d e = (Inr exEmpty, d', e')"
    using Commit_healthy [OF st p exEmpty_encoded len] .
  have "store_rep ?cx (d', eStore e') (cBlocks (eChain e) @ [exEmpty])"
    using Commit_store_rep [OF st rp p len c] by simp
  then obtain d2 e2 where cl: "Engine_Close healthy d' e' = (Inr (), d2, e2)"
    using session_Close_healthy by blast
  have op: "\<lparr>opKey = ''a'', opValue = Some [], opDelete = False\<rparr> \<in> set (blockOps exEmpty)"
    by (simp add: exEmpty_def blockOps_def exTx_def)
  have y: "fourDigitYears exEmpty"
    by (simp add: fourDigitYears_def exEmpty_def newBlock_def sealBlock_def newHeader_def exTx_def exNow_def exHeader_def)
  have h: "hHeight (bHeader exEmpty) = 1" by (simp add: exEmpty_def nextHeight_def emptyChain_def)
  have "fst (Engine_Open healthy ?cx True d2) = Inl (RecordHashMismatch 1) \<or>
      hashInput (gobBlock exEmpty) \<noteq> hashInput exEmpty \<and> Hash (hashInput (gobBlock exEmpty)) = Hash (hashInput exEmpty)"
    using empty_value_breaks_reopen [OF tableCodec_laws s(1) p _ op y len c cl, of True] h by simp
  with c cl show ?thesis by blast
qed

text \<open>
  C14: A failed opening never releases the lock: once the lock file is created, every error of
  \<open>Open\<close> leaves it behind, so every later attempt fails for the lock, whatever the first error
  was.
\<close>

theorem failed_Open_keeps_lock:
  "\<not> fails env MkdirAll \<Longrightarrow> \<not> fails env LockCreate \<Longrightarrow> Engine_Open env cx ag d = (Inl x, d') \<Longrightarrow>
   \<not> fails env' MkdirAll \<Longrightarrow> Engine_Open env' cx ag' d' = (Inl LockUnavailable, d')"
  by (simp add: Engine_Open_locked Engine_Open_lock)

theorem failed_Open_keeps_lock_witness:
  "let env = healthy\<lparr>fails := (\<lambda>c. c = ReadDirData)\<rparr>; d' = emptyDisk\<lparr>dLock := True\<rparr> in
   Engine_Open env exCodec True emptyDisk = (Inl (IOFailed ReadDirData), d') \<and>
   Engine_Open healthy exCodec True d' = (Inl LockUnavailable, d')"
proof -
  let ?env = "healthy\<lparr>fails := (\<lambda>c. c = ReadDirData)\<rparr>"
  have o: "Engine_Open ?env exCodec True emptyDisk = (Inl (IOFailed ReadDirData), emptyDisk\<lparr>dLock := True\<rparr>)"
    by (simp add: Engine_Open_def Storage_Open_def recoverSegments_def emptyDisk_def)
  from failed_Open_keeps_lock [OF _ _ o, of healthy True] o show ?thesis by simp
qed

text \<open>
  C13: A block whose record is larger than a segment is refused by \<open>Commit\<close> only after it was
  written to the write-ahead log, and from then on the directory cannot be opened any more.
\<close>

theorem oversized_block_blocks_open:
  assumes "codec_laws cx" and "session cx d e" and "prepareBlock now txs (eChain e) = Inr b" and "noEmptyValues txs"
    and "gobEncode cx b = Some p" and "defaultSegmentSize < length (frame cx p)" and "length (frameBody cx p) < 2 ^ 32"
    and "hRecordHash (bHeader b) \<noteq> lastHash (eChain e)"
  shows "\<exists>d'. Commit healthy cx now txs d e = (Inl RecordExceedsSegment, d', e) \<and>
    fst (Engine_Open healthy cx ag (d'\<lparr>dLock := False\<rparr>)) \<in>
      {Inl RecordExceedsSegment, Inl (InvalidRecordSize (length (frameBody cx p)))}"
  by (rule oversized_block_lemma [OF session_rep [OF assms(1,2)] assms(3) prepareBlock_stable [OF assms(3,4)] assms(5-8)])

theorem oversized_block_blocks_open_witness:
  "\<exists>d e d'. Commit healthy bigCodec exNow [exTx [7]] d e = (Inl RecordExceedsSegment, d', e) \<and>
     isl (fst (Engine_Open healthy bigCodec False (d'\<lparr>dLock := False\<rparr>)))"
proof -
  obtain e d where s: "session bigCodec d e" "eChain e = emptyChain"
    using emptyDisk_session [OF bigCodec_laws] .
  have p: "prepareBlock exNow [exTx [7]] (eChain e) = Inr exFirst" by (simp add: s(2) exFirst_prepared)
  have ne: "noEmptyValues [exTx [7]]" by (simp add: noEmptyValues_def exTx_def)
  have fr: "hRecordHash (bHeader exFirst) \<noteq> lastHash (eChain e)" by (simp only: s(2) exFirst_fresh not_False_eq_True)
  have big: "defaultSegmentSize < length (frame bigCodec bigPayload)"
    "length (frameBody bigCodec bigPayload) < 2 ^ 32"
    unfolding length_frame bigCodec_encodes(2) by (simp_all add: defaultSegmentSize_def)
  show ?thesis
    using oversized_block_blocks_open [OF bigCodec_laws s(1) p ne bigCodec_encodes(1) big fr, of False] by force
qed

end
