(* ===== verification/EngineHistory.thy ===== *)
theory EngineHistory
  imports EngineStore
begin

text \<open>
  History is append-only. The locale \<open>temporal_store\<close> is the contract of a store that keeps every
  past version: a step only adds heights, and what a lookup gives at a height that exists
  never changes. It is interpreted on the engine with \<open>GetAt\<close>, commits and batches, under any failures.
\<close>

subsection \<open>The contract\<close>

locale temporal_store =
  fixes inv :: "'s \<Rightarrow> bool"
    and height :: "'s \<Rightarrow> nat"
    and lookup :: "'s \<Rightarrow> nat \<Rightarrow> 'k \<Rightarrow> 'v option"
    and step :: "'s \<Rightarrow> 's \<Rightarrow> bool"
  assumes step_inv: "inv s \<Longrightarrow> step s s' \<Longrightarrow> inv s'"
    and step_height: "inv s \<Longrightarrow> step s s' \<Longrightarrow> height s \<le> height s'"
    and step_lookup: "inv s \<Longrightarrow> step s s' \<Longrightarrow> h \<le> height s \<Longrightarrow> lookup s' h k = lookup s h k"
begin

lemma steps_inv: "step\<^sup>*\<^sup>* s s' \<Longrightarrow> inv s \<Longrightarrow> inv s'"
  by (induction rule: rtranclp_induct) (auto intro: step_inv)

lemma steps_height: "step\<^sup>*\<^sup>* s s' \<Longrightarrow> inv s \<Longrightarrow> height s \<le> height s'"
  by (induction rule: rtranclp_induct) (use steps_inv step_height in \<open>fastforce+\<close>)

lemma steps_lookup: "step\<^sup>*\<^sup>* s s' \<Longrightarrow> inv s \<Longrightarrow> h \<le> height s \<Longrightarrow> lookup s' h k = lookup s h k"
proof (induction rule: rtranclp_induct)
  case (step t u)
  have "inv t" "h \<le> height t"
    using steps_inv [OF step.hyps(1)] steps_height [OF step.hyps(1)] step.prems by auto
  with step show ?case using step_lookup by metis
qed simp

end

subsection \<open>Steps of an engine\<close>

text \<open>
  What happens to the engine of one process: commits and batches with any outcome, as long as
  heights fit their 64 bits.
\<close>

inductive engine_step :: "codec \<Rightarrow> disk \<times> Engine \<Rightarrow> disk \<times> Engine \<Rightarrow> bool" for cx where
  commits: "Commit env cx now txs d e = (r, d', e') \<Longrightarrow> length (cBlocks (eChain e')) < 2 ^ 64 \<Longrightarrow>
    engine_step cx (d, e) (d', e')"
| batches: "CommitOperations w cx ops sender n d e = (r', d', e') \<Longrightarrow> length (cBlocks (eChain e')) < 2 ^ 64 \<Longrightarrow>
    engine_step cx (d, e) (d', e')"

inductive_cases engine_stepE: "engine_step cx (d, e) (d', e')"

definition extends :: "Block list \<Rightarrow> Engine \<Rightarrow> bool" where
  "extends bs e \<longleftrightarrow> take (length bs) (cBlocks (eChain e)) = bs"

lemma extends_refl [simp]: "extends (cBlocks (eChain e)) e"
  by (simp add: extends_def)

lemma Commit_extends: "extends bs e \<Longrightarrow> Commit env cx now txs d e = (r, d', e') \<Longrightarrow> extends bs e'"
proof -
  assume b: "extends bs e" and c: "Commit env cx now txs d e = (r, d', e')"
  have "length bs \<le> length (cBlocks (eChain e))" using b by (metis extends_def length_take min.cobounded1)
  from c show "extends bs e'"
    by (cases rule: Commit_cases) (use b \<open>length bs \<le> length (cBlocks (eChain e))\<close> in \<open>auto simp: extends_def\<close>)
qed

lemma CommitOperations_extends:
  assumes "extends bs e" and "CommitOperations w cx ops sender n d e = (r, d', e')"
  shows "extends bs e'"
  by (rule CommitOperations_invariant [where P = "\<lambda>_. extends bs", OF Commit_extends assms])

lemma engine_step_extends: "engine_step cx (d, e) (d', e') \<Longrightarrow> extends (cBlocks (eChain e)) e'"
  by (elim engine_stepE) (blast intro: Commit_extends CommitOperations_extends extends_refl)+

definition sound :: "disk \<times> Engine \<Rightarrow> bool" where
  "sound s \<longleftrightarrow> replayable (eChain (snd s)) \<and> length (cBlocks (eChain (snd s))) < 2 ^ 64"

lemma engine_step_sound: "engine_step cx (d, e) (d', e') \<Longrightarrow> sound (d, e) \<Longrightarrow> sound (d', e')"
  by (elim engine_stepE) (auto simp: sound_def intro: Commit_replayable CommitOperations_replayable)

interpretation temporal: temporal_store sound "\<lambda>s. length (cBlocks (eChain (snd s)))"
  "\<lambda>s h k. GetAt (snd s) k (of_nat h)" "engine_step cx" for cx
proof unfold_locales
  fix s s' :: "disk \<times> Engine"
  assume s: "sound s" and t: "engine_step cx s s'"
  show s': "sound s'" using engine_step_sound s t by (cases s; cases s') auto
  have e: "extends (cBlocks (eChain (snd s))) (snd s')" using engine_step_extends t by (cases s; cases s') auto
  then show le: "length (cBlocks (eChain (snd s))) \<le> length (cBlocks (eChain (snd s')))"
    by (metis extends_def length_take min.cobounded1)
  fix h k
  assume h: "h \<le> length (cBlocks (eChain (snd s)))"
  have "take h (cBlocks (eChain (snd s'))) = take h (take (length (cBlocks (eChain (snd s)))) (cBlocks (eChain (snd s'))))"
    using h by simp
  also have "\<dots> = take h (cBlocks (eChain (snd s)))" using e by (simp add: extends_def)
  finally have "take h (cBlocks (eChain (snd s'))) = take h (cBlocks (eChain (snd s)))" .
  moreover have "unat (of_nat h :: u64) = h" using h s by (simp add: sound_def unat_of_nat)
  ultimately show "GetAt (snd s') k (of_nat h) = GetAt (snd s) k (of_nat h)"
    using s s' by (simp add: sound_def GetAt_replayable)
qed

subsection \<open>Property\<close>

text \<open>
  C6: History never changes. From a reachable engine, through any commits and batches with any
  outcome and under any failures, \<open>GetAt\<close> at a height that existed at the start gives for every
  key what it gave at the start.
\<close>

theorem history_immutable:
  assumes "reachable cx d e" and "length (cBlocks (eChain e)) < 2 ^ 64"
    and "(engine_step cx)\<^sup>*\<^sup>* (d, e) (d', e')" and "unat h \<le> length (cBlocks (eChain e))"
  shows "GetAt e' key h = GetAt e key h"
  using temporal.steps_lookup [OF assms(3), of "unat h" key] assms reachable_replayable [OF assms(1)]
  by (simp add: sound_def)

theorem history_immutable_witness:
  "\<exists>e d e' d'. reachable exChainCodec d e \<and> (engine_step exChainCodec)\<^sup>*\<^sup>* (d, e) (d', e') \<and>
     cBlocks (eChain e') = [exFirst] \<and> GetAt e' ''a'' 0 = GetAt e ''a'' 0"
proof (rule exFirst_committed)
  fix e d e' d'
  assume a: "Engine_Open healthy exChainCodec False emptyDisk = (Inr e, d)" "eChain e = emptyChain"
    "Commit healthy exChainCodec exNow [exTx [7]] d e = (Inr exFirst, d', e')"
    "eChain e' = commitBlock exFirst emptyChain"
  have b: "cBlocks (eChain e') = [exFirst]" by (simp add: a(4) emptyChain_def)
  have "engine_step exChainCodec (d, e) (d', e')" using a(3) by (rule engine_step.commits) (simp add: b)
  then have s: "(engine_step exChainCodec)\<^sup>*\<^sup>* (d, e) (d', e')" by (rule r_into_rtranclp)
  have len: "length (cBlocks (eChain e)) < 2 ^ 64" by (simp add: a(2) emptyChain_def)
  have h: "unat (0 :: u64) \<le> length (cBlocks (eChain e))" by simp
  from history_immutable [OF reachable.opened [OF a(1)] len s h] reachable.opened [OF a(1)] s b
  show ?thesis by blast
qed

subsection \<open>Progress\<close>

lemma prepareBlock_progress:
  assumes "txs \<noteq> []" and "\<forall>tx \<in> set txs. txID tx \<noteq> [] \<and> (\<forall>op \<in> set (txOps tx). opKey op \<noteq> [])"
    and "\<exists>tx \<in> set txs. \<exists>op \<in> set (txOps tx). applyState op (cState c) \<noteq> cState c"
  obtains b where "prepareBlock now txs c = Inr b"
proof (cases "prepareBlock now txs c")
  case (Inl x)
  have filtered: "\<exists>fops s'. filterOps ops s = Inr (fops, s')" if "\<forall>op \<in> set ops. opKey op \<noteq> []" for ops s
    using that
  proof (induction ops arbitrary: s)
    case (Cons a ops)
    from Cons.IH [of s] Cons.IH [of "applyState a s"] Cons.prems show ?case by auto
  qed simp
  have "\<exists>ftxs s'. filterTxs us s = Inr (ftxs, s')"
    if "\<forall>tx \<in> set us. txID tx \<noteq> [] \<and> (\<forall>op \<in> set (txOps tx). opKey op \<noteq> [])" for us s
    using that
  proof (induction us arbitrary: s)
    case (Cons u us)
    obtain fops s1 where "filterOps (txOps u) s = Inr (fops, s1)" using filtered Cons.prems by force
    moreover obtain ftxs s2 where "filterTxs us s1 = Inr (ftxs, s2)" using Cons by fastforce
    ultimately show ?case using Cons.prems by simp
  qed simp
  from this [OF assms(2)] obtain ftxs s' where "filterTxs txs (cState c) = Inr (ftxs, s')" by blast
  then have "x = NoStateChange" using Inl assms(1) by (simp add: prepareBlock_def split: if_splits)
  with Inl have "prepareBlock now txs c = Inl NoStateChange" by simp
  then have "\<forall>tx \<in> set txs. \<forall>op \<in> set (txOps tx). applyState op (cState c) = cState c"
    unfolding prepareBlock_NoStateChange_iff by blast
  with assms(3) show ?thesis by blast
qed (rule that)

text \<open>
  C7: Progress. In a session a commit of transactions that have ids and keys, and of which some
  operation changes the state, succeeds when no operating-system call fails and the record
  fits a segment: the chain grows by one block, and the state is the result of the operations.
\<close>

theorem Commit_progress:
  assumes cx: "codec_laws cx" and s: "session cx d e" and ids: "txs \<noteq> []"
      "\<forall>tx \<in> set txs. txID tx \<noteq> [] \<and> (\<forall>op \<in> set (txOps tx). opKey op \<noteq> [])"
    and change: "\<exists>tx \<in> set txs. \<exists>op \<in> set (txOps tx). applyState op (cState (eChain e)) \<noteq> cState (eChain e)"
    and fits: "\<forall>b. prepareBlock now txs (eChain e) = Inr b \<longrightarrow>
      (\<exists>p. gobEncode cx b = Some p \<and> length (frame cx p) \<le> defaultSegmentSize)"
    and len: "length (cBlocks (eChain e)) + 2 < 2 ^ 64"
  shows "\<exists>b d' e'. Commit healthy cx now txs d e = (Inr b, d', e') \<and>
    cBlocks (eChain e') = cBlocks (eChain e) @ [b] \<and>
    cState (eChain e') = runOps (concat (map txOps txs)) (cState (eChain e))"
proof -
  obtain b where b: "prepareBlock now txs (eChain e) = Inr b" using prepareBlock_progress [OF ids change] .
  then obtain p where p: "gobEncode cx b = Some p" "length (frame cx p) \<le> defaultSegmentSize" using fits by blast
  have "store_rep cx (d, eStore e) (cBlocks (eChain e))" using session_rep [OF cx s] by (simp add: engine_rep_def)
  from Commit_healthy [OF this b p len] obtain d' e' where c: "Commit healthy cx now txs d e = (Inr b, d', e')" by blast
  from Commit_runs [OF c] c show ?thesis by auto
qed

theorem Commit_progress_witness:
  "\<exists>d e b d' e'. session exChainCodec d e \<and> eChain e = emptyChain \<and>
     Commit healthy exChainCodec exNow [exTx [7]] d e = (Inr b, d', e') \<and> cBlocks (eChain e') = [b]"
proof (rule ex_session)
  fix e d e' d'
  assume s: "session exChainCodec d e" and c: "eChain e = emptyChain"
  have "fmupd ''a'' [7::8 word] fmempty \<noteq> fmempty" by (simp add: fmupd_same_iff)
  then have change: "\<exists>tx \<in> set [exTx [7]]. \<exists>op \<in> set (txOps tx). applyState op (cState (eChain e)) \<noteq> cState (eChain e)"
    by (simp add: c emptyChain_def exTx_def applyState_def)
  have ids: "[exTx [7]] \<noteq> []" "\<forall>tx \<in> set [exTx [7]]. txID tx \<noteq> [] \<and> (\<forall>op \<in> set (txOps tx). opKey op \<noteq> [])"
    by (simp_all add: exTx_def)
  have fits: "\<forall>b. prepareBlock exNow [exTx [7]] (eChain e) = Inr b \<longrightarrow>
      (\<exists>p. gobEncode exChainCodec b = Some p \<and> length (frame exChainCodec p) \<le> defaultSegmentSize)"
    using exFirst_encoded by (simp add: c exFirst_prepared)
  have len: "length (cBlocks (eChain e)) + 2 < 2 ^ 64" by (simp add: c emptyChain_def)
  from Commit_progress [OF exFirst_encoded(1) s ids change fits len] s c show ?thesis by (fastforce simp: emptyChain_def)
qed

end
