(* ===== verification/GoText.thy ===== *)
theory GoText
  imports Golib
begin

text \<open>
  More of Go's standard library as the program uses it: \<open>strings.ToLower\<close>, \<open>TrimSpace\<close>,
  \<open>Split\<close> and \<open>Join\<close>, \<open>strconv.Atoi\<close>, \<open>big.Int.SetString\<close>, the scanner behind \<open>json.Valid\<close>, and
  \<open>filepath.Clean\<close> on Unix paths.

  Case and white space beyond ASCII need the Unicode tables of the Go release; they are the
  parameter \<open>unicode\<close>, which is consulted only for a string with a byte of 128 or more.
\<close>

subsection \<open>Package strings\<close>

record unicode =
  uLower :: "string \<Rightarrow> string"
  uTrim :: "string \<Rightarrow> string"

abbreviation (input) code :: "char \<Rightarrow> nat" where
  "code c \<equiv> of_char c"

definition isASCII :: "string \<Rightarrow> bool" where
  "isASCII s \<longleftrightarrow> list_all (\<lambda>c. code c < 128) s"

definition lowerChar :: "char \<Rightarrow> char" where
  "lowerChar c = (if 65 \<le> code c \<and> code c \<le> 90 then char_of (code c + 32) else c)"

definition ToLower :: "unicode \<Rightarrow> string \<Rightarrow> string" where
  "ToLower u s = (if isASCII s then map lowerChar s else uLower u s)"

definition isSpace :: "char \<Rightarrow> bool" where
  "isSpace c \<longleftrightarrow> code c = 32 \<or> 9 \<le> code c \<and> code c \<le> 13"

definition TrimSpace :: "unicode \<Rightarrow> string \<Rightarrow> string" where
  "TrimSpace u s =
     (if isASCII s then rev (dropWhile isSpace (rev (dropWhile isSpace s))) else uTrim u s)"

text \<open>\<open>strings.Split\<close> at one character; \<open>strings.Join\<close> with one character.\<close>

fun Split :: "char \<Rightarrow> string \<Rightarrow> string list" where
  "Split d [] = [[]]"
| "Split d (c # s) =
     (if c = d then [] # Split d s
      else case Split d s of [] \<Rightarrow> [[c]] | p # ps \<Rightarrow> (c # p) # ps)"

fun Join :: "char \<Rightarrow> string list \<Rightarrow> string" where
  "Join d [] = []"
| "Join d [p] = p"
| "Join d (p # q # ps) = p @ d # Join d (q # ps)"

lemma Split_not_Nil [simp]: "Split d s \<noteq> []"
  by (cases s) (auto split: list.splits)

lemma Join_Split: "Join d (Split d s) = s"
proof (induction s)
  case (Cons c s)
  obtain p ps where sp: "Split d s = p # ps" by (cases "Split d s") auto
  with Cons show ?case by (cases ps) auto
qed simp

lemma Split_no_sep: "\<forall>p \<in> set (Split d s). d \<notin> set p"
  by (induction s) (auto split: list.splits)

lemma ToLower_idem: "isASCII s \<Longrightarrow> ToLower u (ToLower u s) = ToLower u s"
proof -
  have l: "lowerChar (lowerChar c) = lowerChar c" "code c < 128 \<Longrightarrow> code (lowerChar c) < 128" for c
    by (auto simp: lowerChar_def of_char_of)
  assume a: "isASCII s"
  then have "isASCII (map lowerChar s)" using l(2) by (auto simp: isASCII_def list_all_iff)
  with a show ?thesis by (simp add: ToLower_def l(1))
qed

subsection \<open>Numbers\<close>

fun digitsVal :: "(char \<Rightarrow> nat option) \<Rightarrow> nat \<Rightarrow> nat \<Rightarrow> string \<Rightarrow> nat option" where
  "digitsVal dv base acc [] = Some acc"
| "digitsVal dv base acc (c # s) =
     (case dv c of None \<Rightarrow> None | Some d \<Rightarrow> digitsVal dv base (acc * base + d) s)"

definition hval :: "char \<Rightarrow> nat option" where
  "hval c = (let n = code c in
     if 48 \<le> n \<and> n \<le> 57 then Some (n - 48)
     else if 97 \<le> n \<and> n \<le> 102 then Some (n - 87)
     else if 65 \<le> n \<and> n \<le> 70 then Some (n - 55) else None)"

text \<open>An optional sign and at least one digit, as \<open>Atoi\<close> and \<open>SetString\<close> read them.\<close>

definition signedVal :: "(char \<Rightarrow> nat option) \<Rightarrow> nat \<Rightarrow> string \<Rightarrow> int option" where
  "signedVal dv base s =
     (let neg = (s \<noteq> [] \<and> hd s = CHR ''-'');
          t = (if s \<noteq> [] \<and> (hd s = CHR ''-'' \<or> hd s = CHR ''+'') then tl s else s)
      in if t = [] then None
         else map_option (\<lambda>n. if neg then - int n else int n) (digitsVal dv base 0 t))"

text \<open>\<open>strconv.Atoi\<close>, None for a syntax error or a value outside 64 bits.\<close>

definition Atoi :: "string \<Rightarrow> int option" where
  "Atoi s = (case signedVal dval 10 s of
      None \<Rightarrow> None
    | Some n \<Rightarrow> if - (2 ^ 63) \<le> n \<and> n < 2 ^ 63 then Some n else None)"

text \<open>\<open>new(big.Int).SetString(s, base)\<close> for the bases 10 and 16.\<close>

definition SetString :: "string \<Rightarrow> nat \<Rightarrow> int option" where
  "SetString s base = signedVal (if base = 16 then hval else dval) base s"

lemma digitsVal_append:
  "digitsVal dv base acc (s @ t) =
     (case digitsVal dv base acc s of None \<Rightarrow> None | Some n \<Rightarrow> digitsVal dv base n t)"
  by (induction s arbitrary: acc) (simp_all split: option.split)

lemma digitsVal_dec: "digitsVal dval 10 0 (dec n) = Some n"
proof (induction n rule: dec.induct)
  case (1 n)
  then show ?case
    by (subst dec.simps) (simp add: digitsVal_append)
qed

subsection \<open>json.Valid\<close>

text \<open>
  The scanner of \<open>encoding/json\<close>: a state and a stack of what is being parsed, one step per
  byte. At the end of the input the scanner steps over one more space; the text is valid if it
  then is at the end of a top-level value.
\<close>

datatype jscan =
    BeginValue | BeginValueOrEmpty | BeginString | BeginStringOrEmpty | EndValue | EndTop
  | InString | InStringEsc | InStringEscU nat
  | Neg | Num1 | Num0 | Dot | Dot0 | NumE | NumESign | NumE0
  | Literal string | ScanError

datatype jparse = ObjectKey | ObjectValue | ArrayValue

definition jsonSpace :: "nat \<Rightarrow> bool" where
  "jsonSpace c \<longleftrightarrow> c = 32 \<or> c = 9 \<or> c = 13 \<or> c = 10"

definition jdigit :: "nat \<Rightarrow> bool" where
  "jdigit c \<longleftrightarrow> 48 \<le> c \<and> c \<le> 57"

definition jhex :: "nat \<Rightarrow> bool" where
  "jhex c \<longleftrightarrow> jdigit c \<or> 97 \<le> c \<and> c \<le> 102 \<or> 65 \<le> c \<and> c \<le> 70"

definition jpop :: "jparse list \<Rightarrow> jscan \<times> jparse list" where
  "jpop st = (if tl st = [] then EndTop else EndValue, tl st)"

definition jpush :: "jscan \<Rightarrow> jparse \<Rightarrow> jparse list \<Rightarrow> jscan \<times> jparse list" where
  "jpush s p st = (if length st < 10000 then s else ScanError, p # st)"

definition jEndValue :: "nat \<Rightarrow> jparse list \<Rightarrow> jscan \<times> jparse list" where
  "jEndValue c st =
     (case st of
        [] \<Rightarrow> (if jsonSpace c then EndTop else ScanError, st)
      | p # ps \<Rightarrow>
          if jsonSpace c then (EndValue, st)
          else (case p of
             ObjectKey \<Rightarrow> (if c = 58 then (BeginValue, ObjectValue # ps) else (ScanError, st))
           | ObjectValue \<Rightarrow>
               (if c = 44 then (BeginString, ObjectKey # ps)
                else if c = 125 then jpop st else (ScanError, st))
           | ArrayValue \<Rightarrow>
               (if c = 44 then (BeginValue, st) else if c = 93 then jpop st else (ScanError, st))))"

definition jBeginValue :: "nat \<Rightarrow> jparse list \<Rightarrow> jscan \<times> jparse list" where
  "jBeginValue c st =
     (if jsonSpace c then (BeginValue, st)
      else if c = 123 then jpush BeginStringOrEmpty ObjectKey st
      else if c = 91 then jpush BeginValueOrEmpty ArrayValue st
      else if c = 34 then (InString, st)
      else if c = 45 then (Neg, st)
      else if c = 48 then (Num0, st)
      else if c = 116 then (Literal ''rue'', st)
      else if c = 102 then (Literal ''alse'', st)
      else if c = 110 then (Literal ''ull'', st)
      else if 49 \<le> c \<and> c \<le> 57 then (Num1, st)
      else (ScanError, st))"

definition jBeginString :: "nat \<Rightarrow> jparse list \<Rightarrow> jscan \<times> jparse list" where
  "jBeginString c st =
     (if jsonSpace c then (BeginString, st) else if c = 34 then (InString, st) else (ScanError, st))"

definition jNum0 :: "nat \<Rightarrow> jparse list \<Rightarrow> jscan \<times> jparse list" where
  "jNum0 c st =
     (if c = 46 then (Dot, st) else if c = 101 \<or> c = 69 then (NumE, st) else jEndValue c st)"

fun jstep :: "nat \<Rightarrow> jscan \<times> jparse list \<Rightarrow> jscan \<times> jparse list" where
  "jstep c (BeginValue, st) = jBeginValue c st"
| "jstep c (BeginValueOrEmpty, st) =
     (if jsonSpace c then (BeginValueOrEmpty, st)
      else if c = 93 then jEndValue c st else jBeginValue c st)"
| "jstep c (BeginString, st) = jBeginString c st"
| "jstep c (BeginStringOrEmpty, st) =
     (if jsonSpace c then (BeginStringOrEmpty, st)
      else if c = 125 then jEndValue c (ObjectValue # tl st) else jBeginString c st)"
| "jstep c (EndValue, st) = jEndValue c st"
| "jstep c (EndTop, st) = (if jsonSpace c then EndTop else ScanError, st)"
| "jstep c (InString, st) =
     (if c = 34 then (EndValue, st) else if c = 92 then (InStringEsc, st)
      else if c < 32 then (ScanError, st) else (InString, st))"
| "jstep c (InStringEsc, st) =
     (if c \<in> {98, 102, 110, 114, 116, 92, 47, 34} then (InString, st)
      else if c = 117 then (InStringEscU 3, st) else (ScanError, st))"
| "jstep c (InStringEscU k, st) =
     (if jhex c then (if k = 0 then InString else InStringEscU (k - 1), st) else (ScanError, st))"
| "jstep c (Neg, st) =
     (if c = 48 then (Num0, st) else if 49 \<le> c \<and> c \<le> 57 then (Num1, st) else (ScanError, st))"
| "jstep c (Num1, st) = (if jdigit c then (Num1, st) else jNum0 c st)"
| "jstep c (Num0, st) = jNum0 c st"
| "jstep c (Dot, st) = (if jdigit c then (Dot0, st) else (ScanError, st))"
| "jstep c (Dot0, st) =
     (if jdigit c then (Dot0, st) else if c = 101 \<or> c = 69 then (NumE, st) else jEndValue c st)"
| "jstep c (NumE, st) =
     (if c = 43 \<or> c = 45 then (NumESign, st) else if jdigit c then (NumE0, st) else (ScanError, st))"
| "jstep c (NumESign, st) = (if jdigit c then (NumE0, st) else (ScanError, st))"
| "jstep c (NumE0, st) = (if jdigit c then (NumE0, st) else jEndValue c st)"
| "jstep c (Literal s, st) =
     (case s of
        [] \<Rightarrow> jEndValue c st
      | x # xs \<Rightarrow> if c = of_char x then (if xs = [] then EndValue else Literal xs, st) else (ScanError, st))"
| "jstep c (ScanError, st) = (ScanError, st)"

definition json_Valid :: "bytes \<Rightarrow> bool" where
  "json_Valid b = (fst (jstep 32 (fold jstep (map unat b) (BeginValue, []))) = EndTop)"

lemma json_Valid_examples:
  "json_Valid (bytes_of ''1'')" "json_Valid (bytes_of '' {}'')" "\<not> json_Valid (bytes_of ''{'')"
  "\<not> json_Valid []" "json_Valid (bytes_of ''[true,-0.5e+3,[]]'')" "\<not> json_Valid (bytes_of ''01'')"
  by (simp_all add: json_Valid_def bytes_of_def jBeginValue_def jsonSpace_def jNum0_def jEndValue_def
      jpush_def jpop_def jdigit_def)

subsection \<open>filepath.Clean\<close>

text \<open>
  Unix paths: empty and \<open>.\<close> elements go, \<open>..\<close> takes the element before it away, or goes when
  the path is rooted, and stays otherwise; the empty result is \<open>.\<close>.
\<close>

fun cleanElems :: "bool \<Rightarrow> string list \<Rightarrow> string list \<Rightarrow> string list" where
  "cleanElems rooted out [] = rev out"
| "cleanElems rooted out (p # ps) =
     (if p = [] \<or> p = ''.'' then cleanElems rooted out ps
      else if p = ''..'' then
        (if out \<noteq> [] \<and> hd out \<noteq> ''..'' then cleanElems rooted (tl out) ps
         else if rooted then cleanElems rooted out ps
         else cleanElems rooted (''..'' # out) ps)
      else cleanElems rooted (p # out) ps)"

definition isAbs :: "string \<Rightarrow> bool" where
  "isAbs p \<longleftrightarrow> HasPrefix p ''/''"

definition Clean :: "string \<Rightarrow> string" where
  "Clean p =
     (let e = cleanElems (isAbs p) [] (Split (CHR ''/'') p)
      in if isAbs p then CHR ''/'' # Join (CHR ''/'') e
         else if e = [] then ''.'' else Join (CHR ''/'') e)"

lemma Clean_examples:
  "Clean ''a/../b//c/.'' = ''b/c''" "Clean ''../x/../../y'' = ''../../y''" "Clean ''/../x'' = ''/x''" "Clean [] = ''.''"
  by (simp_all add: Clean_def isAbs_def HasPrefix_def)

end
