(* ===== verification/Domain.thy ===== *)
theory Domain
  imports Engine GoText "HOL-Library.Multiset"
begin

text \<open>
  The typed writes of \<open>internal/engine/engine.go\<close>: contracts, contract storage, ZK fields,
  receipts, accounts, logs and execution bundles, each one transaction under a key prefix;
  the log query; the state snapshots.

  The random id and the two clock readings of a write (transaction and block) come in the
  record \<open>stamp\<close>.
\<close>

record stamp =
  sRandom :: bytes
  sTxTime :: gotime
  sBlockTime :: gotime

text \<open>One transaction of the given kind: what every typed write ends in.\<close>

definition commitTx :: "env \<Rightarrow> codec \<Rightarrow> stamp \<Rightarrow> Operation list \<Rightarrow> string \<Rightarrow> string \<Rightarrow> disk \<Rightarrow> Engine \<Rightarrow>
    (error + Block) \<times> disk \<times> Engine" where
  "commitTx env cx t ops sender kind d e =
     Commit env cx (sBlockTime t)
       [(NewTransaction (sRandom t) (sTxTime t) ops sender 0 [])\<lparr>txKind := kind\<rparr>] d e"

definition putOp :: "string \<Rightarrow> bytes option \<Rightarrow> Operation" where
  "putOp k v = \<lparr>opKey = k, opValue = v, opDelete = False\<rparr>"

text \<open>The keys of the typed entries.\<close>

definition accountKey :: "unicode \<Rightarrow> string \<Rightarrow> string" where
  "accountKey u address = ''account/'' @ ToLower u address"

definition codeKey :: "string \<Rightarrow> string" where
  "codeKey address = ''contract/code/'' @ address"

definition storageKey :: "string \<Rightarrow> string" where
  "storageKey key = ''contract-storage/'' @ key"

definition receiptKey :: "string \<Rightarrow> string" where
  "receiptKey txid = ''receipt/'' @ txid"

definition logEntryKey :: "string \<Rightarrow> string" where
  "logEntryKey key = ''log/'' @ key"

subsection \<open>Contracts, ZK fields, receipts, accounts, logs\<close>

definition PutContract :: "env \<Rightarrow> codec \<Rightarrow> stamp \<Rightarrow> string \<Rightarrow> bytes option \<Rightarrow> bytes \<Rightarrow> disk \<Rightarrow> Engine \<Rightarrow>
    (error + Block) \<times> disk \<times> Engine" where
  "PutContract env cx t address bytecode abi d e =
     commitTx env cx t
       (putOp (codeKey address) bytecode
          # (if abi \<noteq> [] then [putOp (''contract/abi/'' @ address) (Some abi)] else []))
       ''contract-deployer'' ''contract_deploy'' d e"

definition PutContractStorage :: "env \<Rightarrow> codec \<Rightarrow> stamp \<Rightarrow> string \<Rightarrow> string \<Rightarrow> bytes option \<Rightarrow> disk \<Rightarrow> Engine \<Rightarrow>
    (error + Block) \<times> disk \<times> Engine" where
  "PutContractStorage env cx t address slot value d e =
     commitTx env cx t [putOp (storageKey (address @ ''/'' @ slot)) value]
       ''contract-runtime'' ''contract_storage'' d e"

definition PutZKField :: "env \<Rightarrow> codec \<Rightarrow> stamp \<Rightarrow> string \<Rightarrow> string \<Rightarrow> bytes option \<Rightarrow> disk \<Rightarrow> Engine \<Rightarrow>
    (error + Block) \<times> disk \<times> Engine" where
  "PutZKField env cx t circuit name value d e =
     commitTx env cx t [putOp (''zk/'' @ circuit @ ''/'' @ name) value] ''zk-module'' ''zk_field'' d e"

text \<open>\<open>json.Valid\<close> of a nil slice is false, as of an empty one.\<close>

definition PutReceipt :: "env \<Rightarrow> codec \<Rightarrow> stamp \<Rightarrow> string \<Rightarrow> bytes \<Rightarrow> disk \<Rightarrow> Engine \<Rightarrow>
    (error + Block) \<times> disk \<times> Engine" where
  "PutReceipt env cx t txid receipt d e =
     (if \<not> json_Valid receipt then (Inl (InvalidJSON ''receipt''), d, e)
      else commitTx env cx t [putOp (receiptKey txid) (Some receipt)] ''execution'' ''receipt'' d e)"

definition PutAccount :: "unicode \<Rightarrow> env \<Rightarrow> codec \<Rightarrow> stamp \<Rightarrow> string \<Rightarrow> bytes \<Rightarrow> disk \<Rightarrow> Engine \<Rightarrow>
    (error + Block) \<times> disk \<times> Engine" where
  "PutAccount u env cx t address accountJSON d e =
     (if \<not> json_Valid accountJSON then (Inl (InvalidJSON ''account''), d, e)
      else commitTx env cx t [putOp (accountKey u address) (Some accountJSON)]
        ''execution'' ''account_state'' d e)"

definition logKey :: "string \<Rightarrow> u64 \<Rightarrow> string" where
  "logKey txid index = logEntryKey (txid @ ''/'' @ pad0 20 (dec (unat index)))"

definition PutLog :: "env \<Rightarrow> codec \<Rightarrow> stamp \<Rightarrow> string \<Rightarrow> u64 \<Rightarrow> bytes \<Rightarrow> disk \<Rightarrow> Engine \<Rightarrow>
    (error + Block) \<times> disk \<times> Engine" where
  "PutLog env cx t txid index logJSON d e =
     (if \<not> json_Valid logJSON then (Inl (InvalidJSON ''log''), d, e)
      else commitTx env cx t [putOp (logKey txid index) (Some logJSON)] ''execution'' ''event_log'' d e)"

definition logMatches :: "unicode \<Rightarrow> string \<Rightarrow> string \<Rightarrow> string \<Rightarrow> bytes \<Rightarrow> bool" where
  "logMatches u address topic k v \<longleftrightarrow>
     HasPrefix k ''log/'' \<and>
     (address = [] \<or> Contains (ToLower u (string_of v)) address) \<and>
     (topic = [] \<or> Contains (ToLower u (string_of v)) topic)"

definition QueryLogs :: "unicode \<Rightarrow> string \<Rightarrow> string \<Rightarrow> Engine \<Rightarrow> (string, string) fmap" where
  "QueryLogs u address topic e =
     (let s = cState (eChain e); a = ToLower u address; p = ToLower u topic
      in fmmap string_of (fmfilter (\<lambda>k. logMatches u a p k (lookup0 s k)) s))"

subsection \<open>Field elements\<close>

definition zkModuli :: "(string \<times> int) list" where
  "zkModuli =
     [(''bn254'', 21888242871839275222246405745257275088548364400416034343698204186575808495617),
      (''bls12-381-scalar'', 52435875175126190479447740508185965837690552500527637822603658699938581184513)]"

definition ValidateFieldValue :: "unicode \<Rightarrow> string \<Rightarrow> string \<Rightarrow> error + unit" where
  "ValidateFieldValue u field value =
     (case map_of zkModuli (ToLower u field) of
        None \<Rightarrow> Inl (UnsupportedZKField field)
      | Some m \<Rightarrow>
         (let n = (if HasPrefix value ''0x'' then SetString (TrimPrefix value ''0x'') 16
                   else SetString value 10)
          in case n of
               None \<Rightarrow> Inl InvalidFieldElement
             | Some n \<Rightarrow> if n < 0 then Inl InvalidFieldElement
                         else if m \<le> n then Inl (FieldElementOutside field) else Inr ()))"

text \<open>The payload: \<open>json.Marshal\<close> of a map writes the keys in order.\<close>

definition fieldPayload :: "string \<Rightarrow> string \<Rightarrow> bytes" where
  "fieldPayload field value = bytes_of (json_object
     [json_field ''field'' (json_string field), json_field ''value'' (json_string value)])"

definition PutValidatedZKField :: "unicode \<Rightarrow> env \<Rightarrow> codec \<Rightarrow> stamp \<Rightarrow> string \<Rightarrow> string \<Rightarrow> string \<Rightarrow> string \<Rightarrow>
    disk \<Rightarrow> Engine \<Rightarrow> (error + Block) \<times> disk \<times> Engine" where
  "PutValidatedZKField u env cx t field circuit name value d e =
     (case ValidateFieldValue u field value of
        Inl x \<Rightarrow> (Inl x, d, e)
      | Inr _ \<Rightarrow> PutZKField env cx t circuit name (Some (fieldPayload field value)) d e)"

subsection \<open>Snapshots\<close>

definition checksumPayload :: "u64 \<Rightarrow> string \<Rightarrow> string \<Rightarrow> nat \<Rightarrow> bytes" where
  "checksumPayload height hash root keys = bytes_of (json_object
     [json_field ''Height'' (json_uint (unat height)), json_field ''Hash'' (json_string hash),
      json_field ''Root'' (json_string root), json_field ''Keys'' (json_uint keys)])"

definition snapshotOf :: "gotime \<Rightarrow> Chain \<Rightarrow> Snapshot" where
  "snapshotOf now c =
     (let h = of_nat (length (cBlocks c)); root = StateRoot (cState c)
      in \<lparr>snFormat = ''AGISNAP1'', snCreatedAt = now, snHeight = h, snLatestHash = lastHash c,
          snStateRoot = root, snState = cState c, snBlockCount = h, snTxCount = cTxCount c,
          snChecksum = Hash (checksumPayload h (lastHash c) root (fcard (fmdom (cState c))))\<rparr>)"

definition Engine_Snapshot :: "env \<Rightarrow> codec \<Rightarrow> gotime \<Rightarrow> disk \<Rightarrow> Engine \<Rightarrow> (error + string \<times> Snapshot) \<times> disk" where
  "Engine_Snapshot env cx now d e =
     (let s = snapshotOf now (eChain e)
      in case WriteSnapshot env cx s d of
           (Inl x, d) \<Rightarrow> (Inl x, d)
         | (Inr path, d) \<Rightarrow> (Inr (path, s), d))"

definition VerifySnapshot :: "env \<Rightarrow> codec \<Rightarrow> disk \<Rightarrow> string \<Rightarrow> error + Snapshot" where
  "VerifySnapshot env cx d path =
     (case ReadSnapshot env cx d path of
        Inl x \<Rightarrow> Inl x
      | Inr s \<Rightarrow>
          if snFormat s \<noteq> ''AGISNAP1'' then Inl (UnsupportedSnapshotFormat (snFormat s))
          else if StateRoot (snState s) \<noteq> snStateRoot s then Inl SnapshotStateRootMismatch
          else if Hash (checksumPayload (snHeight s) (snLatestHash s) (snStateRoot s)
                    (fcard (fmdom (snState s)))) \<noteq> snChecksum s
            then Inl SnapshotChecksumMismatch
          else Inr s)"

subsection \<open>Execution bundles\<close>

text \<open>
  The maps of a bundle, each as the list of its entries in the order in which the \<open>range\<close> loop
  visits them (any order, by the language). \<open>sort.Slice\<close> is the parameter \<open>srt\<close>: it may order
  operations with the same key in any way.
\<close>

record ExecutionBundle =
  xBlockID :: string
  xSender :: string
  xNonce :: u64
  xAccounts :: "(string \<times> bytes) list"
  xContractCode :: "(string \<times> string) list"
  xStorage :: "(string \<times> string) list"
  xReceipts :: "(string \<times> bytes) list"
  xLogs :: "(string \<times> bytes) list"
  xState :: "(string \<times> string) list"

text \<open>A loop over entries that must be valid JSON; the first bad one in the order ends it.\<close>

fun jsonEntries :: "string \<Rightarrow> (string \<Rightarrow> string) \<Rightarrow> (string \<times> bytes) list \<Rightarrow> error + Operation list" where
  "jsonEntries what key [] = Inr []"
| "jsonEntries what key ((k, raw) # es) =
     (if \<not> json_Valid raw then Inl (InvalidJSON (what @ '' JSON for '' @ k))
      else case jsonEntries what key es of
          Inl x \<Rightarrow> Inl x | Inr ops \<Rightarrow> Inr (putOp (key k) (Some raw) # ops))"

definition textEntries :: "(string \<Rightarrow> string) \<Rightarrow> (string \<times> string) list \<Rightarrow> Operation list" where
  "textEntries key es = map (\<lambda>(k, v). putOp (key k) (Some (bytes_of v))) es"

definition bundleOps :: "unicode \<Rightarrow> ExecutionBundle \<Rightarrow> error + Operation list" where
  "bundleOps u x =
     (case jsonEntries ''account'' (accountKey u) (xAccounts x) of
        Inl e \<Rightarrow> Inl e
      | Inr accounts \<Rightarrow>
         (let codes = textEntries (\<lambda>k. codeKey (ToLower u k)) (xContractCode x);
              storage = textEntries storageKey (xStorage x)
          in case jsonEntries ''receipt'' receiptKey (xReceipts x) of
               Inl e \<Rightarrow> Inl e
             | Inr receipts \<Rightarrow>
                (case jsonEntries ''log'' logEntryKey (xLogs x) of
                   Inl e \<Rightarrow> Inl e
                 | Inr logs \<Rightarrow>
                     Inr (accounts @ codes @ storage @ receipts @ logs @ textEntries (\<lambda>k. k) (xState x)))))"

definition sorts :: "(Operation list \<Rightarrow> Operation list) \<Rightarrow> bool" where
  "sorts srt \<longleftrightarrow> (\<forall>ops. mset (srt ops) = mset ops \<and> sorted (map opKey (srt ops)))"

definition bundleTx :: "stamp \<Rightarrow> ExecutionBundle \<Rightarrow> Operation list \<Rightarrow> Transaction" where
  "bundleTx t x ops =
     (let tx = (NewTransaction (sRandom t) (sTxTime t) ops (xSender x) (xNonce x) [])
                 \<lparr>txKind := ''execution_block''\<rparr>
      in if xBlockID x \<noteq> [] then tx\<lparr>txID := xBlockID x\<rparr> else tx)"

definition CommitExecution :: "unicode \<Rightarrow> (Operation list \<Rightarrow> Operation list) \<Rightarrow> env \<Rightarrow> codec \<Rightarrow> stamp \<Rightarrow>
    ExecutionBundle \<Rightarrow> disk \<Rightarrow> Engine \<Rightarrow> (error + Block) \<times> disk \<times> Engine" where
  "CommitExecution u srt env cx t x d e =
     (case bundleOps u x of
        Inl r \<Rightarrow> (Inl r, d, e)
      | Inr ops \<Rightarrow> Commit env cx (sBlockTime t) [bundleTx t x (srt ops)] d e)"

end
