(* ===== verification/DomainProofs.thy ===== *)
theory DomainProofs
  imports Domain EngineStore
begin

text \<open>
  What the typed writes guarantee: keys that name one entry, field elements below their
  modulus, snapshots that verify, log queries that see what was written, and execution bundles
  whose result does not depend on map iteration order as long as their keys stay distinct.
\<close>

subsection \<open>Keys and numbers\<close>

lemma SetString_dec: "SetString (dec n) 10 = Some (int n)"
  by (simp add: SetString_def signedVal_def dec_no_sign digitsVal_dec Let_def)

lemma length_dec: "n < 10 ^ k \<Longrightarrow> 0 < k \<Longrightarrow> length (dec n) \<le> k"
proof (induction n arbitrary: k rule: dec.induct)
  case (1 n)
  show ?case
  proof (cases "n < 10")
    case True
    with 1(3) show ?thesis by (subst dec.simps) simp
  next
    case False
    have "k \<noteq> 1" using 1(2) False by auto
    then obtain j where j: "k = Suc j" "0 < j" using 1(3) by (cases k) auto
    have "n div 10 < 10 ^ j" using 1(2) by (simp add: j less_mult_imp_div_less mult.commute)
    with 1(1) [OF False _ j(2)] False j show ?thesis by (subst dec.simps) simp
  qed
qed

lemma unat_u64_bound: "unat (n :: u64) < 2 ^ 64"
  using unsigned_less [of n] by simp

lemma length_pad0_dec: "length (pad0 20 (dec (unat (n :: u64)))) = 20"
proof -
  have "unat n < 10 ^ 20" using unat_u64_bound [of n] by simp
  then have "length (dec (unat n)) \<le> 20" by (rule length_dec) simp
  then show ?thesis by (simp add: pad0_def)
qed

lemma logKey_inject_lemma: "logKey a i = logKey b j \<Longrightarrow> a = b \<and> i = j"
proof -
  assume "logKey a i = logKey b j"
  then have "a @ ''/'' @ pad0 20 (dec (unat i)) = b @ ''/'' @ pad0 20 (dec (unat j))"
    by (simp add: logKey_def logEntryKey_def)
  then have "a = b \<and> ''/'' @ pad0 20 (dec (unat i)) = ''/'' @ pad0 20 (dec (unat j))"
    by (rule append_eq_append_conv [THEN iffD1, rotated]) (simp add: length_pad0_dec)
  moreover have "unat i < 2 ^ 64" "unat j < 2 ^ 64" using unat_u64_bound [of i] unat_u64_bound [of j] by simp_all
  ultimately show ?thesis using pad0_dec_inject [of "unat i" "unat j" 20] by (auto simp: word_unat_eq_iff)
qed

subsection \<open>Bundles\<close>

lemma jsonEntries_Inr:
  "jsonEntries what key es = Inr ops \<longleftrightarrow>
     (\<forall>e \<in> set es. json_Valid (snd e)) \<and> ops = map (\<lambda>e. putOp (key (fst e)) (Some (snd e))) es"
proof (induction es arbitrary: ops)
  case (Cons e es)
  then show ?case
    by (cases e; cases "jsonEntries what key es") auto
qed auto

definition sameEntries :: "ExecutionBundle \<Rightarrow> ExecutionBundle \<Rightarrow> bool" where
  "sameEntries x y \<longleftrightarrow> xBlockID x = xBlockID y \<and> xSender x = xSender y \<and> xNonce x = xNonce y \<and>
     mset (xAccounts x) = mset (xAccounts y) \<and> mset (xContractCode x) = mset (xContractCode y) \<and>
     mset (xStorage x) = mset (xStorage y) \<and> mset (xReceipts x) = mset (xReceipts y) \<and>
     mset (xLogs x) = mset (xLogs y) \<and> mset (xState x) = mset (xState y)"

lemma jsonEntries_mset:
  assumes "mset es = mset es'" and "jsonEntries what key es = Inr ops"
  shows "\<exists>ops'. jsonEntries what key es' = Inr ops' \<and> mset ops' = mset ops"
proof -
  have "set es = set es'" using assms(1) by (rule mset_eq_setD)
  with assms show ?thesis by (auto simp: jsonEntries_Inr)
qed

lemma bundleOps_mset:
  assumes "sameEntries x y" and "bundleOps u x = Inr ops"
  shows "\<exists>ops'. bundleOps u y = Inr ops' \<and> mset ops' = mset ops"
proof -
  from assms(2) obtain a r l where *:
    "jsonEntries ''account'' (accountKey u) (xAccounts x) = Inr a"
    "jsonEntries ''receipt'' receiptKey (xReceipts x) = Inr r"
    "jsonEntries ''log'' logEntryKey (xLogs x) = Inr l"
    "ops = a @ textEntries (\<lambda>k. codeKey (ToLower u k)) (xContractCode x)
        @ textEntries storageKey (xStorage x) @ r @ l @ textEntries (\<lambda>k. k) (xState x)"
    by (auto simp: bundleOps_def Let_def split: sum.splits)
  from assms(1) have m: "mset (xAccounts x) = mset (xAccounts y)" "mset (xReceipts x) = mset (xReceipts y)"
     "mset (xLogs x) = mset (xLogs y)" "mset (xContractCode x) = mset (xContractCode y)"
     "mset (xStorage x) = mset (xStorage y)" "mset (xState x) = mset (xState y)"
    by (simp_all add: sameEntries_def)
  from jsonEntries_mset [OF m(1) *(1)] jsonEntries_mset [OF m(2) *(2)] jsonEntries_mset [OF m(3) *(3)]
  obtain a' r' l' where
    "jsonEntries ''account'' (accountKey u) (xAccounts y) = Inr a'" "mset a' = mset a"
    "jsonEntries ''receipt'' receiptKey (xReceipts y) = Inr r'" "mset r' = mset r"
    "jsonEntries ''log'' logEntryKey (xLogs y) = Inr l'" "mset l' = mset l"
    by blast
  then show ?thesis
    by (simp add: bundleOps_def Let_def *(4) textEntries_def m)
qed

lemma sorts_unique:
  assumes "sorts srt" "sorts srt'" "mset ops = mset ops'" "distinct (map opKey ops)"
  shows "srt ops = srt' ops'"
proof (rule map_sorted_distinct_set_unique)
  have m: "mset (srt ops) = mset ops" "mset (srt' ops') = mset ops"
    and s: "sorted (map opKey (srt ops))" "sorted (map opKey (srt' ops'))"
    using assms(1-3) by (simp_all add: sorts_def)
  have st: "set (srt ops) = set ops" "set (srt' ops') = set ops"
    using m [THEN mset_eq_setD] by simp_all
  have d: "distinct (map opKey xs)" if "mset xs = mset ops" for xs
  proof -
    have "mset (map opKey xs) = mset (map opKey ops)" using that by simp
    with assms(4) show ?thesis by (metis mset_eq_imp_distinct_iff)
  qed
  show "inj_on opKey (set (srt ops) \<union> set (srt' ops'))"
    using assms(4) st by (simp add: distinct_map)
  show "sorted (map opKey (srt ops))" "sorted (map opKey (srt' ops'))" by (rule s)+
  show "distinct (map opKey (srt ops))" "distinct (map opKey (srt' ops'))" using d m by blast+
  show "set (srt ops) = set (srt' ops')" by (simp add: st)
qed

lemma sorts_sort_key: "sorts (sort_key opKey)"
  by (simp add: sorts_def)

text \<open>
  What a run of operations leaves at a key is what its last operation on that key says, so a stable sort
  by key changes nothing about the state.
\<close>

lemma runOps_lookup:
  "fmlookup (runOps ops s) k =
     (case rev (filter (\<lambda>op. opKey op = k) ops) of
        [] \<Rightarrow> fmlookup s k
      | op # _ \<Rightarrow> if opDelete op then None else Some (slice (opValue op)))"
proof (induction ops rule: rev_induct)
  case (snoc op ops)
  then show ?case by (simp add: runOps_def applyState_def)
qed (simp add: runOps_def)

lemma runOps_stable_sort: "runOps (sort_key opKey ops) s = runOps ops s"
  by (rule fmap_ext) (simp add: runOps_lookup sort_key_stable)

lemma CommitExecution_runs:
  assumes "CommitExecution u srt env cx t x d e = (r, d', e')" and "r = Inl NoStateChange \<or> \<not> isl r"
    and "bundleOps u x \<noteq> Inl NoStateChange"
  obtains ops where "bundleOps u x = Inr ops" "cState (eChain e') = runOps (srt ops) (cState (eChain e))"
proof (cases "bundleOps u x")
  case (Inr ops)
  then have c: "Commit env cx (sBlockTime t) [bundleTx t x (srt ops)] d e = (r, d', e')"
    using assms(1) by (simp add: CommitExecution_def)
  have "txOps (bundleTx t x (srt ops)) = srt ops" by (simp add: bundleTx_def NewTransaction_def Let_def)
  with Commit_runs [OF c assms(2)] Inr that show thesis by simp
qed (use assms in \<open>auto simp: CommitExecution_def\<close>)

lemma jsonEntries_NoStateChange: "jsonEntries what key es \<noteq> Inl NoStateChange"
proof (induction es)
  case (Cons e es)
  then show ?case by (cases e) (auto split: sum.splits)
qed simp

lemma bundleOps_NoStateChange: "bundleOps u x \<noteq> Inl NoStateChange"
  using jsonEntries_NoStateChange by (auto simp: bundleOps_def Let_def split: sum.splits)

lemma bundleOps_first_accounts:
  "bundleOps u (x\<lparr>xAccounts := (a, v) # (b, w) # es\<rparr>) = Inr ops \<longleftrightarrow>
     json_Valid v \<and> json_Valid w \<and> (\<exists>rest. bundleOps u (x\<lparr>xAccounts := es\<rparr>) = Inr rest \<and>
       ops = putOp (accountKey u a) (Some v) # putOp (accountKey u b) (Some w) # rest)"
  by (auto simp: bundleOps_def Let_def split: sum.splits)

subsection \<open>Typed writes\<close>

lemma commitTx_runs:
  assumes "commitTx env cx t ops sender kind d e = (r, d', e')" and "r = Inl NoStateChange \<or> \<not> isl r"
  shows "cState (eChain e') = runOps ops (cState (eChain e))"
  using Commit_runs [OF assms(1) [unfolded commitTx_def] assms(2)] by (simp add: NewTransaction_def)

lemma bundleTx_sameEntries: "sameEntries x y \<Longrightarrow> bundleTx t x ops = bundleTx t y ops"
  by (simp add: sameEntries_def bundleTx_def Let_def)

definition accountsBundle :: "(string \<times> bytes) list \<Rightarrow> ExecutionBundle" where
  "accountsBundle es = \<lparr>xBlockID = ''b'', xSender = ''s'', xNonce = 0, xAccounts = es, xContractCode = [],
     xStorage = [], xReceipts = [], xLogs = [], xState = []\<rparr>"

lemma bundleOps_accounts:
  "\<forall>e \<in> set es. json_Valid (snd e) \<Longrightarrow>
   bundleOps u (accountsBundle es) = Inr (map (\<lambda>e. putOp (accountKey u (fst e)) (Some (snd e))) es)"
  by (simp add: bundleOps_def accountsBundle_def jsonEntries_Inr [THEN iffD2] textEntries_def)

definition asciiOnly :: unicode where
  "asciiOnly = \<lparr>uLower = (\<lambda>s. s), uTrim = (\<lambda>s. s)\<rparr>"

lemma json_Valid_digits: "json_Valid [49]" "json_Valid [50]"
  by (simp_all add: json_Valid_def jBeginValue_def jsonSpace_def jNum0_def jEndValue_def jdigit_def)

lemma Engine_Snapshot_written:
  assumes "Engine_Snapshot env cx now d e = (Inr (path, s), d')"
  obtains p where "gobEncodeSnapshot cx s = Some p" "fmlookup (dSnapshots d') path = Some (frame cx p)" "path \<noteq> []"
    "s = snapshotOf now (eChain e)"
proof -
  have s: "s = snapshotOf now (eChain e)" and w: "WriteSnapshot env cx s d = (Inr path, d')"
    using assms by (auto simp: Engine_Snapshot_def Let_def split: sum.splits prod.splits)
  from w that [OF _ _ _ s] show thesis by (auto simp: WriteSnapshot_def snapshotName_def split: option.splits if_splits)
qed

lemma VerifySnapshot_lemma:
  assumes cx: "codec_laws cx" and p: "gobEncodeSnapshot cx s = Some p" "fmlookup (dSnapshots d) path = Some (frame cx p)"
    "path \<noteq> []" and s: "s = snapshotOf now c"
  shows "length (frameBody cx p) \<le> maxRecordSize \<Longrightarrow> VerifySnapshot healthy cx d path = Inr s"
    and "maxRecordSize < length (frameBody cx p) \<Longrightarrow> length (frameBody cx p) < 2 ^ 32 \<Longrightarrow>
      VerifySnapshot healthy cx d path = Inl (InvalidRecordSize (length (frameBody cx p)))"
proof -
  show "VerifySnapshot healthy cx d path = Inr s" if "length (frameBody cx p) \<le> maxRecordSize"
    using readFrame_frame [OF cx codec_lawsD(3) [OF cx p(1)] that, of "[]"] codec_lawsD(4) [OF cx p(1)] p(2,3)
    by (simp add: VerifySnapshot_def ReadSnapshot_def) (simp add: s snapshotOf_def Let_def)
  show "VerifySnapshot healthy cx d path = Inl (InvalidRecordSize (length (frameBody cx p)))"
    if big: "maxRecordSize < length (frameBody cx p)" "length (frameBody cx p) < 2 ^ 32"
    using readFrame_oversized [OF big] p(2,3) by (simp add: VerifySnapshot_def ReadSnapshot_def frame_def Let_def)
qed

text \<open>A codec whose encoding of the empty snapshot is given.\<close>

definition snapCodec :: "bytes \<Rightarrow> codec" where
  "snapCodec p = \<lparr>gobEncode = (\<lambda>b. None), gobDecode = (\<lambda>p. None),
     gobEncodeSnapshot = (\<lambda>s. if s = snapshotOf exNow emptyChain then Some p else None),
     gobDecodeSnapshot = (\<lambda>p. Some (snapshotOf exNow emptyChain)), deflate = (\<lambda>p. None), inflate = (\<lambda>z. None)\<rparr>"

lemma snapCodec_laws: "p \<noteq> [] \<Longrightarrow> codec_laws (snapCodec p)"
  by (simp add: codec_laws_def snapCodec_def)

lemma snapCodec_body: "frameBody (snapCodec p) q = q"
  by (simp add: frameBody_def snapCodec_def)

lemma snapCodec_snapshot:
  assumes "p \<noteq> []"
  obtains d e path d' where "reachable (snapCodec p) d e" "eChain e = emptyChain"
    "Engine_Snapshot healthy (snapCodec p) exNow d e = (Inr (path, snapshotOf exNow emptyChain), d')"
    "gobEncodeSnapshot (snapCodec p) (snapshotOf exNow emptyChain) = Some p"
proof (rule Engine_Open_emptyDisk [OF snapCodec_laws [OF assms], of False])
  fix e d
  assume o: "Engine_Open healthy (snapCodec p) False emptyDisk = (Inr e, d)" and c: "eChain e = emptyChain"
  have g: "gobEncodeSnapshot (snapCodec p) (snapshotOf exNow emptyChain) = Some p" by (simp add: snapCodec_def)
  then show thesis
    using that [OF reachable.opened [OF o] c _ g] by (simp add: Engine_Snapshot_def c WriteSnapshot_def Let_def)
qed

lemma QueryLogs_lookup:
  "fmlookup (QueryLogs u address topic e) k =
     (case fmlookup (cState (eChain e)) k of
        None \<Rightarrow> None
      | Some v \<Rightarrow> if logMatches u (ToLower u address) (ToLower u topic) k v then Some (string_of v) else None)"
  by (simp add: QueryLogs_def Let_def lookup0_def split: option.split)

subsection \<open>Properties\<close>

text \<open>
  C21: An execution bundle has one result: if the keys of its operations are distinct, neither
  the order in which Go happens to iterate over its maps nor the way \<open>sort.Slice\<close> treats ties
  changes anything about the commit - block, disk and engine are the same.
\<close>

theorem CommitExecution_deterministic:
  assumes "sorts srt" and "sorts srt'" and "sameEntries x y"
    and "bundleOps u x = Inr ops" and "distinct (map opKey ops)"
  shows "CommitExecution u srt env cx t x d e = CommitExecution u srt' env cx t y d e"
proof -
  obtain ops' where o: "bundleOps u y = Inr ops'" "mset ops' = mset ops"
    using bundleOps_mset [OF assms(3,4)] by blast
  have "srt ops = srt' ops'" using assms(1,2,5) o(2) by (intro sorts_unique) simp_all
  then show ?thesis
    by (simp add: CommitExecution_def assms(4) o(1) bundleTx_sameEntries [OF assms(3)])
qed

theorem CommitExecution_deterministic_witness:
  "\<forall>e. CommitExecution asciiOnly (sort_key opKey) healthy exCodec \<lparr>sRandom = [1], sTxTime = exNow, sBlockTime = exNow\<rparr>
     (accountsBundle [(''0xA'', [49]), (''0xb'', [50])]) emptyDisk e =
   CommitExecution asciiOnly (sort_key opKey) healthy exCodec \<lparr>sRandom = [1], sTxTime = exNow, sBlockTime = exNow\<rparr>
     (accountsBundle [(''0xb'', [50]), (''0xA'', [49])]) emptyDisk e"
proof -
  let ?x = "accountsBundle [(''0xA'', [49]), (''0xb'', [50])]" and ?y = "accountsBundle [(''0xb'', [50]), (''0xA'', [49])]"
  let ?ops = "[putOp (accountKey asciiOnly ''0xA'') (Some [49]), putOp (accountKey asciiOnly ''0xb'') (Some [50])]"
  have x: "bundleOps asciiOnly ?x = Inr ?ops" by (simp add: bundleOps_accounts json_Valid_digits)
  have same: "sameEntries ?x ?y" by (simp add: sameEntries_def accountsBundle_def add_mset_commute)
  have "distinct (map opKey ?ops)"
    by (simp add: putOp_def accountKey_def ToLower_def isASCII_def lowerChar_def char_of_def bit_0)
  from CommitExecution_deterministic [OF sorts_sort_key sorts_sort_key same x this] show ?thesis by blast
qed

text \<open>
  C22: Two accounts of a bundle whose addresses differ only in letter case are one key, and then the order
  in which Go happens to range over the map decides what \<open>CommitExecution\<close> leaves behind. Take any
  engine, any bundle with such a pair and no other entry under that key, and a stable sort (which
  \<open>sort.Slice\<close> is on up to 12 operations): when the pair is visited in one order and in the other, both
  runs without an error, the two engines agree on every other key, and each holds under this one
  the value that was visited last.
\<close>

theorem CommitExecution_order_matters:
  assumes same: "ToLower u a = ToLower u b"
    and others: "bundleOps u (x\<lparr>xAccounts := es\<rparr>) = Inr ops" "accountKey u a \<notin> opKey ` set ops"
    and run1: "CommitExecution u (sort_key opKey) env1 cx t1 (x\<lparr>xAccounts := (a, v) # (b, w) # es\<rparr>) d e = (r1, d1, e1)"
      "r1 = Inl NoStateChange \<or> \<not> isl r1"
    and run2: "CommitExecution u (sort_key opKey) env2 cx t2 (x\<lparr>xAccounts := (b, w) # (a, v) # es\<rparr>) d e = (r2, d2, e2)"
      "r2 = Inl NoStateChange \<or> \<not> isl r2"
  shows "fmlookup (cState (eChain e1)) (accountKey u a) = Some w \<and>
    fmlookup (cState (eChain e2)) (accountKey u a) = Some v \<and>
    (\<forall>k. k \<noteq> accountKey u a \<longrightarrow> fmlookup (cState (eChain e1)) k = fmlookup (cState (eChain e2)) k)"
proof -
  let ?k = "accountKey u a" and ?s = "cState (eChain e)"
  have k: "accountKey u b = ?k" by (simp add: accountKey_def same)
  obtain o1 where o1: "bundleOps u (x\<lparr>xAccounts := (a, v) # (b, w) # es\<rparr>) = Inr o1"
      "cState (eChain e1) = runOps (sort_key opKey o1) ?s"
    using CommitExecution_runs [OF run1 bundleOps_NoStateChange] .
  have "o1 = putOp ?k (Some v) # putOp ?k (Some w) # ops"
    using o1(1) others(1) by (simp add: bundleOps_first_accounts k)
  then have s1: "cState (eChain e1) = runOps (putOp ?k (Some v) # putOp ?k (Some w) # ops) ?s"
    using o1(2) by (simp only: runOps_stable_sort)
  obtain o2 where o2: "bundleOps u (x\<lparr>xAccounts := (b, w) # (a, v) # es\<rparr>) = Inr o2"
      "cState (eChain e2) = runOps (sort_key opKey o2) ?s"
    using CommitExecution_runs [OF run2 bundleOps_NoStateChange] .
  have "o2 = putOp ?k (Some w) # putOp ?k (Some v) # ops"
    using o2(1) others(1) by (simp add: bundleOps_first_accounts k)
  then have s2: "cState (eChain e2) = runOps (putOp ?k (Some w) # putOp ?k (Some v) # ops) ?s"
    using o2(2) by (simp only: runOps_stable_sort)
  have "filter (\<lambda>op. opKey op = ?k) ops = []" using others(2) by (force simp: filter_empty_conv)
  then show ?thesis unfolding s1 s2 by (simp add: runOps_lookup putOp_def applyState_def split: list.split)
qed

lemma tableCodec_fits:
  assumes "b \<in> set bs" and "length bs < 2 ^ 20"
  obtains p where "gobEncode (tableCodec bs) b = Some p" "length (frame (tableCodec bs) p) \<le> defaultSegmentSize"
proof -
  let ?p = "replicate (Suc (length (takeWhile (\<lambda>c. c \<noteq> b) bs))) 1 :: bytes"
  have p: "gobEncode (tableCodec bs) b = Some ?p" using assms(1) by (simp add: tableCodec_def)
  have "length (takeWhile (\<lambda>c. c \<noteq> b) bs) \<le> length bs" by (rule length_takeWhile_le)
  moreover have "length (frameBody (tableCodec bs) q) \<le> length q" for q
    by (cases rule: frameBody_cases [of "tableCodec bs" q]) simp_all
  note this [of ?p]
  ultimately have "length (frame (tableCodec bs) ?p) \<le> defaultSegmentSize"
    using assms(2) by (simp add: length_frame defaultSegmentSize_def)
  with p show thesis by (rule that)
qed

lemma twoAccounts_prepared:
  assumes "json_Valid v" "json_Valid w" "v \<noteq> w" "accountKey u b = accountKey u a"
  shows "\<exists>ops blk. bundleOps u (accountsBundle [(a, v), (b, w)]) = Inr ops \<and>
    prepareBlock now [bundleTx t (accountsBundle [(a, v), (b, w)]) (sort_key opKey ops)] emptyChain = Inr blk"
proof -
  let ?k = "accountKey u a"
  have k: "?k \<noteq> []" by (simp add: accountKey_def)
  let ?ops = "[putOp ?k (Some v), putOp ?k (Some w)]"
  have o: "bundleOps u (accountsBundle [(a, v), (b, w)]) = Inr ?ops"
    using assms by (simp add: bundleOps_accounts)
  have tx: "txID (bundleTx t (accountsBundle [(a, v), (b, w)]) ops) = ''b''"
    "txOps (bundleTx t (accountsBundle [(a, v), (b, w)]) ops) = ops" for ops
    by (simp_all add: bundleTx_def accountsBundle_def NewTransaction_def Let_def)
  have "sort_key opKey ?ops = ?ops" by (simp add: putOp_def)
  moreover have "fmupd ?k v fmempty \<noteq> fmempty" by (simp add: fmupd_same_iff)
  ultimately have "\<exists>blk. prepareBlock now [bundleTx t (accountsBundle [(a, v), (b, w)]) (sort_key opKey ?ops)] emptyChain = Inr blk"
    using k assms(3) by (simp add: prepareBlock_def emptyChain_def tx) (simp add: putOp_def applyState_def)
  with o show ?thesis by blast
qed

theorem CommitExecution_order_matters_witness:
  "\<exists>cx d e b1 d1 e1 b2 d2 e2. reachable cx d e \<and>
     CommitExecution asciiOnly (sort_key opKey) healthy cx \<lparr>sRandom = [1], sTxTime = exNow, sBlockTime = exNow\<rparr>
       (accountsBundle [(''0xA'', [49]), (''0xa'', [50])]) d e = (Inr b1, d1, e1) \<and>
     CommitExecution asciiOnly (sort_key opKey) healthy cx \<lparr>sRandom = [1], sTxTime = exNow, sBlockTime = exNow\<rparr>
       (accountsBundle [(''0xa'', [50]), (''0xA'', [49])]) d e = (Inr b2, d2, e2) \<and>
     fmlookup (cState (eChain e1)) ''account/0xa'' = Some [50] \<and>
     fmlookup (cState (eChain e2)) ''account/0xa'' = Some [49]"
proof -
  let ?t = "\<lparr>sRandom = [1], sTxTime = exNow, sBlockTime = exNow\<rparr>"
  let ?x = "accountsBundle [(''0xA'', [49]), (''0xa'', [50])]" and ?y = "accountsBundle [(''0xa'', [50]), (''0xA'', [49])]"
  have l: "ToLower asciiOnly ''0xA'' = ''0xa''" "ToLower asciiOnly ''0xa'' = ''0xa''"
    by (simp_all add: ToLower_def isASCII_def lowerChar_def char_of_def bit_0)
  then have k: "accountKey asciiOnly ''0xA'' = ''account/0xa''" "accountKey asciiOnly ''0xa'' = ''account/0xa''"
    by (simp_all add: accountKey_def)
  obtain o1 b1 where b1: "bundleOps asciiOnly ?x = Inr o1"
      "prepareBlock exNow [bundleTx ?t ?x (sort_key opKey o1)] emptyChain = Inr b1"
    using twoAccounts_prepared [OF json_Valid_digits, of asciiOnly "''0xa''" "''0xA''" exNow ?t] k by auto
  obtain o2 b2 where b2: "bundleOps asciiOnly ?y = Inr o2"
      "prepareBlock exNow [bundleTx ?t ?y (sort_key opKey o2)] emptyChain = Inr b2"
    using twoAccounts_prepared [OF json_Valid_digits(2,1), of asciiOnly "''0xA''" "''0xa''" exNow ?t] k by auto
  let ?cx = "tableCodec [b1, b2]"
  obtain e d where o: "Engine_Open healthy ?cx False emptyDisk = (Inr e, d)" "eChain e = emptyChain"
      "store_rep ?cx (d, eStore e) []"
    using Engine_Open_emptyDisk [where ag = False, OF tableCodec_laws] by blast
  have st: "store_rep ?cx (d, eStore e) (cBlocks (eChain e))" and len: "length (cBlocks (eChain e)) + 2 < 2 ^ 64"
    using o by (simp_all add: emptyChain_def)
  obtain p1 where p1: "gobEncode ?cx b1 = Some p1" "length (frame ?cx p1) \<le> defaultSegmentSize"
    using tableCodec_fits [of b1 "[b1, b2]"] by auto
  obtain p2 where p2: "gobEncode ?cx b2 = Some p2" "length (frame ?cx p2) \<le> defaultSegmentSize"
    using tableCodec_fits [of b2 "[b1, b2]"] by auto
  obtain d1 e1 where c1: "Commit healthy ?cx exNow [bundleTx ?t ?x (sort_key opKey o1)] d e = (Inr b1, d1, e1)"
    by (rule Commit_healthy [OF st b1(2) [folded o(2)] p1 len])
  obtain d2 e2 where c2: "Commit healthy ?cx exNow [bundleTx ?t ?y (sort_key opKey o2)] d e = (Inr b2, d2, e2)"
    by (rule Commit_healthy [OF st b2(2) [folded o(2)] p2 len])
  have r: "CommitExecution asciiOnly (sort_key opKey) healthy ?cx ?t ?x d e = (Inr b1, d1, e1)"
    "CommitExecution asciiOnly (sort_key opKey) healthy ?cx ?t ?y d e = (Inr b2, d2, e2)"
    using b1 c1 b2 c2 by (simp_all add: CommitExecution_def)
  let ?z = "accountsBundle []"
  have z: "?z\<lparr>xAccounts := [(''0xA'', [49]), (''0xa'', [50])]\<rparr> = ?x" "?z\<lparr>xAccounts := [(''0xa'', [50]), (''0xA'', [49])]\<rparr> = ?y"
    "bundleOps asciiOnly (?z\<lparr>xAccounts := []\<rparr>) = Inr []"
    by (simp_all add: accountsBundle_def bundleOps_def textEntries_def)
  have "reachable ?cx d e" using o(1) by (rule reachable.opened)
  moreover have "fmlookup (cState (eChain e1)) ''account/0xa'' = Some [50] \<and>
      fmlookup (cState (eChain e2)) ''account/0xa'' = Some [49]"
    using CommitExecution_order_matters [OF _ z(3) _ r(1) [folded z(1)] _ r(2) [folded z(2)]] l k by simp
  ultimately show ?thesis using r by blast
qed

text \<open>
  C23: A snapshot that the engine writes with success holds exactly the state that the blocks give, and
  names the state root and the hash of the last block. Whether it can be used depends on its size,
  which \<open>WriteSnapshot\<close> does not look at: while the stored text has at most 256 MiB it verifies when it is
  read back, beyond that (and below 4 GiB, where its length field wraps around) \<open>VerifySnapshot\<close> refuses
  the file for its size.
\<close>

theorem snapshot_verifies:
  assumes "codec_laws cx" and "reachable cx d e" and "Engine_Snapshot env cx now d e = (Inr (path, s), d')"
  shows "(\<exists>p. gobEncodeSnapshot cx s = Some p \<and>
      (length (frameBody cx p) \<le> maxRecordSize \<longrightarrow> VerifySnapshot healthy cx d' path = Inr s) \<and>
      (maxRecordSize < length (frameBody cx p) \<and> length (frameBody cx p) < 2 ^ 32 \<longrightarrow>
        VerifySnapshot healthy cx d' path = Inl (InvalidRecordSize (length (frameBody cx p))))) \<and>
    snState s = chainState (cBlocks (eChain e)) \<and>
    (cBlocks (eChain e) \<noteq> [] \<longrightarrow> snStateRoot s = hStateRoot (bHeader (last (cBlocks (eChain e)))) \<and>
       snLatestHash s = hRecordHash (bHeader (last (cBlocks (eChain e)))))"
proof -
  obtain p where p: "gobEncodeSnapshot cx s = Some p" "fmlookup (dSnapshots d') path = Some (frame cx p)" "path \<noteq> []"
      "s = snapshotOf now (eChain e)"
    using Engine_Snapshot_written [OF assms(3)] .
  note v = VerifySnapshot_lemma [OF assms(1) p]
  note rep = reachable_replayable [OF assms(2)]
  from v p(1) replayable_state [OF rep] replayable_last [OF rep] checkRoots_StateRoot show ?thesis
    unfolding p(4) by (simp add: snapshotOf_def Let_def)
qed

theorem snapshot_verifies_witness:
  "(\<exists>cx d e path s d'. reachable cx d e \<and> Engine_Snapshot healthy cx exNow d e = (Inr (path, s), d') \<and>
      VerifySnapshot healthy cx d' path = Inr s) \<and>
   (\<exists>cx d e path s d'. reachable cx d e \<and> Engine_Snapshot healthy cx exNow d e = (Inr (path, s), d') \<and>
      VerifySnapshot healthy cx d' path = Inl (InvalidRecordSize (2 ^ 28 + 1)))"
proof
  obtain d e path d' where a: "reachable (snapCodec [9]) d e" "eChain e = emptyChain"
      "Engine_Snapshot healthy (snapCodec [9]) exNow d e = (Inr (path, snapshotOf exNow emptyChain), d')"
      "gobEncodeSnapshot (snapCodec [9]) (snapshotOf exNow emptyChain) = Some [9]"
    by (rule snapCodec_snapshot [of "[9]"]) simp
  have "length (frameBody (snapCodec [9]) [9]) \<le> maxRecordSize" by (simp add: snapCodec_body maxRecordSize_def)
  with snapshot_verifies [OF snapCodec_laws a(1,3)] a(4) have "VerifySnapshot healthy (snapCodec [9]) d' path = Inr (snapshotOf exNow emptyChain)"
    by auto
  with a show "\<exists>cx d e path s d'. reachable cx d e \<and> Engine_Snapshot healthy cx exNow d e = (Inr (path, s), d') \<and>
      VerifySnapshot healthy cx d' path = Inr s" by blast
next
  define p where "p = 0 # bigPayload"
  have len: "length p = 2 ^ 28 + 1" unfolding p_def list.size(4) length_bigPayload by simp
  obtain d e path d' where a: "reachable (snapCodec p) d e" "eChain e = emptyChain"
      "Engine_Snapshot healthy (snapCodec p) exNow d e = (Inr (path, snapshotOf exNow emptyChain), d')"
      "gobEncodeSnapshot (snapCodec p) (snapshotOf exNow emptyChain) = Some p"
    by (rule snapCodec_snapshot [of p]) (simp add: p_def)
  have laws: "codec_laws (snapCodec p)" by (rule snapCodec_laws) (simp add: p_def)
  have "maxRecordSize < length (frameBody (snapCodec p) p)" "length (frameBody (snapCodec p) p) < 2 ^ 32"
    unfolding snapCodec_body len by (simp_all add: maxRecordSize_def)
  with snapshot_verifies [OF laws a(1,3)] a(4)
  have "VerifySnapshot healthy (snapCodec p) d' path = Inl (InvalidRecordSize (length p))"
    unfolding snapCodec_body by auto
  with a show "\<exists>cx d e path s d'. reachable cx d e \<and> Engine_Snapshot healthy cx exNow d e = (Inr (path, s), d') \<and>
      VerifySnapshot healthy cx d' path = Inl (InvalidRecordSize (2 ^ 28 + 1))" unfolding len by blast
qed

text \<open>
  C37: A log entry that was put (or was there already) is found by \<open>QueryLogs\<close> under its key
  exactly when its text contains the address and the topic asked for, letter case aside; an
  empty address or topic asks for nothing.
\<close>

theorem PutLog_queried:
  assumes "PutLog env cx t txid index v d e = (r, d', e')" and "r = Inl NoStateChange \<or> \<not> isl r"
  shows "fmlookup (QueryLogs u address topic e') (logKey txid index) =
    (if (ToLower u address = [] \<or> Contains (ToLower u (string_of v)) (ToLower u address)) \<and>
        (ToLower u topic = [] \<or> Contains (ToLower u (string_of v)) (ToLower u topic))
     then Some (string_of v) else None)"
proof -
  have "json_Valid v" using assms by (auto simp: PutLog_def split: if_splits)
  then have "cState (eChain e') = runOps [putOp (logKey txid index) (Some v)] (cState (eChain e))"
    using assms by (intro commitTx_runs [OF _ assms(2)]) (simp add: PutLog_def)
  then show ?thesis
    by (simp add: QueryLogs_lookup putOp_def applyState_def logMatches_def logKey_def logEntryKey_def HasPrefix_def)
qed

theorem PutLog_queried_witness:
  "let c = emptyChain\<lparr>cState := fmupd (logKey ''t'' 7) [49] fmempty\<rparr>;
       e = \<lparr>eStore = \<lparr>fSegmentSize = 0, fActiveID = 0, fActive = NoFile, fActiveSize = 0, fIndex = fmempty\<rparr>,
            eChain = c, eAirGapped = True\<rparr>
   in PutLog healthy exCodec \<lparr>sRandom = [1], sTxTime = exNow, sBlockTime = exNow\<rparr> ''t'' 7 [49] emptyDisk e
        = (Inl NoStateChange, emptyDisk, e) \<and>
      fmlookup (QueryLogs asciiOnly [] [] e) (logKey ''t'' 7) = Some ''1''"
proof -
  let ?c = "emptyChain\<lparr>cState := fmupd (logKey ''t'' 7) [49] fmempty\<rparr>"
  let ?e = "\<lparr>eStore = \<lparr>fSegmentSize = 0, fActiveID = 0, fActive = NoFile, fActiveSize = 0, fIndex = fmempty\<rparr>,
      eChain = ?c, eAirGapped = True\<rparr>"
  let ?t = "\<lparr>sRandom = [1], sTxTime = exNow, sBlockTime = exNow\<rparr>"
  have k: "logKey ''t'' 7 \<noteq> []" by (simp add: logKey_def logEntryKey_def)
  have r: "PutLog healthy exCodec ?t ''t'' 7 [49] emptyDisk ?e = (Inl NoStateChange, emptyDisk, ?e)"
    by (simp add: PutLog_def json_Valid_digits commitTx_def Commit_def prepareBlock_def NewTransaction_def
        putOp_def applyState_def fmupd_same_iff k)
  have l: "ToLower asciiOnly [] = []" by (simp add: ToLower_def isASCII_def)
  have "string_of [49] = ''1''" by (simp add: string_of_def char_of_def bit_0)
  with PutLog_queried [OF r, of asciiOnly "[]" "[]"] r show ?thesis by (simp add: Let_def l)
qed

text \<open>
  Log keys are unambiguous: two entries share a key only if both the transaction id and the
  index agree, slashes in the id notwithstanding.
\<close>

theorem logKey_inject: "logKey a i = logKey b j \<longleftrightarrow> a = b \<and> i = j"
  using logKey_inject_lemma by blast

text \<open>
  The decimal digits of a number are accepted as an element of a supported field exactly
  when the number is below the field's modulus; nothing wraps around.
\<close>

theorem ValidateFieldValue_decimal:
  "map_of zkModuli (ToLower u field) = Some m \<Longrightarrow>
   ValidateFieldValue u field (dec n) = (if int n < m then Inr () else Inl (FieldElementOutside field))"
  by (simp add: ValidateFieldValue_def dec_no_sign SetString_dec Let_def)

theorem ValidateFieldValue_decimal_witness:
  "ValidateFieldValue asciiOnly ''BN254'' (dec 5) = Inr () \<and>
   ValidateFieldValue asciiOnly ''BN254''
     (dec 21888242871839275222246405745257275088548364400416034343698204186575808495617)
     = Inl (FieldElementOutside ''BN254'')"
proof -
  have l: "map_of zkModuli (ToLower asciiOnly ''BN254'') =
      Some 21888242871839275222246405745257275088548364400416034343698204186575808495617"
    by (simp add: ToLower_def isASCII_def lowerChar_def char_of_def bit_0 zkModuli_def)
  show ?thesis
    using ValidateFieldValue_decimal [OF l, of 5]
      ValidateFieldValue_decimal [OF l, of 21888242871839275222246405745257275088548364400416034343698204186575808495617]
    by simp
qed

end
