(* ===== verification/Enterprise.thy ===== *)
theory Enterprise
  imports EngineStore GoText "HOL-Library.Multiset" "HOL-Library.Signed_Division"
begin

text \<open>
  \<open>internal/enterprise/enterprise.go\<close>: policy file, cluster configuration, leader election and
  quorum, backup and restore, retention pruning, compaction and replica bootstrap.

  A directory is a \<open>tree\<close>, the contents of its files by slash-separated relative path;
  \<open>diskOf\<close> is the record that the storage layer works on. Zip archives, AES-GCM and the
  JSON of the two configuration files are parameters with the laws that the code relies on.
\<close>

type_synonym tree = "(string, bytes) fmap"

subsection \<open>Policy\<close>

record Policy =
  plVersion :: int
  plMode :: string
  plMaxValueBytes :: int
  plMaxBatchOperations :: int
  plMaxLogResults :: int
  plSnapshotRetention :: int
  plBackupRetention :: int
  plRequireEncryption :: bool
  plAllowedRoles :: "string list"
  plUpdatedAt :: gotime

record ClusterConfig =
  ccVersion :: int
  ccClusterID :: string
  ccNodeID :: string
  ccPeers :: "string list"
  ccTerm :: u64
  ccLeader :: string
  ccCommitIndex :: u64
  ccQuorum :: int
  ccMode :: string
  ccUpdatedAt :: gotime

record configCodec =
  encPolicy :: "Policy \<Rightarrow> bytes"
  decPolicy :: "bytes \<Rightarrow> Policy option"
  encCluster :: "ClusterConfig \<Rightarrow> bytes"
  decCluster :: "bytes \<Rightarrow> ClusterConfig option"

text \<open>A configuration that its JSON text gives back; JSON replaces invalid UTF-8 in strings.\<close>

definition readsBack :: "configCodec \<Rightarrow> ClusterConfig \<Rightarrow> bool" where
  "readsBack jc c \<longleftrightarrow> decCluster jc (encCluster jc c) = Some c"

text \<open>
  \<open>atomicWrite\<close>: a temporary file beside the target, renamed over it. A directory in the
  place of the file or of the temporary one, or a file in the place of a directory, is an error.
\<close>

definition conflicts :: "tree \<Rightarrow> string \<Rightarrow> bool" where
  "conflicts t p \<longleftrightarrow> p = ''.'' \<or>
     fBex (fmdom t) (\<lambda>k. HasPrefix k (p @ ''/'') \<or> HasPrefix k (p @ ''.tmp/'') \<or> HasPrefix p (k @ ''/''))"

definition atomicWrite :: "env \<Rightarrow> string \<Rightarrow> bytes \<Rightarrow> tree \<Rightarrow> (error + unit) \<times> tree" where
  "atomicWrite env p b t =
     (if fails env AtomicWrite then (Inl (IOFailed AtomicWrite), t)
      else if conflicts t p then (Inl (PathConflict p), t)
      else (Inr (), fmupd p b (fmdrop (p @ ''.tmp'') t)))"

definition DefaultPolicy :: "gotime \<Rightarrow> Policy" where
  "DefaultPolicy now =
     \<lparr>plVersion = 1, plMode = ''archive'', plMaxValueBytes = 16 * 2 ^ 20, plMaxBatchOperations = 50000,
      plMaxLogResults = 10000, plSnapshotRetention = 8, plBackupRetention = 8, plRequireEncryption = False,
      plAllowedRoles = [''reader'', ''writer'', ''executor'', ''auditor'', ''snapshot-manager'', ''administrator''],
      plUpdatedAt = now\<rparr>"

definition policyPath :: string where
  "policyPath = ''meta/policy.json''"

definition WritePolicy :: "env \<Rightarrow> configCodec \<Rightarrow> gotime \<Rightarrow> Policy \<Rightarrow> tree \<Rightarrow> (error + string) \<times> tree" where
  "WritePolicy env jc now p t =
     (case atomicWrite env policyPath (encPolicy jc (p\<lparr>plUpdatedAt := now\<rparr>)) t of
        (Inl x, t) \<Rightarrow> (Inl x, t) | (Inr _, t) \<Rightarrow> (Inr policyPath, t))"

definition ReadPolicy :: "configCodec \<Rightarrow> gotime \<Rightarrow> tree \<Rightarrow> error + Policy" where
  "ReadPolicy jc now t =
     (case fmlookup t policyPath of
        None \<Rightarrow> Inr (DefaultPolicy now)
      | Some b \<Rightarrow> (case decPolicy jc b of None \<Rightarrow> Inl ConfigDecodeFailed | Some p \<Rightarrow> Inr p))"

subsection \<open>Cluster\<close>

definition clusterPath :: string where
  "clusterPath = ''cluster/config.json''"

definition clusterID :: "string list \<Rightarrow> string" where
  "clusterID nodes = EncodeToString (take 8 (sha256 (bytes_of (Join (CHR 0x00) (sort nodes)))))"

definition newCluster :: "gotime \<Rightarrow> string \<Rightarrow> string list \<Rightarrow> ClusterConfig" where
  "newCluster now nodeID peers =
     \<lparr>ccVersion = 1, ccClusterID = clusterID (nodeID # peers), ccNodeID = nodeID, ccPeers = peers,
      ccTerm = 1, ccLeader = [], ccCommitIndex = 0,
      ccQuorum = int (length (nodeID # peers) div 2 + 1),
      ccMode = ''deterministic-consensus-test-framework'', ccUpdatedAt = now\<rparr>"

definition InitCluster :: "env \<Rightarrow> configCodec \<Rightarrow> gotime \<Rightarrow> string \<Rightarrow> string list \<Rightarrow> tree \<Rightarrow>
    (error + ClusterConfig) \<times> tree" where
  "InitCluster env jc now nodeID peers t =
     (if nodeID = [] then (Inl NodeIDRequired, t)
      else let c = newCluster now nodeID peers in
        case atomicWrite env clusterPath (encCluster jc c) t of
          (Inl x, t) \<Rightarrow> (Inl x, t) | (Inr _, t) \<Rightarrow> (Inr c, t))"

definition ReadCluster :: "configCodec \<Rightarrow> tree \<Rightarrow> error + ClusterConfig" where
  "ReadCluster jc t =
     (case fmlookup t clusterPath of
        None \<Rightarrow> Inl NotExist
      | Some b \<Rightarrow> (case decCluster jc b of None \<Rightarrow> Inl ConfigDecodeFailed | Some c \<Rightarrow> Inr c))"

definition elect :: "gotime \<Rightarrow> string list \<Rightarrow> ClusterConfig \<Rightarrow> ClusterConfig" where
  "elect now candidates c =
     (let cs = (if candidates = [] then ccNodeID c # ccPeers c else candidates)
      in c\<lparr>ccTerm := ccTerm c + 1, ccLeader := hd (sort cs), ccUpdatedAt := now\<rparr>)"

definition ElectLeader :: "env \<Rightarrow> configCodec \<Rightarrow> gotime \<Rightarrow> string list \<Rightarrow> tree \<Rightarrow> (error + ClusterConfig) \<times> tree" where
  "ElectLeader env jc now candidates t =
     (case ReadCluster jc t of
        Inl x \<Rightarrow> (Inl x, t)
      | Inr c \<Rightarrow>
          let c = elect now candidates c in
          case atomicWrite env clusterPath (encCluster jc c) t of
            (Inl x, t) \<Rightarrow> (Inl x, t) | (Inr _, t) \<Rightarrow> (Inr c, t))"

record QuorumResult =
  qrNodes :: int
  qrAcks :: int
  qrRequired :: int
  qrCommitted :: bool
  qrTerm :: u64
  qrLeader :: string

text \<open>Go's division truncates towards zero.\<close>

definition SimulateQuorum :: "ClusterConfig \<Rightarrow> int \<Rightarrow> int \<Rightarrow> QuorumResult" where
  "SimulateQuorum c nodes acks =
     (let req = (nodes sdiv 2) + 1
      in \<lparr>qrNodes = nodes, qrAcks = acks, qrRequired = req, qrCommitted = (req \<le> acks),
          qrTerm = ccTerm c, qrLeader = ccLeader c\<rparr>)"

subsection \<open>Backup format\<close>

record vault =
  zipWrite :: "(string \<times> bytes) list \<Rightarrow> bytes"
  zipRead :: "bytes \<Rightarrow> (string \<times> bytes) list option"
  gcmSeal :: "bytes \<Rightarrow> bytes \<Rightarrow> bytes \<Rightarrow> bytes"
  gcmOpen :: "bytes \<Rightarrow> bytes \<Rightarrow> bytes \<Rightarrow> bytes option"

text \<open>A zip archive has 16 bits for the length of a name.\<close>

definition vault_laws :: "vault \<Rightarrow> bool" where
  "vault_laws v \<longleftrightarrow>
     (\<forall>es. (\<forall>e \<in> set es. length (fst e) < 2 ^ 16) \<longrightarrow> zipRead v (zipWrite v es) = Some es) \<and>
     (\<forall>k n p. gcmOpen v k n (gcmSeal v k n p) = Some p)"

definition derive :: "string \<Rightarrow> bytes \<Rightarrow> bytes" where
  "derive pass salt = (sha256 ^^ 200000) (sha256 (bytes_of pass @ salt))"

definition encrypt :: "vault \<Rightarrow> bytes \<Rightarrow> bytes \<Rightarrow> bytes \<Rightarrow> string \<Rightarrow> bytes" where
  "encrypt v salt nonce p pass = salt @ nonce @ gcmSeal v (derive pass salt) nonce p"

definition decrypt :: "vault \<Rightarrow> bytes \<Rightarrow> string \<Rightarrow> error + bytes" where
  "decrypt v p pass =
     (if length p < 28 then Inl EncryptedTruncated
      else case gcmOpen v (derive pass (take 16 p)) (take 12 (drop 16 p)) (drop 28 p) of
          None \<Rightarrow> Inl DecryptFailed | Some q \<Rightarrow> Inr q)"

definition bakMagic :: bytes where
  "bakMagic = bytes_of (''AGIBAK1'' @ [CHR 0x0A])"

definition encMagic :: bytes where
  "encMagic = bytes_of (''AGIENC1'' @ [CHR 0x0A])"

definition decodeBackup :: "vault \<Rightarrow> bytes \<Rightarrow> string \<Rightarrow> error + bytes" where
  "decodeBackup v payload pass =
     (if take 8 payload = bakMagic then Inr (drop 8 payload)
      else if take 8 payload = encMagic then
        (if pass = [] then Inl PassphraseRequired else decrypt v (drop 8 payload) pass)
      else Inl UnsupportedBackupFormat)"

subsection \<open>Backup and restore\<close>

text \<open>
  \<open>filepath.Walk\<close> visits the files in the order of their path elements. \<open>salt\<close> and \<open>nonce\<close> are
  the random bytes of \<open>encrypt\<close>.
\<close>

definition backedUp :: "string \<Rightarrow> bool" where
  "backedUp rel \<longleftrightarrow> rel \<noteq> ''meta/LOCK'' \<and> \<not> HasPrefix rel ''backups/''"

definition backupEntries :: "tree \<Rightarrow> (string \<times> bytes) list" where
  "backupEntries t =
     map (\<lambda>k. (k, slice (fmlookup t k)))
       (sort_key (Split (CHR ''/'')) (filter backedUp (sorted_list_of_fset (fmdom t))))"

definition backupPayload :: "vault \<Rightarrow> bytes \<Rightarrow> bytes \<Rightarrow> string \<Rightarrow> (string \<times> bytes) list \<Rightarrow> bytes" where
  "backupPayload v salt nonce pass es =
     (if pass \<noteq> [] then encMagic @ encrypt v salt nonce (zipWrite v es) pass
      else bakMagic @ zipWrite v es)"

text \<open>The payload that is written to the output file, and its digest.\<close>

definition Backup :: "env \<Rightarrow> vault \<Rightarrow> bytes \<Rightarrow> bytes \<Rightarrow> string \<Rightarrow> tree \<Rightarrow> error + bytes \<times> string" where
  "Backup env v salt nonce pass t =
     (let payload = backupPayload v salt nonce pass (backupEntries t)
      in if fails env AtomicWrite then Inl (IOFailed AtomicWrite)
         else Inr (payload, Hash payload))"

record backupReport =
  brSha256 :: string
  brFiles :: nat
  brEntries :: "string list"
  brEncrypted :: bool

definition VerifyBackup :: "vault \<Rightarrow> bytes \<Rightarrow> string \<Rightarrow> error + backupReport" where
  "VerifyBackup v payload pass =
     (case decodeBackup v payload pass of
        Inl x \<Rightarrow> Inl x
      | Inr raw \<Rightarrow>
         (case zipRead v raw of
            None \<Rightarrow> Inl ArchiveFailed
          | Some es \<Rightarrow> Inr \<lparr>brSha256 = Hash payload, brFiles = length es,
              brEntries = sort (map fst es), brEncrypted = (take 8 payload = encMagic)\<rparr>))"

fun restoreEntries :: "env \<Rightarrow> (string \<times> bytes) list \<Rightarrow> tree \<Rightarrow> error + tree" where
  "restoreEntries env [] t = Inr t"
| "restoreEntries env ((name, b) # es) t =
     (let clean = Clean name in
      if HasPrefix clean ''..'' \<or> isAbs clean then Inl UnsafeBackupPath
      else case atomicWrite env clean b t of
          (Inl x, _) \<Rightarrow> Inl x
        | (Inr _, t) \<Rightarrow> restoreEntries env es t)"

text \<open>
  What the target path names: None when nothing does. The files are restored into a fresh
  directory that is renamed to the target at the end, so an error leaves the target alone.
  \<open>os.Rename\<close> refuses to put a directory in the place of a directory, empty or not, or of a file.
\<close>

definition RestoreBackup :: "env \<Rightarrow> vault \<Rightarrow> bytes \<Rightarrow> string \<Rightarrow> tree option \<Rightarrow> string \<Rightarrow> error + tree" where
  "RestoreBackup env v payload target existing pass =
     (if target = [] then Inl TargetRequired
      else if (case existing of None \<Rightarrow> False | Some t \<Rightarrow> t \<noteq> fmempty) then Inl TargetNotEmpty
      else case decodeBackup v payload pass of
          Inl x \<Rightarrow> Inl x
        | Inr raw \<Rightarrow>
           (case zipRead v raw of
              None \<Rightarrow> Inl ArchiveFailed
            | Some es \<Rightarrow>
                if fails env RestoreMkdir then Inl (IOFailed RestoreMkdir)
                else (case restoreEntries env es fmempty of
                        Inl x \<Rightarrow> Inl x
                      | Inr t \<Rightarrow> if existing \<noteq> None then Inl TargetExists
                          else if fails env RestoreRename then Inl (IOFailed RestoreRename)
                          else Inr t)))"

subsection \<open>Retention\<close>

text \<open>
  One subdirectory: its files with their modification times. \<open>sort.Slice\<close> is the parameter
  \<open>srt\<close>, newest first and ties in any order; \<open>removable\<close> says which removals succeed.
\<close>

type_synonym item = "string \<times> nat"

definition newestFirst :: "(item list \<Rightarrow> item list) \<Rightarrow> bool" where
  "newestFirst srt \<longleftrightarrow> (\<forall>xs. mset (srt xs) = mset xs \<and> sorted_wrt (\<lambda>a b. snd b \<le> snd a) (srt xs))"

definition pruneDir :: "(item list \<Rightarrow> item list) \<Rightarrow> (string \<Rightarrow> bool) \<Rightarrow> string \<Rightarrow> int \<Rightarrow> item list \<Rightarrow>
    error + item list \<times> nat" where
  "pruneDir srt removable sub keep items =
     (if keep < 0 then Inl (NegativeRetention sub)
      else if int (length items) \<le> keep then Inr (items, 0)
      else let old = drop (nat keep) (srt items) in
        Inr (take (nat keep) (srt items) @ filter (\<lambda>it. \<not> removable (fst it)) old,
             length (filter (\<lambda>it. removable (fst it)) old)))"

text \<open>The loop over the two subdirectories, in the order \<open>range\<close> gives; absent ones are skipped.\<close>

fun PruneFiles :: "(item list \<Rightarrow> item list) \<Rightarrow> (string \<Rightarrow> bool) \<Rightarrow> (string \<times> int) list \<Rightarrow>
    (string, item list) fmap \<Rightarrow> (error + (string \<times> nat) list) \<times> (string, item list) fmap" where
  "PruneFiles srt removable [] dirs = (Inr [], dirs)"
| "PruneFiles srt removable ((sub, keep) # subs) dirs =
     (case fmlookup dirs sub of
        None \<Rightarrow> PruneFiles srt removable subs dirs
      | Some items \<Rightarrow>
         (case pruneDir srt removable sub keep items of
            Inl x \<Rightarrow> (Inl x, dirs)
          | Inr (rest, n) \<Rightarrow>
             (case PruneFiles srt removable subs (fmupd sub rest dirs) of
                (Inl x, dirs) \<Rightarrow> (Inl x, dirs)
              | (Inr out, dirs) \<Rightarrow> (Inr ((sub @ ''_removed'', n) # out), dirs))))"

subsection \<open>Compaction\<close>

record compactReport =
  crHeight :: u64
  crTransactions :: u64
  crBytesBefore :: nat
  crBytesAfter :: nat
  crStateRoot :: string
  crLatestHash :: string

text \<open>
  The two renames that swap the data directories, with the rename back when the second one
  fails; where both fail the directory is left without its data.
\<close>

definition swapData :: "env \<Rightarrow> (string, bytes) fmap \<Rightarrow> disk \<Rightarrow> (error + unit) \<times> disk" where
  "swapData env compacted d =
     (if fails env RenameData then (Inl (IOFailed RenameData), d)
      else if fails env RenameCompacted then
        (Inl (IOFailed RenameCompacted), if fails env RenameBack then d\<lparr>dData := fmempty\<rparr> else d)
      else (Inr (), d\<lparr>dData := compacted\<rparr>))"

text \<open>The rewriting of the blocks into a fresh directory, up to its last closing.\<close>

definition rewriteBlocks :: "env \<Rightarrow> codec \<Rightarrow> Block list \<Rightarrow> error + Status \<times> (string, bytes) fmap" where
  "rewriteBlocks env cx blocks =
     (case Storage_Open env cx emptyDisk of
        (Inl x, _) \<Rightarrow> Inl x
      | (Inr st, tmp) \<Rightarrow>
         (case appendAll (storeAppend env cx) blocks (tmp, st) of
            (Inl x, _) \<Rightarrow> Inl x
          | (Inr _, s) \<Rightarrow>
             (case storeClose env s of
                (Inl x, _) \<Rightarrow> Inl x
              | (Inr _, tmp, _) \<Rightarrow>
                 (case Engine_Open env cx True tmp of
                    (Inl x, _) \<Rightarrow> Inl x
                  | (Inr check, tmp) \<Rightarrow>
                     (case Verify check of
                        Inl x \<Rightarrow> Inl x
                      | Inr _ \<Rightarrow> Inr (Engine_Status env tmp check,
                          dData (fst (snd (Engine_Close env tmp check)))))))))"

definition Compact :: "env \<Rightarrow> codec \<Rightarrow> disk \<Rightarrow> (error + compactReport) \<times> disk" where
  "Compact env cx d =
     (case Engine_Open env cx True d of
        (Inl x, d) \<Rightarrow> (Inl x, d)
      | (Inr e, d) \<Rightarrow>
         (case Verify e of
            Inl x \<Rightarrow> (Inl x, fst (snd (Engine_Close env d e)))
          | Inr _ \<Rightarrow>
             (let blocks = BlocksCopy e; before = Engine_Status env d e
              in case Engine_Close env d e of
                   (Inl x, d, _) \<Rightarrow> (Inl x, d)
                 | (Inr _, d, _) \<Rightarrow>
                    (case rewriteBlocks env cx blocks of
                       Inl x \<Rightarrow> (Inl x, d)
                     | Inr (after, compacted) \<Rightarrow>
                        (case swapData env compacted d of
                           (Inl x, d) \<Rightarrow> (Inl x, d)
                         | (Inr _, d) \<Rightarrow>
                             (Inr \<lparr>crHeight = stHeight before, crTransactions = stTransactions before,
                                crBytesBefore = stStorageBytes before, crBytesAfter = stStorageBytes after,
                                crStateRoot = stStateRoot before, crLatestHash = stLatestHash before\<rparr>, d))))))"

subsection \<open>Trees and disks\<close>

definition subtree :: "string \<Rightarrow> tree \<Rightarrow> tree" where
  "subtree p t = fmap_of_list (map (\<lambda>k. (drop (length p) k, slice (fmlookup t k)))
     (filter (\<lambda>k. HasPrefix k p) (sorted_list_of_fset (fmdom t))))"

text \<open>The storage layer's view of a directory.\<close>

definition diskOf :: "tree \<Rightarrow> disk" where
  "diskOf t = \<lparr>dLock = (fmlookup t ''meta/LOCK'' \<noteq> None), dData = subtree ''data/'' t,
     dWal = fmlookup t ''wal/commit.wal'', dSnapshots = subtree ''snapshots/'' t\<rparr>"

text \<open>
  The way back: the files the storage layer owns are those of the disk, the others stay. A
  new lock file holds the id of the process.
\<close>

definition prefixed :: "string \<Rightarrow> (string, bytes) fmap \<Rightarrow> tree" where
  "prefixed p m = fmap_of_list (map (\<lambda>k. (p @ k, slice (fmlookup m k))) (sorted_list_of_fset (fmdom m)))"

definition owned :: "string \<Rightarrow> bool" where
  "owned k \<longleftrightarrow> k = ''meta/LOCK'' \<or> k = ''wal/commit.wal'' \<or> HasPrefix k ''data/'' \<or> HasPrefix k ''snapshots/''"

definition putDisk :: "string \<Rightarrow> disk \<Rightarrow> tree \<Rightarrow> tree" where
  "putDisk pid d t =
     (let lock = (case fmlookup t ''meta/LOCK'' of None \<Rightarrow> bytes_of (''pid='' @ pid @ [CHR 0x0A]) | Some b \<Rightarrow> b);
          kept = fmadd (fmadd (fmfilter (\<lambda>k. \<not> owned k) t) (prefixed ''data/'' (dData d)))
                   (prefixed ''snapshots/'' (dSnapshots d));
          logged = (case dWal d of None \<Rightarrow> kept | Some b \<Rightarrow> fmupd ''wal/commit.wal'' b kept)
      in if dLock d then fmupd ''meta/LOCK'' lock logged else logged)"

text \<open>
  \<open>MigrationReport\<close> on the tree of all files: the target name goes into the path, which
  \<open>filepath.Join\<close> cleans.
\<close>

record migrationPlan =
  mpSource :: string
  mpTarget :: string
  mpTime :: gotime
  mpFormat :: string
  mpHeight :: u64
  mpTransactions :: u64
  mpVerified :: bool

text \<open>The keys of the two Go maps in order; a year beyond 9999 makes \<open>MarshalIndent\<close> fail, unnoticed.\<close>

definition encodePlan :: "migrationPlan \<Rightarrow> bytes" where
  "encodePlan p =
     (if tYear (mpTime p) \<le> 9999 then bytes_of (indentObject 0
        [indentField ''generated_at'' (json_time (mpTime p)),
         indentField ''in_place_mutation'' (json_bool False),
         indentField ''source_directory'' (json_string (mpSource p)),
         indentField ''status'' (indentObject 1
           [indentField ''height'' (json_uint (unat (mpHeight p))),
            indentField ''source_format'' (json_string (mpFormat p)),
            indentField ''transactions'' (json_uint (unat (mpTransactions p))),
            indentField ''verified'' (json_bool (mpVerified p))]),
         indentField ''strategy'' (json_string ''copy-verify-atomic-switch''),
         indentField ''target_format'' (json_string (mpTarget p))])
      else [])"

definition MigrationReport :: "env \<Rightarrow> unicode \<Rightarrow> migrationPlan \<Rightarrow> tree \<Rightarrow>
    (error + string) \<times> tree" where
  "MigrationReport env u plan files =
     (let path = Clean ((if mpSource plan = [] then [] else mpSource plan @ ''/'') @ ''meta/migration-'' @ ToLower u (mpTarget plan) @ ''.json'')
      in case atomicWrite env path (encodePlan plan) files of
           (Inl x, files) \<Rightarrow> (Inl x, files) | (Inr _, files) \<Rightarrow> (Inr path, files))"

text \<open>\<open>Unlock\<close> removes the lock file; it fails when there is none.\<close>

definition Unlock :: "tree \<Rightarrow> (error + unit) \<times> tree" where
  "Unlock t = (if fmlookup t ''meta/LOCK'' = None then (Inl NotExist, t)
     else (Inr (), fmdrop ''meta/LOCK'' t))"

text \<open>
  \<open>BootstrapReplica\<close> is a backup of the source restored to the target and opened there; the
  target directory afterwards is the second component.
\<close>

record replicaReport =
  rrSha256 :: string
  rrHeight :: u64
  rrLatestHash :: string
  rrStateRoot :: string

definition BootstrapReplica :: "string \<Rightarrow> env \<Rightarrow> vault \<Rightarrow> codec \<Rightarrow> tree \<Rightarrow> string \<Rightarrow> tree option \<Rightarrow>
    (error + replicaReport) \<times> tree option" where
  "BootstrapReplica pid env v cx source target existing =
     (case Backup env v [] [] [] source of
        Inl x \<Rightarrow> (Inl x, existing)
      | Inr (payload, digest) \<Rightarrow>
         (case RestoreBackup env v payload target existing [] of
            Inl x \<Rightarrow> (Inl x, existing)
          | Inr t \<Rightarrow>
             (case Engine_Open env cx True (diskOf t) of
                (Inl x, d) \<Rightarrow> (Inl x, Some (putDisk pid d t))
              | (Inr e, d) \<Rightarrow>
                 (let left = Some (putDisk pid (fst (snd (Engine_Close env d e))) t); s = Engine_Status env d e
                  in case Verify e of
                       Inl x \<Rightarrow> (Inl x, left)
                     | Inr _ \<Rightarrow> (Inr \<lparr>rrSha256 = digest, rrHeight = stHeight s, rrLatestHash = stLatestHash s,
                                 rrStateRoot = stStateRoot s\<rparr>, left)))))"

end
