(* ===== verification/EnterpriseProofs.thy ===== *)
theory EnterpriseProofs
  imports Enterprise
begin

text \<open>
  What the enterprise controls promise: paths of a restored archive stay inside the target, a
  restored backup is the directory that was backed up, pruning keeps the newest files, nodes agree
  on cluster and leader, quorums intersect, and compaction keeps the chain.
\<close>

subsection \<open>Paths\<close>

lemma Split_nosep [simp]: "d \<notin> set p \<Longrightarrow> Split d p = [p]"
  by (induction p) auto

lemma Split_append_sep: "d \<notin> set p \<Longrightarrow> Split d (p @ d # s) = p # Split d s"
  by (induction p) auto

lemma Split_Join: "ps \<noteq> [] \<Longrightarrow> \<forall>p \<in> set ps. d \<notin> set p \<Longrightarrow> Split d (Join d ps) = ps"
  by (induction d ps rule: Join.induct) (simp_all add: Split_append_sep)

lemma Join_prefix: "HasPrefix (Join d (p # ps)) p"
  by (cases ps) (simp_all add: HasPrefix_def)

text \<open>The elements of a cleaned relative path: all the \<open>..\<close> come first.\<close>

lemma cleanElems_relative:
  assumes "''..'' \<notin> set ns"
  shows "\<exists>k ms. cleanElems False (ns @ replicate k' ''..'') ps = replicate k ''..'' @ ms \<and> ''..'' \<notin> set ms \<and>
    set ms \<subseteq> set ns \<union> set ps - {''.'', []} \<union> set ns"
  using assms
proof (induction ps arbitrary: ns k')
  case Nil
  then show ?case by (intro exI [of _ k'] exI [of _ "rev ns"]) auto
next
  case (Cons p ps)
  consider (skip) "p = [] \<or> p = ''.''" | (up) "p = ''..''" "ns \<noteq> []" | (stay) "p = ''..''" "ns = []"
    | (name) "p \<noteq> []" "p \<noteq> ''.''" "p \<noteq> ''..''" by blast
  then show ?case
  proof cases
    case skip
    with Cons.IH [OF Cons.prems, of k'] show ?thesis by fastforce
  next
    case up
    then obtain n ns' where "ns = n # ns'" "n \<noteq> ''..''" "''..'' \<notin> set ns'" using Cons.prems by (cases ns) auto
    with up Cons.IH [of ns' k'] show ?thesis by fastforce
  next
    case stay
    have "replicate k' ''..'' = [] \<or> hd (replicate k' ''..'') = ''..''" by (cases k') auto
    with stay Cons.IH [of "[]" "Suc k'"] show ?thesis by fastforce
  next
    case name
    with Cons.IH [of "p # ns" k'] Cons.prems show ?thesis by fastforce
  qed
qed

definition contained :: "string \<Rightarrow> bool" where
  "contained k \<longleftrightarrow> \<not> isAbs k \<and> ''..'' \<notin> set (Split (CHR ''/'') k) \<and> k \<noteq> []"

lemma Clean_contained:
  assumes "\<not> HasPrefix (Clean name) ''..''" and "\<not> isAbs (Clean name)"
  shows "contained (Clean name)"
proof -
  have rel: "\<not> isAbs name" using assms(2) by (auto simp: Clean_def isAbs_def HasPrefix_def)
  let ?e = "cleanElems False [] (Split (CHR ''/'') name)"
  obtain k ms where e: "?e = replicate k ''..'' @ ms" "''..'' \<notin> set ms" "set ms \<subseteq> set (Split (CHR ''/'') name) - {''.'', []}"
    using cleanElems_relative [of "[]" 0 "Split (CHR ''/'') name"] by auto
  have c: "Clean name = (if ?e = [] then ''.'' else Join (CHR ''/'') ?e)" using rel by (simp add: Clean_def)
  have "k = 0"
  proof (rule ccontr)
    assume "k \<noteq> 0"
    then have "?e = ''..'' # replicate (k - 1) ''..'' @ ms" using e(1) by (cases k) auto
    with c Join_prefix [of "CHR ''/''" "''..''"] assms(1) show False by simp
  qed
  with e have e': "?e = ms" by simp
  show ?thesis
  proof (cases "ms = []")
    case True
    with c e' show ?thesis by (simp add: contained_def isAbs_def HasPrefix_def)
  next
    case False
    then have s: "Split (CHR ''/'') (Clean name) = ms"
      using c e' e(3) Split_no_sep [of "CHR ''/''" name] by (auto intro!: Split_Join)
    have "Clean name \<noteq> []"
    proof
      assume "Clean name = []"
      with s have "ms = [[]]" by simp
      with e(3) show False by auto
    qed
    with s e(2) assms(2) show ?thesis by (simp add: contained_def)
  qed
qed

lemma restoreEntries_contained:
  "restoreEntries env es t = Inr t' \<Longrightarrow> \<forall>k. k |\<in>| fmdom t \<longrightarrow> contained k \<Longrightarrow> \<forall>k. k |\<in>| fmdom t' \<longrightarrow> contained k"
proof (induction es arbitrary: t)
  case (Cons x es)
  obtain name b where x: "x = (name, b)" by (cases x)
  from Cons.prems(1) x obtain t1 where ok: "\<not> HasPrefix (Clean name) ''..''" "\<not> isAbs (Clean name)"
      "atomicWrite env (Clean name) b t = (Inr (), t1)" "restoreEntries env es t1 = Inr t'"
    by (auto simp: Let_def split: if_splits prod.splits sum.splits)
  have "\<forall>k. k |\<in>| fmdom t1 \<longrightarrow> contained k"
    using ok(3) Clean_contained [OF ok(1,2)] Cons.prems(2) by (auto simp: atomicWrite_def split: if_splits)
  from Cons.IH [OF ok(4) this] show ?case .
qed simp

subsection \<open>Restoring what was backed up\<close>

text \<open>What a file system allows: clean relative names, and no file under a file.\<close>

definition wellFormed :: "tree \<Rightarrow> bool" where
  "wellFormed t \<longleftrightarrow> fBall (fmdom t) (\<lambda>k. Clean k = k \<and> k \<noteq> ''.'' \<and> \<not> isAbs k \<and>
     fBall (fmdom t) (\<lambda>k'. \<not> HasPrefix k (k' @ ''/'')))"

lemma Split_less_append: "Split d p < Split d (p @ c # s)"
proof (induction p)
  case Nil
  obtain q qs where "Split d s = q # qs" by (cases "Split d s") auto
  then show ?case by simp
next
  case (Cons x p)
  obtain q qs where "Split d p = q # qs" by (cases "Split d p") auto
  moreover obtain q' qs' where "Split d (p @ c # s) = q' # qs'" by (cases "Split d (p @ c # s)") auto
  ultimately show ?case using Cons by auto
qed

definition writeAll :: "(string \<times> bytes) list \<Rightarrow> tree \<Rightarrow> tree" where
  "writeAll es t = fold (\<lambda>(k, b). fmupd k b) es t"

lemma fmdrop_absent: "k |\<notin>| fmdom t \<Longrightarrow> fmdrop k t = t"
  by (rule fmap_ext) (auto simp: fmdom_notD)

lemma restoreEntries_sorted:
  assumes "sorted_wrt (\<lambda>a b. Split (CHR ''/'') a < Split (CHR ''/'') b) (map fst es)"
    and "\<forall>a \<in> fset (fmdom t). \<forall>k \<in> fst ` set es. Split (CHR ''/'') a < Split (CHR ''/'') k"
    and "\<forall>k \<in> fst ` set es. Clean k = k \<and> k \<noteq> ''.'' \<and> \<not> isAbs k \<and> \<not> HasPrefix k ''..''"
    and "\<forall>k \<in> fset (fmdom t) \<union> fst ` set es. \<forall>k' \<in> fset (fmdom t) \<union> fst ` set es. \<not> HasPrefix k (k' @ ''/'')"
  shows "restoreEntries healthy es t = Inr (writeAll es t)"
  using assms
proof (induction es arbitrary: t)
  case (Cons e es)
  obtain k b where e: "e = (k, b)" by (cases e)
  have later: "Split (CHR ''/'') a < Split (CHR ''/'') k" if "a |\<in>| fmdom t" for a
    using Cons.prems(2) that by (simp add: e)
  have no: "k @ c # s |\<notin>| fmdom t" for c s
    using later Split_less_append [of "CHR ''/''" k c s] order.strict_trans by blast
  have "\<not> HasPrefix a (k @ ''.tmp/'')" if "a |\<in>| fmdom t" for a
    using no that by (auto simp: HasPrefix_iff)
  then have "\<not> conflicts t k"
    using Cons.prems(3,4) by (fastforce simp: conflicts_def e)
  moreover have "fmdrop (k @ ''.tmp'') t = t" using no by (intro fmdrop_absent)
  moreover have "restoreEntries healthy es (fmupd k b t) = Inr (writeAll es (fmupd k b t))"
    by (rule Cons.IH) (use Cons.prems in \<open>auto simp: e\<close>)
  ultimately show ?case
    using Cons.prems(3) by (simp add: e atomicWrite_def writeAll_def)
qed (simp add: writeAll_def)

lemma fmlookup_writeAll:
  "fmlookup (writeAll (map (\<lambda>k. (k, f k)) ks) t) x = (if x \<in> set ks then Some (f x) else fmlookup t x)"
  by (induction ks arbitrary: t) (auto simp: writeAll_def)

lemma Split_inject [simp]: "Split d s = Split d t \<longleftrightarrow> s = t"
  by (metis Join_Split)

lemma backupKeys:
  assumes "es = backupEntries t"
  shows "sorted_wrt (\<lambda>a b. Split (CHR ''/'') a < Split (CHR ''/'') b) (map fst es)"
    and "fst ` set es = {k. k |\<in>| fmdom t \<and> backedUp k}"
proof -
  let ?ks = "sort_key (Split (CHR ''/'')) (filter backedUp (sorted_list_of_fset (fmdom t)))"
  have m: "map fst es = ?ks" by (simp add: assms backupEntries_def comp_def)
  have "distinct (map (Split (CHR ''/'')) ?ks)" by (simp add: distinct_map inj_on_def sorted_list_of_fset.rep_eq)
  then have "sorted_wrt (<) (map (Split (CHR ''/'')) ?ks)" by (simp add: strict_sorted_iff)
  with m show "sorted_wrt (\<lambda>a b. Split (CHR ''/'') a < Split (CHR ''/'') b) (map fst es)"
    by (simp add: sorted_wrt_map)
  have "fst ` set es = set (map fst es)" by simp
  then show "fst ` set es = {k. k |\<in>| fmdom t \<and> backedUp k}"
    unfolding m by auto
qed

lemma restore_backupEntries:
  assumes "wellFormed t" and "\<forall>k. k |\<in>| fmdom t \<and> backedUp k \<longrightarrow> \<not> HasPrefix k ''..''"
  shows "restoreEntries healthy (backupEntries t) fmempty = Inr (fmfilter backedUp t)"
proof -
  note ks = backupKeys [OF refl, of t]
  have "restoreEntries healthy (backupEntries t) fmempty = Inr (writeAll (backupEntries t) fmempty)"
    by (rule restoreEntries_sorted [OF ks(1)]) (use assms in \<open>auto simp: ks(2) wellFormed_def\<close>)
  moreover have "writeAll (backupEntries t) fmempty = fmfilter backedUp t"
  proof (rule fmap_ext)
    fix k
    have "k |\<in>| fmdom t \<longleftrightarrow> fmlookup t k \<noteq> None" by (simp add: fmlookup_dom_iff)
    then show "fmlookup (writeAll (backupEntries t) fmempty) k = fmlookup (fmfilter backedUp t) k"
      by (cases "fmlookup t k") (simp_all add: backupEntries_def fmlookup_writeAll sorted_list_of_fset.rep_eq)
  qed
  ultimately show ?thesis by simp
qed

lemma decode_backupPayload:
  assumes "vault_laws v" and "length salt = 16" and "length nonce = 12"
  shows "decodeBackup v (backupPayload v salt nonce pass es) pass = Inr (zipWrite v es)"
proof -
  have m: "length bakMagic = 8" "length encMagic = 8" "encMagic \<noteq> bakMagic"
    by (simp_all add: bakMagic_def encMagic_def)
  have d: "decrypt v (encrypt v salt nonce p pass) pass = Inr p" for p
    using assms by (simp add: decrypt_def encrypt_def vault_laws_def)
  show ?thesis
    by (cases "pass = []") (simp_all add: decodeBackup_def backupPayload_def m d)
qed

text \<open>An archive format and a cipher that satisfy the laws, for the witnesses.\<close>

fun putField :: "bytes \<Rightarrow> bytes" where
  "putField [] = [0]"
| "putField (b # bs) = 1 # b # putField bs"

fun getField :: "bytes \<Rightarrow> (bytes \<times> bytes) option" where
  "getField (x # y # r) =
     (if x = 0 then Some ([], y # r)
      else map_option (\<lambda>(b, s). (y # b, s)) (getField r))"
| "getField [x] = (if x = 0 then Some ([], []) else None)"
| "getField [] = None"

fun putZip :: "(string \<times> bytes) list \<Rightarrow> bytes" where
  "putZip [] = [0]"
| "putZip ((n, b) # es) = 1 # putField (bytes_of n) @ putField b @ putZip es"

fun getZip :: "nat \<Rightarrow> bytes \<Rightarrow> (string \<times> bytes) list option" where
  "getZip 0 p = None"
| "getZip (Suc fuel) p =
     (if p = [0] then Some []
      else case getField (tl p) of None \<Rightarrow> None
        | Some (n, q) \<Rightarrow>
           (case getField q of None \<Rightarrow> None
            | Some (b, r) \<Rightarrow> map_option ((#) (string_of n, b)) (getZip fuel r)))"

definition exVault :: vault where
  "exVault = \<lparr>zipWrite = putZip, zipRead = (\<lambda>p. getZip (length p) p),
     gcmSeal = (\<lambda>k n p. p), gcmOpen = (\<lambda>k n p. Some p)\<rparr>"

lemma getField_put [simp]: "getField (putField b @ r) = Some (b, r)"
  by (induction b) (cases r, simp_all)

lemma putZip_neq: "putZip es \<noteq> []"
  by (induction es rule: putZip.induct) simp_all

lemma getZip_put: "length es < fuel \<Longrightarrow> getZip fuel (putZip es) = Some es"
proof (induction es arbitrary: fuel)
  case Nil
  then show ?case by (cases fuel) simp_all
next
  case (Cons e es)
  then obtain f where "fuel = Suc f" "length es < f" by (cases fuel) auto
  with Cons.IH show ?case by (cases e) simp
qed

lemma exVault_laws: "vault_laws exVault"
proof -
  have l: "length es < length (putZip es)" for es
    by (induction es rule: putZip.induct) simp_all
  then show ?thesis by (simp add: vault_laws_def exVault_def getZip_put)
qed

subsection \<open>Pruning\<close>

lemma pruneDir_spec:
  assumes srt: "newestFirst srt" and run: "pruneDir srt removable sub keep items = Inr (rest, n)"
  shows "mset rest \<subseteq># mset items \<and> length rest + n = length items \<and>
    (\<forall>x \<in># mset items - mset rest. removable (fst x) \<and> nat keep \<le> length (filter (\<lambda>y. snd x \<le> snd y) rest)) \<and>
    ((\<forall>x \<in> set items. removable (fst x)) \<longrightarrow> length rest = min (length items) (nat keep))"
proof (cases "int (length items) \<le> keep")
  case True
  with run show ?thesis by (auto simp: pruneDir_def)
next
  case False
  let ?k = "nat keep" and ?s = "srt items" and ?r = "\<lambda>it. removable (fst it)"
  have rest: "rest = take ?k ?s @ filter (Not \<circ> ?r) (drop ?k ?s)" and n: "n = length (filter ?r (drop ?k ?s))"
    using run False by (auto simp: pruneDir_def Let_def comp_def split: if_splits)
  have ms: "mset ?s = mset items" and sw: "sorted_wrt (\<lambda>a b. snd b \<le> snd a) ?s"
    using srt by (simp_all add: newestFirst_def)
  have len: "length ?s = length items" using ms by (metis size_mset)
  have split: "mset items = mset rest + mset (filter ?r (drop ?k ?s))"
  proof -
    have "mset (drop ?k ?s) = mset (filter ?r (drop ?k ?s)) + mset (filter (Not \<circ> ?r) (drop ?k ?s))"
      by (simp add: comp_def)
    moreover have "mset ?s = mset (take ?k ?s) + mset (drop ?k ?s)"
      by (metis append_take_drop_id mset_append)
    ultimately show ?thesis by (simp add: rest ms [symmetric])
  qed
  have gone: "mset items - mset rest = mset (filter ?r (drop ?k ?s))" by (simp add: split)
  have newer: "?k \<le> length (filter (\<lambda>y. snd x \<le> snd y) rest)" if "x \<in> set (drop ?k ?s)" for x
  proof -
    have "\<forall>y \<in> set (take ?k ?s). snd x \<le> snd y"
      using sw that by (metis append_take_drop_id sorted_wrt_append)
    then have "filter (\<lambda>y. snd x \<le> snd y) (take ?k ?s) = take ?k ?s" by (simp add: filter_id_conv)
    with False len show ?thesis by (simp add: rest)
  qed
  have "length rest = min (length items) ?k" if "\<forall>x \<in> set items. ?r x"
  proof -
    have "set (drop ?k ?s) \<subseteq> set items" using ms by (metis set_drop_subset set_mset_mset)
    then have "filter (Not \<circ> ?r) (drop ?k ?s) = []" using that by (auto simp: filter_empty_conv)
    with len show ?thesis by (simp add: rest)
  qed
  moreover have "length rest + n = length items"
    using arg_cong [OF split, of size] by (simp add: n del: mset_filter)
  moreover have "mset rest \<subseteq># mset items" by (simp add: split)
  ultimately show ?thesis unfolding gone using newer by auto
qed

lemma PruneFiles_spec:
  assumes "newestFirst srt" and "distinct (map fst subs)"
    and "PruneFiles srt removable subs dirs = (Inr out, dirs')"
  shows "fmdom dirs' = fmdom dirs \<and> (\<forall>s. s \<notin> fst ` set subs \<longrightarrow> fmlookup dirs' s = fmlookup dirs s) \<and>
    (\<forall>(s, keep) \<in> set subs. \<forall>items. fmlookup dirs s = Some items \<longrightarrow>
       (\<exists>rest n. pruneDir srt removable s keep items = Inr (rest, n) \<and> fmlookup dirs' s = Some rest))"
  using assms(2,3)
proof (induction subs arbitrary: dirs out)
  case (Cons sk subs)
  obtain s keep where sk: "sk = (s, keep)" by (cases sk)
  show ?case
  proof (cases "fmlookup dirs s")
    case None
    with Cons sk show ?thesis by fastforce
  next
    case (Some items)
    with Cons.prems sk obtain rest n out' where p: "pruneDir srt removable s keep items = Inr (rest, n)"
      "PruneFiles srt removable subs (fmupd s rest dirs) = (Inr out', dirs')"
      by (auto split: sum.splits prod.splits)
    have "s \<notin> fst ` set subs" "distinct (map fst subs)" using Cons.prems(1) sk by auto
    note IH = Cons.IH [OF this(2) p(2)]
    have "fmdom dirs' = fmdom dirs" using IH Some by (auto simp: fmdomI)
    moreover have "fmlookup dirs' s = Some rest" using IH \<open>s \<notin> fst ` set subs\<close> by simp
    moreover have "fmlookup (fmupd s rest dirs) s' = fmlookup dirs s'" if "s' \<noteq> s" for s' using that by simp
    moreover have "\<exists>rest n. pruneDir srt removable a k its = Inr (rest, n) \<and> fmlookup dirs' a = Some rest"
      if a: "(a, k) \<in> set subs" "fmlookup dirs a = Some its" for a k its
    proof -
      have "a \<noteq> s" using a(1) \<open>s \<notin> fst ` set subs\<close> by force
      then have "fmlookup (fmupd s rest dirs) a = Some its" using a(2) by simp
      with IH a(1) show ?thesis by blast
    qed
    ultimately show ?thesis using IH Some p(1) by (simp add: sk case_prod_beta)
  qed
qed simp

subsection \<open>Cluster\<close>

lemma sort_mset_cong: "mset xs = mset ys \<Longrightarrow> sort xs = sort (ys :: string list)"
  by (metis properties_for_sort sorted_sort mset_sort)

lemma hd_sort_Min: "xs \<noteq> [] \<Longrightarrow> hd (sort xs) = Min (set (xs :: string list))"
proof -
  assume "xs \<noteq> []"
  then obtain y ys where y: "sort xs = y # ys" by (cases "sort xs") (auto dest: arg_cong [of _ _ length])
  have "set xs = set (y # ys)" using y by (metis set_sort)
  moreover have "\<forall>z \<in> set ys. y \<le> z" using y sorted_sort [of xs] by simp
  ultimately show ?thesis using y by (simp add: Min_insert2)
qed

lemma InitCluster_Inr:
  assumes "InitCluster env jc now n ps t = (Inr c, t')"
  shows "n \<noteq> []" "c = newCluster now n ps" "fmlookup t' clusterPath = Some (encCluster jc c)"
    "\<not> conflicts t clusterPath" "fmdom t' |\<subseteq>| finsert clusterPath (fmdom t)"
  using assms by (auto simp: InitCluster_def atomicWrite_def Let_def split: if_splits)

lemma InitCluster_then_elect:
  assumes laws: "readsBack jc c" and run: "InitCluster env jc now n ps t = (Inr c, t1)"
  shows "\<exists>t2. ElectLeader healthy jc now' [] t1 = (Inr (c\<lparr>ccTerm := 2, ccLeader := Min (set (n # ps)), ccUpdatedAt := now'\<rparr>), t2)"
proof -
  note ic = InitCluster_Inr [OF run]
  have r: "ReadCluster jc t1 = Inr c"
    using ic(3) laws by (simp add: ReadCluster_def readsBack_def)
  have "\<not> conflicts t1 clusterPath"
    using ic(4,5) unfolding conflicts_def by (auto simp: clusterPath_def HasPrefix_def dest!: fsubsetD)
  moreover have "elect now' [] c = c\<lparr>ccTerm := 2, ccLeader := Min (set (n # ps)), ccUpdatedAt := now'\<rparr>"
    using hd_sort_Min [of "n # ps"] by (simp add: elect_def ic(2) newCluster_def)
  ultimately show ?thesis
    by (simp add: ElectLeader_def r Let_def atomicWrite_def)
qed

lemma SimulateQuorum_majority:
  "0 \<le> nodes \<Longrightarrow> qrCommitted (SimulateQuorum c nodes acks) \<longleftrightarrow> nodes < 2 * acks"
  by (auto simp: SimulateQuorum_def signed_divide_int_def sgn_if Let_def)

subsection \<open>Compaction\<close>

lemma store_rep_storable: "store_rep cx s bs \<Longrightarrow> b \<in> set bs \<Longrightarrow> storable cx b"
  by (auto simp: store_rep_def files_rep_def disk_holds_def)

lemma storable_encodes: "storable cx b \<Longrightarrow> gobEncode cx b \<noteq> None"
  by (auto simp: storable_def)

text \<open>A directory is what its data files say, whatever its log and snapshots.\<close>

lemma disk_holds_dData: "dData d' = dData d \<Longrightarrow> disk_holds cx d' bss = disk_holds cx d bss"
  by (simp add: disk_holds_def)

lemma dir_holds_dData: "dData d' = dData d \<Longrightarrow> dLock d' = dLock d \<Longrightarrow> dir_holds cx d' bs = dir_holds cx d bs"
  using disk_holds_dData [of d' d cx] by (simp add: dir_holds_def)

lemma dir_holds_unlock: "store_rep cx (d, f) bs \<Longrightarrow> dir_holds cx (d\<lparr>dLock := False\<rparr>) bs"
  by (auto simp: dir_holds_def store_rep_def files_rep_def)

lemma Engine_Close_healthy:
  assumes "store_rep cx (d, eStore e) bs"
  shows "\<exists>e'. Engine_Close healthy d e = (Inr (), d\<lparr>dLock := False\<rparr>, e')"
proof -
  obtain d' f' where "storeClose healthy (d, eStore e) = (Inr (), d', f')"
    using storeClose_healthy [OF assms] by blast
  then have c: "Engine_Close healthy d e = (Inr (), d', e\<lparr>eStore := f'\<rparr>)"
    by (simp add: storeClose_def Engine_Close_def)
  with Engine_Close_unlocks [OF assms c] show ?thesis by auto
qed

lemma rewriteBlocks_healthy:
  assumes cx: "codec_laws cx" and rp: "applyAll bs emptyChain = Inr c"
    and stable: "\<forall>b \<in> set bs. gobBlock b = b" and num: "numbered bs" and len: "length bs + 2 < 2 ^ 64"
    and fits: "\<forall>b \<in> set bs. gobEncode cx b \<noteq> None \<and> length (blockFrame cx b) \<le> defaultSegmentSize"
  shows "\<exists>s d. rewriteBlocks healthy cx bs = Inr (s, dData d) \<and> dir_holds cx d bs"
proof -
  obtain st tmp where o: "Storage_Open healthy cx emptyDisk = (Inr st, tmp)" and r: "store_rep cx (tmp, st) []"
    using log.opens_rep [OF dir_holds_emptyDisk [OF cx]] by blast
  have "\<exists>s. appendAll (storeAppend healthy cx) bs (tmp, st) = (Inr (), s)"
    by (rule appendAll_healthy [OF r]) (use num len fits in simp_all)
  then obtain s where a: "appendAll (storeAppend healthy cx) bs (tmp, st) = (Inr (), s)" by blast
  have sr: "store_rep cx s bs" using log.appendAll_rep [OF r, of bs healthy s] a num len by simp
  obtain d1 f1 where cl: "storeClose healthy s = (Inr (), d1, f1)" using storeClose_healthy [OF sr] by blast
  have h: "dir_holds cx d1 bs" using log.closes_holds [OF sr cl] .
  have wal: "dWal d1 = None"
  proof -
    have ap: "dWal (fst s') = dWal (fst s0)" if "appendAll (storeAppend healthy cx) cs s0 = (Inr (), s')" for cs s0 s'
      using that
    proof (induction cs arbitrary: s0)
      case (Cons b cs)
      then obtain s1 where s1: "storeAppend healthy cx b s0 = (Inr (), s1)"
         "appendAll (storeAppend healthy cx) cs s1 = (Inr (), s')" by (auto split: prod.splits sum.splits)
      have "dWal (fst s1) = dWal (fst s0)"
        using AppendBlock_wal [of healthy cx b "fst s0" "snd s0" _ "fst s1" "snd s1"] s1(1) by (simp add: storeAppend_def)
      with Cons.IH [OF s1(2)] show ?case by simp
    qed simp
    have "dWal tmp = None" using Storage_Open_wal [OF o] by (simp add: emptyDisk_def)
    moreover have "d1 = (fst s)\<lparr>dLock := False\<rparr>"
      using sr cl by (auto simp: storeClose_def Storage_Close_def store_rep_def files_rep_def Let_def split: if_splits)
    ultimately show ?thesis using ap [OF a] by simp
  qed
  obtain e d2 where e: "Engine_Open healthy cx True d1 = (Inr e, d2)" "eChain e = c"
      "store_rep cx (d2, eStore e) bs"
    using Engine_Open_no_wal [OF opens_to_clean [OF h] stable rp wal] by blast
  have v: "Verify e = Inr ()"
  proof -
    have "cBlocks c = bs" using applyAll_blocks [OF rp] by (simp add: emptyChain_def)
    with rp show ?thesis by (simp add: Verify_def e(2))
  qed
  obtain e' where "Engine_Close healthy d2 e = (Inr (), d2\<lparr>dLock := False\<rparr>, e')"
    using Engine_Close_healthy [OF e(3)] by blast
  with o a cl e(1) v dir_holds_unlock [OF e(3)] show ?thesis
    by (auto simp: rewriteBlocks_def intro!: exI [of _ "d2\<lparr>dLock := False\<rparr>"])
qed

text \<open>Runs in which nothing fails but the renames that swap the data directories.\<close>

definition swapsOnly :: "env \<Rightarrow> bool" where
  "swapsOnly env \<longleftrightarrow> shortWrite env = 0 \<and>
     (\<forall>c. c \<notin> {RenameData, RenameCompacted, RenameBack} \<longrightarrow> \<not> fails env c)"

lemma swapsOnlyD: "swapsOnly env \<Longrightarrow> c \<notin> {RenameData, RenameCompacted, RenameBack} \<Longrightarrow> fails env c = False"
  by (simp add: swapsOnly_def)

lemma swapsOnly_store:
  assumes s: "swapsOnly env"
  shows "Storage_Open env = Storage_Open healthy" "storeAppend env = storeAppend healthy"
    "storeClose env = storeClose healthy" "ReadWAL env = ReadWAL healthy" "ClearWAL env = ClearWAL healthy"
    "Engine_Close env = Engine_Close healthy" "Engine_Status env = Engine_Status healthy"
    "AppendBlock env = AppendBlock healthy" "ReadAll env = ReadAll healthy"
proof -
  note no = swapsOnlyD [OF s]
  have active: "openActive env = openActive healthy" by (simp add: fun_eq_iff openActive_def no)
  have rot: "rotate env = rotate healthy" by (simp add: fun_eq_iff rotate_def no active split: handle.split)
  have seg: "recoverSegment env = recoverSegment healthy" by (simp add: fun_eq_iff recoverSegment_def no split: option.split sum.split)
  have all: "recoverAll env cx ids d idx = recoverAll healthy cx ids d idx" for cx ids d idx
    by (induction ids arbitrary: d idx) (simp_all add: seg split: sum.split prod.split)
  have recover: "recoverSegments env = recoverSegments healthy" by (simp add: fun_eq_iff recoverSegments_def no all)
  have read: "ReadBlock env = ReadBlock healthy"
    by (simp add: fun_eq_iff ReadBlock_def no split: option.split)
  have "readHeights env cx d f hs = readHeights healthy cx d f hs" for cx d f hs
    by (induction hs) (simp_all add: read split: sum.split)
  then show "ReadAll env = ReadAll healthy" by (simp add: fun_eq_iff ReadAll_def)
  show "Storage_Open env = Storage_Open healthy" by (intro ext) (unfold Storage_Open_def active recover, simp add: no)
  show app: "AppendBlock env = AppendBlock healthy" by (intro ext) (unfold AppendBlock_def rot, simp add: no Let_def split: option.split sum.split handle.split prod.split)
  show "storeAppend env = storeAppend healthy" by (simp add: fun_eq_iff storeAppend_def app)
  have close: "Storage_Close env = Storage_Close healthy" by (simp add: fun_eq_iff Storage_Close_def no)
  show "storeClose env = storeClose healthy" by (simp add: fun_eq_iff storeClose_def close)
  show "Engine_Close env = Engine_Close healthy" by (simp add: fun_eq_iff Engine_Close_def close)
  show "ReadWAL env = ReadWAL healthy" by (simp add: fun_eq_iff ReadWAL_def no split: option.split)
  show "ClearWAL env = ClearWAL healthy" by (simp add: fun_eq_iff ClearWAL_def no)
  have "StorageBytes env = StorageBytes healthy" by (simp add: fun_eq_iff StorageBytes_def no)
  then show "Engine_Status env = Engine_Status healthy" by (simp add: fun_eq_iff Engine_Status_def)
qed

lemma swapsOnly_engine:
  assumes "swapsOnly env"
  shows "Engine_Open env = Engine_Open healthy" "rewriteBlocks env = rewriteBlocks healthy"
proof -
  show op: "Engine_Open env = Engine_Open healthy"
    by (intro ext) (unfold Engine_Open_def swapsOnly_store [OF assms], rule refl)
  show "rewriteBlocks env = rewriteBlocks healthy"
    by (intro ext) (unfold rewriteBlocks_def swapsOnly_store [OF assms] op, rule refl)
qed

text \<open>Up to the swap, compaction has closed the directory and made another with the same blocks.\<close>

lemma Compact_until_swap:
  assumes rep: "engine_rep cx d e" and env: "swapsOnly env"
    and len: "length (cBlocks (eChain e)) + 2 < 2 ^ 64"
    and fits: "\<forall>b \<in> set (cBlocks (eChain e)). length (blockFrame cx b) \<le> defaultSegmentSize"
  shows "\<exists>rp tmp d2. dir_holds cx tmp (cBlocks (eChain e)) \<and> dir_holds cx d2 (cBlocks (eChain e)) \<and> dWal d2 = None \<and>
    crHeight rp = of_nat (length (cBlocks (eChain e))) \<and> crLatestHash rp = lastHash (eChain e) \<and>
    crStateRoot rp = StateRoot (cState (eChain e)) \<and>
    Compact env cx (d\<lparr>dLock := False\<rparr>) =
      (case swapData env (dData tmp) d2 of (Inl x, d) \<Rightarrow> (Inl x, d) | (Inr _, d) \<Rightarrow> (Inr rp, d))"
proof -
  let ?bs = "cBlocks (eChain e)"
  obtain e1 d1 where o: "Engine_Open healthy cx True (d\<lparr>dLock := False\<rparr>) = (Inr e1, d1)"
      "engine_rep cx d1 e1" "eChain e1 = eChain e" "dWal d1 = None"
    using engine_rep_reopens [OF rep] by blast
  have st: "store_rep cx (d1, eStore e1) ?bs" using o(2,3) by (simp add: engine_rep_def)
  have stable: "\<forall>b \<in> set ?bs. gobBlock b = b" and rp: "applyAll ?bs emptyChain = Inr (eChain e)"
    using rep by (simp_all add: engine_rep_def replayable_def)
  have v: "Verify e1 = Inr ()" by (simp add: Verify_def o(3) rp)
  obtain e2 where cl: "Engine_Close healthy d1 e1 = (Inr (), d1\<lparr>dLock := False\<rparr>, e2)"
    using Engine_Close_healthy [OF st] by blast
  have num: "numbered ?bs" and cx: "codec_laws cx" using store_rep_laws [OF st] by simp_all
  have "\<forall>b \<in> set ?bs. gobEncode cx b \<noteq> None" using store_rep_storable [OF st] storable_encodes by blast
  then obtain s tmp where rw: "rewriteBlocks healthy cx ?bs = Inr (s, dData tmp)" "dir_holds cx tmp ?bs"
    using rewriteBlocks_healthy [OF cx rp stable num len] fits by blast
  let ?b = "Engine_Status healthy d1 e1"
  have b: "stHeight ?b = of_nat (length ?bs)" "stLatestHash ?b = lastHash (eChain e)"
    "stStateRoot ?b = StateRoot (cState (eChain e))"
    by (simp_all add: Engine_Status_def Let_def o(3))
  have h2: "dir_holds cx (d1\<lparr>dLock := False\<rparr>) ?bs" using dir_holds_unlock [OF st] .
  show ?thesis
    by (rule exI [of _ "\<lparr>crHeight = stHeight ?b, crTransactions = stTransactions ?b,
          crBytesBefore = stStorageBytes ?b, crBytesAfter = stStorageBytes s,
          crStateRoot = stStateRoot ?b, crLatestHash = stLatestHash ?b\<rparr>"],
        rule exI [of _ tmp], rule exI [of _ "d1\<lparr>dLock := False\<rparr>"])
      (use h2 rw o cl v b in \<open>simp add: Compact_def swapsOnly_store [OF env] swapsOnly_engine [OF env] BlocksCopy_def
        Let_def\<close>)
qed

lemma dir_holds_opens:
  assumes "dir_holds cx d bs" and "dWal d = None" and "\<forall>b \<in> set bs. gobBlock b = b" and "applyAll bs emptyChain = Inr c"
  shows "\<exists>e d'. Engine_Open healthy cx ag d = (Inr e, d') \<and> eChain e = c"
  using Engine_Open_no_wal [OF opens_to_clean [OF assms(1)] assms(3,4,2), of ag] by blast

text \<open>An archive with one file under a path that is not clean.\<close>

definition exArchive :: bytes where
  "exArchive = bakMagic @ zipWrite exVault [(''a/../b'', [7])]"

lemma exArchive_restores:
  "RestoreBackup healthy exVault exArchive ''t'' None [] = Inr (fmupd ''b'' [7] fmempty)"
proof -
  have c: "Clean ''a/../b'' = ''b''" by (simp add: Clean_def isAbs_def HasPrefix_def)
  have m: "length bakMagic = 8" by (simp add: bakMagic_def)
  have z: "zipRead exVault (zipWrite exVault [(''a/../b'', [7])]) = Some [(''a/../b'', [7])]"
    using exVault_laws by (simp add: vault_laws_def)
  have r: "restoreEntries healthy [(''a/../b'', [7])] fmempty = Inr (fmupd ''b'' [7] fmempty)"
    by (simp add: c Let_def atomicWrite_def conflicts_def HasPrefix_def isAbs_def fmdrop_absent)
  show ?thesis
    by (simp add: exArchive_def RestoreBackup_def decodeBackup_def m z r del: restoreEntries.simps)
qed

subsection \<open>Properties: backup\<close>

text \<open>
  C20: Whatever the archive says, every path that a successful restore creates is relative and
  has no \<open>..\<close> element: no file is written outside the target directory.
\<close>

theorem restored_paths_contained:
  assumes "RestoreBackup env v payload target existing pass = Inr t"
  shows "fBall (fmdom t) contained"
proof -
  obtain es where "restoreEntries env es fmempty = Inr t"
    using assms by (auto simp: RestoreBackup_def split: if_splits sum.splits option.splits)
  from restoreEntries_contained [OF this] show ?thesis by simp
qed

theorem restored_paths_contained_witness:
  "\<exists>t. RestoreBackup healthy exVault exArchive ''t'' None [] = Inr t \<and> fmlookup t ''b'' = Some [7] \<and>
     fBall (fmdom t) contained"
  using exArchive_restores restored_paths_contained [OF exArchive_restores] by auto

text \<open>
  C19: A backup, encrypted or not, verifies with the digest that was reported for it, and restoring it
  to an absent directory gives the files of the source, all but the lock file and the earlier
  backups, with their contents.
\<close>

theorem backup_restores:
  assumes laws: "vault_laws v" and t: "wellFormed t"
    and names: "\<forall>k. k |\<in>| fmdom t \<and> backedUp k \<longrightarrow> \<not> HasPrefix k ''..'' \<and> length k < 2 ^ 16"
    and rnd: "length salt = 16" "length nonce = 12" and "target \<noteq> []"
    and run: "Backup healthy v salt nonce pass t = Inr (payload, digest)"
  shows "RestoreBackup healthy v payload target None pass = Inr (fmfilter backedUp t) \<and>
    (\<exists>r. VerifyBackup v payload pass = Inr r \<and> brSha256 r = digest \<and> brEncrypted r = (pass \<noteq> []))"
proof -
  let ?es = "backupEntries t"
  have p: "payload = backupPayload v salt nonce pass ?es" and dg: "digest = Hash payload"
    using run by (auto simp: Backup_def Let_def)
  have "\<forall>e \<in> set ?es. length (fst e) < 2 ^ 16" using names backupKeys(2) [OF refl, of t] by auto
  then have z: "zipRead v (zipWrite v ?es) = Some ?es" using laws by (simp add: vault_laws_def)
  have dec: "decodeBackup v payload pass = Inr (zipWrite v ?es)"
    unfolding p by (rule decode_backupPayload [OF laws rnd])
  have m: "length bakMagic = 8" "length encMagic = 8" "encMagic \<noteq> bakMagic"
    by (simp_all add: bakMagic_def encMagic_def)
  have "(take 8 payload = encMagic) = (pass \<noteq> [])" using m by (simp add: p backupPayload_def)
  with restore_backupEntries [OF t] names assms(6) show ?thesis
    by (simp add: RestoreBackup_def VerifyBackup_def dec z dg)
qed

definition exTree :: tree where
  "exTree = fmap_of_list [(''meta/LOCK'', [1]), (''data/s'', [2])]"

theorem backup_restores_witness:
  "\<exists>payload digest. Backup healthy exVault (replicate 16 0) (replicate 12 0) ''pw'' exTree = Inr (payload, digest) \<and>
     RestoreBackup healthy exVault payload ''t'' None ''pw'' = Inr (fmfilter backedUp exTree)"
proof -
  have w: "wellFormed exTree"
    by (simp add: wellFormed_def exTree_def Clean_def isAbs_def HasPrefix_def)
  have n: "\<forall>k. k |\<in>| fmdom exTree \<and> backedUp k \<longrightarrow> \<not> HasPrefix k ''..'' \<and> length k < 2 ^ 16"
    by (auto simp: exTree_def HasPrefix_def)
  obtain payload digest where b: "Backup healthy exVault (replicate 16 0) (replicate 12 0) ''pw'' exTree = Inr (payload, digest)"
    by (simp add: Backup_def Let_def)
  from backup_restores [OF exVault_laws w n _ _ _ b, of "''t''"] b show ?thesis by auto
qed

text \<open>
  C39: By the code's own check and message the target of a restore may be an empty directory, but
  an archive that restores to an absent target never restores to an empty one: \<open>os.Rename\<close> does
  not replace a directory.
\<close>

theorem restore_to_empty_directory_fails:
  assumes "RestoreBackup env v payload target None pass = Inr t"
  shows "RestoreBackup env v payload target (Some fmempty) pass = Inl TargetExists"
  using assms by (auto simp: RestoreBackup_def split: if_splits sum.splits option.splits)

theorem restore_to_empty_directory_fails_witness:
  "RestoreBackup healthy exVault exArchive ''t'' None [] = Inr (fmupd ''b'' [7] fmempty) \<and>
   RestoreBackup healthy exVault exArchive ''t'' (Some fmempty) [] = Inl TargetExists"
  using exArchive_restores restore_to_empty_directory_fails [OF exArchive_restores] by blast

subsection \<open>Properties: retention, cluster, quorum\<close>

text \<open>
  C38: Pruning leaves every directory that it was not asked about as it was, and in one that
  should keep \<open>keep\<close> files a file is removed only when at least \<open>keep\<close> files at least as new stay; no
  file appears, and when every removal succeeds exactly \<open>keep\<close> files stay, or all if there are fewer.
\<close>

theorem PruneFiles_keeps_newest:
  assumes srt: "newestFirst srt" and subs: "distinct (map fst subs)"
    and run: "PruneFiles srt removable subs dirs = (Inr out, dirs')"
  shows "(\<forall>s. s \<notin> fst ` set subs \<longrightarrow> fmlookup dirs' s = fmlookup dirs s) \<and>
    (\<forall>(s, keep) \<in> set subs. \<forall>items. fmlookup dirs s = Some items \<longrightarrow>
      (\<exists>rest. fmlookup dirs' s = Some rest \<and> mset rest \<subseteq># mset items \<and>
        (\<forall>x \<in># mset items - mset rest. nat keep \<le> length (filter (\<lambda>y. snd x \<le> snd y) rest)) \<and>
        ((\<forall>x \<in> set items. removable (fst x)) \<longrightarrow> length rest = min (length items) (nat keep))))"
proof -
  note spec = PruneFiles_spec [OF srt subs run]
  have "\<exists>rest. fmlookup dirs' s = Some rest \<and> mset rest \<subseteq># mset items \<and>
        (\<forall>x \<in># mset items - mset rest. nat keep \<le> length (filter (\<lambda>y. snd x \<le> snd y) rest)) \<and>
        ((\<forall>x \<in> set items. removable (fst x)) \<longrightarrow> length rest = min (length items) (nat keep))"
    if "(s, keep) \<in> set subs" "fmlookup dirs s = Some items" for s keep items
  proof -
    obtain rest n where "pruneDir srt removable s keep items = Inr (rest, n)" "fmlookup dirs' s = Some rest"
      using spec \<open>(s, keep) \<in> set subs\<close> \<open>fmlookup dirs s = Some items\<close> by fast
    with pruneDir_spec [OF srt this(1)] show ?thesis by blast
  qed
  with spec show ?thesis by (simp add: case_prod_beta)
qed

definition exNewestFirst :: "item list \<Rightarrow> item list" where
  "exNewestFirst items = rev (sort_key snd items)"

lemma exNewestFirst_ok: "newestFirst exNewestFirst"
proof -
  have "sorted_wrt (\<lambda>a b. snd a \<le> snd b) (sort_key snd xs)" for xs :: "item list"
    using sorted_sort_key [of snd xs] by (simp add: sorted_map)
  then show ?thesis by (simp add: newestFirst_def exNewestFirst_def sorted_wrt_rev)
qed

definition exItems :: "item list" where
  "exItems = [(''old'', 1), (''new'', 3), (''mid'', 2)]"

theorem PruneFiles_keeps_newest_witness:
  "\<exists>dirs'. PruneFiles exNewestFirst (\<lambda>_. True) [(''snapshots'', 2), (''backups'', 8)]
       (fmap_of_list [(''snapshots'', exItems)]) = (Inr [(''snapshots_removed'', 1)], dirs') \<and>
     (\<exists>rest. fmlookup dirs' ''snapshots'' = Some rest \<and> length rest = 2 \<and>
        (\<forall>x \<in># mset exItems - mset rest. 2 \<le> length (filter (\<lambda>y. snd x \<le> snd y) rest)))"
proof -
  let ?run = "PruneFiles exNewestFirst (\<lambda>_. True) [(''snapshots'', 2), (''backups'', 8)]
       (fmap_of_list [(''snapshots'', exItems)])"
  have run: "?run = (Inr [(''snapshots_removed'', 1)], snd ?run)"
    by (simp add: pruneDir_def exItems_def exNewestFirst_def Let_def)
  have d: "distinct (map fst [(''snapshots'', 2 :: int), (''backups'', 8)])" by simp
  have "\<exists>rest. fmlookup (snd ?run) ''snapshots'' = Some rest \<and> mset rest \<subseteq># mset exItems \<and>
      (\<forall>x \<in># mset exItems - mset rest. nat 2 \<le> length (filter (\<lambda>y. snd x \<le> snd y) rest)) \<and>
      ((\<forall>x \<in> set exItems. True) \<longrightarrow> length rest = min (length exItems) (nat 2))"
    using PruneFiles_keeps_newest [OF exNewestFirst_ok d run] by simp
  with run show ?thesis by (auto simp: exItems_def)
qed

text \<open>
  Nodes that initialise their cluster configuration from the same set of nodes, each naming
  itself first and the others as peers in any order, agree on the cluster id and the quorum, and the
  election that each then runs on its own gives the same leader, the least node name, in term 2.
\<close>

theorem nodes_agree:
  assumes nodes: "mset (n # ps) = mset (n' # ps')"
    and run: "InitCluster env jc now n ps t = (Inr c, t1)" "InitCluster env' jc' now' n' ps' t' = (Inr c', t1')"
    and json: "readsBack jc c" "readsBack jc' c'"
  shows "ccClusterID c = ccClusterID c' \<and> ccQuorum c = ccQuorum c' \<and>
    (\<exists>l t2 l' t2'. ElectLeader healthy jc w [] t1 = (Inr l, t2) \<and> ElectLeader healthy jc' w' [] t1' = (Inr l', t2') \<and>
       ccLeader l = ccLeader l' \<and> ccLeader l = Min (set (n # ps)) \<and> ccTerm l = 2 \<and> ccTerm l' = 2)"
proof -
  have "sort (n # ps) = sort (n' # ps')" using nodes by (rule sort_mset_cong)
  moreover have "length (n # ps) = length (n' # ps')" using nodes by (metis size_mset)
  moreover have "set (n # ps) = set (n' # ps')" using nodes by (metis set_mset_mset)
  ultimately have "ccClusterID c = ccClusterID c'" "ccQuorum c = ccQuorum c'" "Min (set (n # ps)) = Min (set (n' # ps'))"
    by (simp_all only: InitCluster_Inr(2) [OF run(1)] InitCluster_Inr(2) [OF run(2)] newCluster_def clusterID_def ClusterConfig.simps)
  with InitCluster_then_elect [OF json(1) run(1), of w] InitCluster_then_elect [OF json(2) run(2), of w']
  show ?thesis by auto
qed

definition exJson :: "ClusterConfig \<Rightarrow> configCodec" where
  "exJson c = \<lparr>encPolicy = (\<lambda>_. []), decPolicy = (\<lambda>_. None), encCluster = (\<lambda>_. []), decCluster = (\<lambda>_. Some c)\<rparr>"

theorem nodes_agree_witness:
  "\<exists>c t1 c' t1' l t2 l' t2'.
     InitCluster healthy (exJson (newCluster exNow ''a'' [''b'', ''c''])) exNow ''a'' [''b'', ''c''] fmempty = (Inr c, t1) \<and>
     InitCluster healthy (exJson (newCluster exNow ''b'' [''c'', ''a''])) exNow ''b'' [''c'', ''a''] fmempty = (Inr c', t1') \<and>
     ccClusterID c = ccClusterID c' \<and>
     ElectLeader healthy (exJson (newCluster exNow ''a'' [''b'', ''c''])) exNow [] t1 = (Inr l, t2) \<and>
     ElectLeader healthy (exJson (newCluster exNow ''b'' [''c'', ''a''])) exNow [] t1' = (Inr l', t2') \<and>
     ccLeader l = ''a'' \<and> ccLeader l' = ''a''"
proof -
  let ?c = "newCluster exNow ''a'' [''b'', ''c'']" and ?c' = "newCluster exNow ''b'' [''c'', ''a'']"
  have "\<not> conflicts fmempty clusterPath" by (simp add: conflicts_def clusterPath_def)
  then obtain t1 t1' where r: "InitCluster healthy (exJson ?c) exNow ''a'' [''b'', ''c''] fmempty = (Inr ?c, t1)"
    "InitCluster healthy (exJson ?c') exNow ''b'' [''c'', ''a''] fmempty = (Inr ?c', t1')"
    by (simp add: InitCluster_def atomicWrite_def Let_def)
  have m: "mset [''a'', ''b'', ''c''] = mset [''b'', ''c'', ''a'']" by simp
  have j: "readsBack (exJson ?c) ?c" "readsBack (exJson ?c') ?c'" by (simp_all add: readsBack_def exJson_def)
  have "Min (set [''a'', ''b'', ''c'']) = ''a''" using hd_sort_Min [of "[''a'', ''b'', ''c'']"] by simp
  with nodes_agree [OF m r j, of exNow exNow] r show ?thesis by metis
qed

text \<open>
  For nodes of a finite set the simulated quorum commits on exactly the majorities, and two
  sets of acknowledgements that both commit share a node.
\<close>

theorem quorums_intersect:
  assumes "finite N" and "A \<subseteq> N" and "B \<subseteq> N"
  shows "(qrCommitted (SimulateQuorum c (int (card N)) (int (card A))) \<longleftrightarrow> card N < 2 * card A) \<and>
    (qrCommitted (SimulateQuorum c (int (card N)) (int (card A))) \<and>
     qrCommitted (SimulateQuorum c' (int (card N)) (int (card B))) \<longrightarrow> A \<inter> B \<noteq> {})"
proof -
  have q: "qrCommitted (SimulateQuorum c (int (card N)) (int (card X))) \<longleftrightarrow> card N < 2 * card X" for c X
    by (subst SimulateQuorum_majority) (simp, linarith)
  have "A \<inter> B \<noteq> {}" if "card N < 2 * card A" "card N < 2 * card B"
  proof
    assume "A \<inter> B = {}"
    then have "card (A \<union> B) = card A + card B"
      using assms by (intro card_Un_disjoint) (auto intro: finite_subset)
    moreover have "card (A \<union> B) \<le> card N" using assms by (intro card_mono) auto
    ultimately show False using that by linarith
  qed
  then show ?thesis by (simp add: q)
qed

theorem quorums_intersect_witness:
  "qrCommitted (SimulateQuorum (newCluster exNow ''a'' []) 3 2) \<and> {1, 2} \<inter> {2, 3 :: nat} \<noteq> {}"
proof -
  have s: "{1, 2} \<subseteq> {1, 2, 3 :: nat}" "{2, 3} \<subseteq> {1, 2, 3 :: nat}" "finite {1, 2, 3 :: nat}" by auto
  have n: "card {1, 2, 3 :: nat} = 3" "card {1, 2 :: nat} = 2" "card {2, 3 :: nat} = 2" by simp_all
  show ?thesis
    using quorums_intersect [OF s(3,1,2), of "newCluster exNow ''a'' []" "newCluster exNow ''a'' []"] unfolding n by simp
qed

subsection \<open>Properties: compaction\<close>

text \<open>
  C10: Compaction of a directory that a session left keeps the chain: whichever of the renames that
  swap the data directories fails, opening the directory afterwards gives the chain from before,
  provided that the rename back succeeds when it is needed; without a failing rename
  compaction succeeds and reports the height, the hash and the state root of that chain.
\<close>

theorem Compact_keeps_chain:
  assumes cx: "codec_laws cx" and s: "session cx d e" and env: "swapsOnly env"
    and undo: "fails env RenameData \<or> \<not> (fails env RenameCompacted \<and> fails env RenameBack)"
    and len: "length (cBlocks (eChain e)) + 2 < 2 ^ 64"
    and fits: "\<forall>b \<in> set (cBlocks (eChain e)). length (blockFrame cx b) \<le> defaultSegmentSize"
  shows "\<exists>r d2. Compact env cx (d\<lparr>dLock := False\<rparr>) = (r, d2) \<and>
    (\<exists>e3 d3. Engine_Open healthy cx ag d2 = (Inr e3, d3) \<and> eChain e3 = eChain e) \<and>
    (\<not> fails env RenameData \<and> \<not> fails env RenameCompacted \<longrightarrow>
       (\<exists>rp. r = Inr rp \<and> crHeight rp = of_nat (length (cBlocks (eChain e))) \<and>
          crLatestHash rp = lastHash (eChain e) \<and> crStateRoot rp = StateRoot (cState (eChain e))))"
proof -
  let ?bs = "cBlocks (eChain e)"
  note rep = session_rep [OF cx s]
  have stable: "\<forall>b \<in> set ?bs. gobBlock b = b" and rp: "applyAll ?bs emptyChain = Inr (eChain e)"
    using rep by (simp_all add: engine_rep_def replayable_def)
  obtain rp tmp d2 where c: "dir_holds cx tmp ?bs" "dir_holds cx d2 ?bs" "dWal d2 = None"
      "crHeight rp = of_nat (length ?bs)" "crLatestHash rp = lastHash (eChain e)" "crStateRoot rp = StateRoot (cState (eChain e))"
      "Compact env cx (d\<lparr>dLock := False\<rparr>) =
        (case swapData env (dData tmp) d2 of (Inl x, d) \<Rightarrow> (Inl x, d) | (Inr _, d) \<Rightarrow> (Inr rp, d))"
    using Compact_until_swap [OF rep env len fits] by blast
  have "dLock (d2\<lparr>dData := dData tmp\<rparr>) = dLock tmp" using c(1,2) by (simp add: dir_holds_def)
  then have "dir_holds cx (d2\<lparr>dData := dData tmp\<rparr>) ?bs"
    using c(1) dir_holds_dData [of "d2\<lparr>dData := dData tmp\<rparr>" tmp] by simp
  from dir_holds_opens [OF this _ stable rp, of ag] dir_holds_opens [OF c(2,3) stable rp, of ag] c(3-7) undo
  show ?thesis by (auto simp: swapData_def)
qed

lemma exFirst_session:
  "\<exists>d e. session exChainCodec d e \<and> cBlocks (eChain e) = [exFirst]"
proof (rule ex_session)
  fix e d e' d'
  assume "session exChainCodec d' e'" "eChain e' = commitBlock exFirst emptyChain"
  moreover from this have "cBlocks (eChain e') = [exFirst]" by (simp add: emptyChain_def)
  ultimately show ?thesis by blast
qed

lemma exFirst_fits: "length (blockFrame exChainCodec exFirst) \<le> defaultSegmentSize"
  using exFirst_encoded by (simp add: blockFrame_def)

theorem Compact_keeps_chain_witness:
  "\<exists>d e rp d2 e3 d3. session exChainCodec d e \<and> cBlocks (eChain e) = [exFirst] \<and>
     Compact healthy exChainCodec (d\<lparr>dLock := False\<rparr>) = (Inr rp, d2) \<and> crHeight rp = 1 \<and>
     Engine_Open healthy exChainCodec True d2 = (Inr e3, d3) \<and> cBlocks (eChain e3) = [exFirst]"
proof -
  obtain d e where s: "session exChainCodec d e" and b: "cBlocks (eChain e) = [exFirst]"
    using exFirst_session by blast
  have env: "swapsOnly healthy" by (simp add: swapsOnly_def)
  have undo: "fails healthy RenameData \<or> \<not> (fails healthy RenameCompacted \<and> fails healthy RenameBack)" by simp
  have len: "length (cBlocks (eChain e)) + 2 < 2 ^ 64" by (simp add: b)
  have fits: "\<forall>x \<in> set (cBlocks (eChain e)). length (blockFrame exChainCodec x) \<le> defaultSegmentSize"
    by (simp add: b exFirst_fits)
  from Compact_keeps_chain [OF exFirst_encoded(1) s env undo len fits, of True] s b show ?thesis by fastforce
qed

text \<open>
  C11: Compaction is not atomic. When the process stops between the two renames (the second
  one, and with it the rename back, never happen), the directory has no data, and opening it
  succeeds with the empty chain: the history is gone from the engine's view without an error.
\<close>

theorem Compact_cut_short_loses_chain:
  assumes cx: "codec_laws cx" and s: "session cx d e" and env: "swapsOnly env"
    and cut: "\<not> fails env RenameData" "fails env RenameCompacted" "fails env RenameBack"
    and len: "length (cBlocks (eChain e)) + 2 < 2 ^ 64"
    and fits: "\<forall>b \<in> set (cBlocks (eChain e)). length (blockFrame cx b) \<le> defaultSegmentSize"
  shows "\<exists>d2. Compact env cx (d\<lparr>dLock := False\<rparr>) = (Inl (IOFailed RenameCompacted), d2) \<and>
    (\<exists>e3 d3. Engine_Open healthy cx ag d2 = (Inr e3, d3) \<and> eChain e3 = emptyChain)"
proof -
  obtain tmp d2 where c: "dir_holds cx d2 (cBlocks (eChain e))" "dWal d2 = None"
      "Compact env cx (d\<lparr>dLock := False\<rparr>) =
        (case swapData env (dData tmp) d2 of (Inl x, d) \<Rightarrow> (Inl x, d) | (Inr _, d) \<Rightarrow> (Inr rp, d))" for rp
    using Compact_until_swap [OF session_rep [OF cx s] env len fits] cut by (fastforce simp: swapData_def)
  have "dir_holds cx (d2\<lparr>dData := fmempty\<rparr>) []"
  proof -
    have "dData (d2\<lparr>dData := fmempty\<rparr>) = dData emptyDisk" "dLock (d2\<lparr>dData := fmempty\<rparr>) = dLock emptyDisk"
      using c(1) by (simp_all add: emptyDisk_def dir_holds_def)
    then show ?thesis using dir_holds_emptyDisk [OF cx] dir_holds_dData by metis
  qed
  from dir_holds_opens [OF this, of emptyChain ag] c show ?thesis by (simp add: swapData_def cut)
qed

definition exCut :: env where
  "exCut = \<lparr>fails = (\<lambda>c. c = RenameCompacted \<or> c = RenameBack), shortWrite = 0\<rparr>"

theorem Compact_cut_short_loses_chain_witness:
  "\<exists>d e d2 e3 d3. session exChainCodec d e \<and> cBlocks (eChain e) = [exFirst] \<and>
     Compact exCut exChainCodec (d\<lparr>dLock := False\<rparr>) = (Inl (IOFailed RenameCompacted), d2) \<and>
     Engine_Open healthy exChainCodec True d2 = (Inr e3, d3) \<and> cBlocks (eChain e3) = []"
proof -
  obtain d e where s: "session exChainCodec d e" and b: "cBlocks (eChain e) = [exFirst]"
    using exFirst_session by blast
  have env: "swapsOnly exCut" and cut: "\<not> fails exCut RenameData" "fails exCut RenameCompacted" "fails exCut RenameBack"
    by (simp_all add: swapsOnly_def exCut_def)
  have len: "length (cBlocks (eChain e)) + 2 < 2 ^ 64" by (simp add: b)
  have fits: "\<forall>x \<in> set (cBlocks (eChain e)). length (blockFrame exChainCodec x) \<le> defaultSegmentSize"
    by (simp add: b exFirst_fits)
  from Compact_cut_short_loses_chain [OF exFirst_encoded(1) s env cut len fits, of True] s b
  show ?thesis by (fastforce simp: emptyChain_def)
qed

end
