(* ===== verification/JsonDecode.thy ===== *)
theory JsonDecode
  imports GoText Json
begin

text \<open>
  \<open>encoding/json.Unmarshal\<close> as the program uses it: the text is checked by the scanner of
  \<open>json_Valid\<close>, read into a tree, and stored into Go values field by field. Keys match fields in any
  case, unknown keys are skipped, a later duplicate is stored over the earlier one, null leaves
  strings, numbers and structs as they are. A value of the wrong kind makes the whole call fail
  after everything else is stored, and every caller drops the result of a failed call.
\<close>

subsection \<open>Reading the text\<close>

datatype json =
    JNull
  | JBool bool
  | JNum string
  | JStr string
  | JArr "json list"
  | JObj "(string \<times> string \<times> json) list"

text \<open>A member of an object keeps the text of its value as well, for \<open>json.RawMessage\<close>.\<close>

definition skipSpace :: "string \<Rightarrow> string" where
  "skipSpace = dropWhile (\<lambda>c. jsonSpace (code c))"

text \<open>The inside of a string literal, up to the closing quote.\<close>

fun scanString :: "string \<Rightarrow> (string \<times> string) option" where
  "scanString [] = None"
| "scanString (c # s) =
     (if code c = 34 then Some ([], s)
      else if code c = 92 then
        (case s of [] \<Rightarrow> None | d # r \<Rightarrow> map_option (\<lambda>(t, r). (c # d # t, r)) (scanString r))
      else map_option (\<lambda>(t, r). (c # t, r)) (scanString s))"

definition numChar :: "char \<Rightarrow> bool" where
  "numChar c \<longleftrightarrow> jdigit (code c) \<or> code c \<in> {43, 45, 46, 69, 101}"

text \<open>\<open>utf8.EncodeRune\<close> and the value of four hexadecimal digits.\<close>

definition runeBytes :: "nat \<Rightarrow> string" where
  "runeBytes n =
     (if n < 0x80 then [char_of n]
      else if n < 0x800 then [char_of (0xC0 + n div 64), char_of (0x80 + n mod 64)]
      else if n < 0x10000 then [char_of (0xE0 + n div 4096), char_of (0x80 + n div 64 mod 64), char_of (0x80 + n mod 64)]
      else [char_of (0xF0 + n div 262144), char_of (0x80 + n div 4096 mod 64), char_of (0x80 + n div 64 mod 64),
            char_of (0x80 + n mod 64)])"

definition getu4 :: "string \<Rightarrow> nat option" where
  "getu4 s = (if length s < 6 \<or> code (s ! 0) \<noteq> 92 \<or> code (s ! 1) \<noteq> 117 then None
     else digitsVal hval 16 0 (take 4 (drop 2 s)))"

definition escaped :: "char \<Rightarrow> char" where
  "escaped d =
     (let n = code d in
      if n = 98 then char_of (8 :: nat) else if n = 102 then char_of (12 :: nat) else if n = 110 then char_of (10 :: nat)
      else if n = 114 then char_of (13 :: nat) else if n = 116 then char_of (9 :: nat) else d)"

definition surrogatePair :: "nat \<Rightarrow> nat option \<Rightarrow> nat option" where
  "surrogatePair hi lo =
     (case lo of None \<Rightarrow> None
      | Some l \<Rightarrow> if 0xD800 \<le> hi \<and> hi < 0xDC00 \<and> 0xDC00 \<le> l \<and> l < 0xE000
                 then Some (0x10000 + (hi - 0xD800) * 0x400 + (l - 0xDC00)) else None)"

text \<open>Escapes are resolved; a lone surrogate and invalid UTF-8 become U+FFFD.\<close>

function unquote :: "string \<Rightarrow> string" where
  "unquote [] = []"
| "unquote (c # s) =
     (if code c = 92 then
        (case getu4 (c # s) of
           Some n \<Rightarrow>
             if 0xD800 \<le> n \<and> n < 0xE000 then
               (case surrogatePair n (getu4 (drop 5 s)) of
                  Some m \<Rightarrow> runeBytes m @ unquote (drop 11 s)
                | None \<Rightarrow> runeBytes 0xFFFD @ unquote (drop 5 s))
             else runeBytes n @ unquote (drop 5 s)
         | None \<Rightarrow> (if s = [] then [] else escaped (hd s) # unquote (tl s)))
      else if code c < 0x80 then c # unquote s
      else let n = utf8_size (c # s) in
        if n = 0 then runeBytes 0xFFFD @ unquote s
        else take n (c # s) @ unquote (drop (n - 1) s))"
  by pat_completeness auto
termination
  by (relation "measure length") auto

declare unquote.simps(2) [simp del]

text \<open>
  Recursive descent over a text that the scanner has accepted. The number bounds the calls under
  this one: two for each byte are enough for every accepted text (\<open>parseJson_valid\<close> in
  \<open>JsonDecodeProofs\<close>).
\<close>

fun parseValue :: "nat \<Rightarrow> string \<Rightarrow> (json \<times> string) option"
and parseElements :: "nat \<Rightarrow> string \<Rightarrow> (json list \<times> string) option"
and parseMembers :: "nat \<Rightarrow> string \<Rightarrow> ((string \<times> string \<times> json) list \<times> string) option" where
  "parseValue 0 s = None"
| "parseValue (Suc n) s =
     (case skipSpace s of
        [] \<Rightarrow> None
      | c # r \<Rightarrow>
         (let k = code c in
          if k = 34 then map_option (\<lambda>(t, r). (JStr (unquote t), r)) (scanString r)
          else if k = 123 then
            (case skipSpace r of [] \<Rightarrow> None
             | d # r' \<Rightarrow> if code d = 125 then Some (JObj [], r')
                        else map_option (\<lambda>(ms, r). (JObj ms, r)) (parseMembers n (d # r')))
          else if k = 91 then
            (case skipSpace r of [] \<Rightarrow> None
             | d # r' \<Rightarrow> if code d = 93 then Some (JArr [], r')
                        else map_option (\<lambda>(vs, r). (JArr vs, r)) (parseElements n (d # r')))
          else if k = 116 then Some (JBool True, drop 3 r)
          else if k = 102 then Some (JBool False, drop 4 r)
          else if k = 110 then Some (JNull, drop 3 r)
          else Some (JNum (takeWhile numChar (c # r)), dropWhile numChar (c # r))))"
| "parseElements 0 s = None"
| "parseElements (Suc n) s =
     (case parseValue n s of
        None \<Rightarrow> None
      | Some (v, r) \<Rightarrow>
         (case skipSpace r of
            [] \<Rightarrow> None
          | d # r' \<Rightarrow>
              if code d = 44 then map_option (\<lambda>(vs, r). (v # vs, r)) (parseElements n r')
              else if code d = 93 then Some ([v], r') else None))"
| "parseMembers 0 s = None"
| "parseMembers (Suc n) s =
     (case skipSpace s of
        [] \<Rightarrow> None
      | q # r \<Rightarrow>
         if code q \<noteq> 34 then None
         else case scanString r of
             None \<Rightarrow> None
           | Some (key, r) \<Rightarrow>
              (case skipSpace r of
                 [] \<Rightarrow> None
               | d # r \<Rightarrow>
                   if code d \<noteq> 58 then None
                   else case parseValue n r of
                       None \<Rightarrow> None
                     | Some (v, r') \<Rightarrow>
                        (let raw = take (length (skipSpace r) - length r') (skipSpace r); m = (unquote key, raw, v)
                         in case skipSpace r' of
                              [] \<Rightarrow> None
                            | d # r' \<Rightarrow>
                                if code d = 44 then map_option (\<lambda>(ms, r). (m # ms, r)) (parseMembers n r')
                                else if code d = 125 then Some ([m], r') else None)))"

definition parseJson :: "bytes \<Rightarrow> json option" where
  "parseJson b =
     (if json_Valid b then map_option fst (parseValue (2 * length b + 2) (string_of b)) else None)"

subsection \<open>Storing into Go values\<close>

text \<open>\<open>foldName\<close>: upper case, and the two other letters that fold to ASCII ones (U+017F, U+212A).\<close>

fun foldName :: "string \<Rightarrow> string" where
  "foldName [] = []"
| "foldName (c # s) =
     (let n = code c in
      if n = 0xC5 \<and> take 1 s = [char_of (0xBF :: nat)] then CHR ''S'' # foldName (drop 1 s)
      else if n = 0xE2 \<and> take 2 s = [char_of (0x84 :: nat), char_of (0xAA :: nat)] then CHR ''K'' # foldName (drop 2 s)
      else (if 97 \<le> n \<and> n \<le> 122 then char_of (n - 32) else c) # foldName s)"

definition names :: "string \<Rightarrow> string \<Rightarrow> bool" where
  "names key field \<longleftrightarrow> foldName key = foldName field"

fun foldM :: "('a \<Rightarrow> 's \<Rightarrow> 's option) \<Rightarrow> 'a list \<Rightarrow> 's \<Rightarrow> 's option" where
  "foldM f [] s = Some s"
| "foldM f (x # xs) s = (case f x s of None \<Rightarrow> None | Some s \<Rightarrow> foldM f xs s)"

definition storeString :: "json \<Rightarrow> string \<Rightarrow> string option" where
  "storeString v old = (case v of JStr s \<Rightarrow> Some s | JNull \<Rightarrow> Some old | _ \<Rightarrow> None)"

definition storeBool :: "json \<Rightarrow> bool \<Rightarrow> bool option" where
  "storeBool v old = (case v of JBool b \<Rightarrow> Some b | JNull \<Rightarrow> Some old | _ \<Rightarrow> None)"

definition storeUint :: "nat \<Rightarrow> json \<Rightarrow> nat \<Rightarrow> nat option" where
  "storeUint w v old =
     (case v of
        JNum t \<Rightarrow> (case ParseUint t of (n, None) \<Rightarrow> if n < 2 ^ w then Some n else None | _ \<Rightarrow> None)
      | JNull \<Rightarrow> Some old
      | _ \<Rightarrow> None)"

definition storeInt :: "json \<Rightarrow> int \<Rightarrow> int option" where
  "storeInt v old = (case v of JNum t \<Rightarrow> Atoi t | JNull \<Rightarrow> Some old | _ \<Rightarrow> None)"

text \<open>\<open>base64.StdEncoding\<close>: line breaks are ignored, padding is required.\<close>

definition b64value :: "char \<Rightarrow> nat option" where
  "b64value c =
     (let n = code c in
      if 65 \<le> n \<and> n \<le> 90 then Some (n - 65)
      else if 97 \<le> n \<and> n \<le> 122 then Some (n - 71)
      else if 48 \<le> n \<and> n \<le> 57 then Some (n + 4)
      else if n = 43 then Some 62 else if n = 47 then Some 63 else None)"

fun b64quads :: "string \<Rightarrow> bytes option" where
  "b64quads [] = Some []"
| "b64quads (a # b # c # d # r) =
     (case (b64value a, b64value b) of
        (Some x, Some y) \<Rightarrow>
          (if r = [] \<and> code c = 61 \<and> code d = 61 then Some [of_nat (4 * x + y div 16)]
           else case b64value c of
               None \<Rightarrow> None
             | Some z \<Rightarrow>
                 (if r = [] \<and> code d = 61 then Some [of_nat (4 * x + y div 16), of_nat (16 * (y mod 16) + z div 4)]
                  else case b64value d of
                      None \<Rightarrow> None
                    | Some u \<Rightarrow>
                        map_option (\<lambda>bs. of_nat (4 * x + y div 16) # of_nat (16 * (y mod 16) + z div 4) #
                          of_nat (64 * (z mod 4) + u) # bs) (b64quads r)))
      | _ \<Rightarrow> None)"
| "b64quads _ = None"

definition base64Decode :: "string \<Rightarrow> bytes option" where
  "base64Decode s = b64quads (filter (\<lambda>c. code c \<noteq> 10 \<and> code c \<noteq> 13) s)"

text \<open>
  A byte slice is a base64 string, or an array of numbers below 256; a null among them leaves its
  cell. Cells beyond the length, which only a field stored three times could show, count as zero.
\<close>

fun storeCells :: "json list \<Rightarrow> bytes \<Rightarrow> bytes option" where
  "storeCells [] old = Some []"
| "storeCells (v # vs) old =
     (case storeUint 8 v (case old of [] \<Rightarrow> 0 | b # _ \<Rightarrow> unat b) of
        None \<Rightarrow> None
      | Some n \<Rightarrow> map_option ((#) (of_nat n)) (storeCells vs (tl old)))"

definition storeBytes :: "json \<Rightarrow> bytes option \<Rightarrow> bytes option option" where
  "storeBytes v old =
     (case v of
        JStr s \<Rightarrow> map_option Some (base64Decode s)
      | JNull \<Rightarrow> Some None
      | JArr vs \<Rightarrow> map_option Some (storeCells vs (slice old))
      | _ \<Rightarrow> None)"

text \<open>
  A slice is stored element by element over what its cells held before, which only a duplicate
  key makes other than zero; the first component is the cells, the second the length.
\<close>

fun storeElements :: "(json \<Rightarrow> 'a \<Rightarrow> 'a option) \<Rightarrow> 'a \<Rightarrow> json list \<Rightarrow> 'a list \<Rightarrow> 'a list option" where
  "storeElements f zero [] cells = Some cells"
| "storeElements f zero (v # vs) cells =
     (case f v (case cells of [] \<Rightarrow> zero | c # _ \<Rightarrow> c) of
        None \<Rightarrow> None
      | Some x \<Rightarrow> map_option ((#) x) (storeElements f zero vs (tl cells)))"

definition storeSlice :: "(json \<Rightarrow> 'a \<Rightarrow> 'a option) \<Rightarrow> 'a \<Rightarrow> json \<Rightarrow> 'a list \<times> nat \<Rightarrow> ('a list \<times> nat) option" where
  "storeSlice f zero v old =
     (case v of
        JNull \<Rightarrow> Some ([], 0)
      | JArr vs \<Rightarrow> if vs = [] then Some ([], 0)
                  else map_option (\<lambda>cells. (cells, length vs)) (storeElements f zero vs (fst old))
      | _ \<Rightarrow> None)"

text \<open>A struct is stored member by member.\<close>

definition storeStruct :: "(string \<times> string \<times> json \<Rightarrow> 's \<Rightarrow> 's option) \<Rightarrow> json \<Rightarrow> 's \<Rightarrow> 's option" where
  "storeStruct f v old = (case v of JNull \<Rightarrow> Some old | JObj ms \<Rightarrow> foldM f ms old | _ \<Rightarrow> None)"

text \<open>\<open>json.Unmarshal\<close> of a text into a fresh struct.\<close>

definition Unmarshal :: "(string \<times> string \<times> json \<Rightarrow> 's \<Rightarrow> 's option) \<Rightarrow> 's \<Rightarrow> bytes \<Rightarrow> 's option" where
  "Unmarshal f zero b = (case parseJson b of None \<Rightarrow> None | Some v \<Rightarrow> storeStruct f v zero)"

subsection \<open>Operations\<close>

definition zeroOp :: Operation where
  "zeroOp = \<lparr>opKey = [], opValue = None, opDelete = False\<rparr>"

definition storeOpField :: "string \<times> string \<times> json \<Rightarrow> Operation \<Rightarrow> Operation option" where
  "storeOpField m op =
     (case m of (key, _, v) \<Rightarrow>
        if names key ''key'' then map_option (\<lambda>s. op\<lparr>opKey := s\<rparr>) (storeString v (opKey op))
        else if names key ''value'' then map_option (\<lambda>b. op\<lparr>opValue := b\<rparr>) (storeBytes v (opValue op))
        else if names key ''delete'' then map_option (\<lambda>b. op\<lparr>opDelete := b\<rparr>) (storeBool v (opDelete op))
        else Some op)"

definition storeOp :: "json \<Rightarrow> Operation \<Rightarrow> Operation option" where
  "storeOp = storeStruct storeOpField"

end
