(* ===== verification/Server.thy ===== *)
theory Server
  imports Engine JsonDecode
begin

text \<open>
  \<open>internal/server/server.go\<close>: the HTTP interface. A request is given by its method, the path as
  it was sent (percent-escaped), the parsed query, the \<open>Authorization\<close> header and the body; a
  response by its status code and the value that is encoded into it. \<open>serveHTTP\<close> is the handler
  that \<open>Handler\<close> builds: the routing of \<open>http.ServeMux\<close> (Go 1.23), the token check and the
  handlers. \<open>decodeTx\<close> is \<open>json.Unmarshal\<close> into the struct of a transaction request.
\<close>

record request =
  rqMethod :: string
  rqEscapedPath :: string
  rqQuery :: "(string \<times> string) list"
  rqAuthorization :: string
  rqBody :: "bytes option"

datatype body =
    StatusBody Status
  | BlockBody Block
  | StateBody string bytes u64
  | VerifiedBody
  | TextBody string
  | ErrorBody error
  | MovedTo string

record response =
  rsCode :: nat
  rsBody :: body

record txRequest =
  trSender :: string
  trNonce :: u64
  trOps :: "Operation list"
  trPayload :: bytes

subsection \<open>Routing\<close>

text \<open>\<open>url.PathUnescape\<close>, None when a percent sign is not followed by two hexadecimal digits.\<close>

fun PathUnescape :: "string \<Rightarrow> string option" where
  "PathUnescape [] = Some []"
| "PathUnescape (c # s) =
     (if c = CHR ''%'' then
        (case s of
           a # b # r \<Rightarrow>
             (case (hval a, hval b) of
                (Some x, Some y) \<Rightarrow> map_option ((#) (char_of (16 * x + y))) (PathUnescape r)
              | _ \<Rightarrow> None)
         | _ \<Rightarrow> None)
      else map_option ((#) c) (PathUnescape s))"

definition pathUnescape :: "string \<Rightarrow> string" where
  "pathUnescape s = (case PathUnescape s of None \<Rightarrow> s | Some t \<Rightarrow> t)"

text \<open>\<open>r.URL.Path\<close>.\<close>

definition rqPath :: "request \<Rightarrow> string" where
  "rqPath rq = pathUnescape (rqEscapedPath rq)"

definition cleanPath :: "string \<Rightarrow> string" where
  "cleanPath p =
     (let p = (if p = [] then ''/'' else if hd p \<noteq> CHR ''/'' then CHR ''/'' # p else p);
          np = Clean p
      in if HasSuffix p ''/'' \<and> np \<noteq> ''/'' then np @ ''/'' else np)"

datatype endpoint = StatusEndpoint | TxEndpoint | StateEndpoint | BlockEndpoint | VerifyEndpoint

datatype target = Redirect string | NoRoute | Endpoint endpoint

text \<open>Patterns are matched segment by segment, each unescaped on its own.\<close>

definition segments :: "string \<Rightarrow> string list" where
  "segments p = map pathUnescape (Split (CHR ''/'') (tl p))"

definition route :: "string list \<Rightarrow> endpoint option" where
  "route segs =
     (if segs = [''v1'', ''status''] then Some StatusEndpoint
      else if segs = [''v1'', ''tx''] then Some TxEndpoint
      else if 2 < length segs \<and> take 2 segs = [''v1'', ''state''] then Some StateEndpoint
      else if 2 < length segs \<and> take 2 segs = [''v1'', ''block''] then Some BlockEndpoint
      else if segs = [''v1'', ''verify''] then Some VerifyEndpoint
      else None)"

text \<open>
  Paths are cleaned, except for \<open>CONNECT\<close>; one that changes is redirected, and a subtree
  pattern without its slash is redirected to the one with it.
\<close>

definition findHandler :: "request \<Rightarrow> target" where
  "findHandler rq =
     (let path = (if rqMethod rq = ''CONNECT'' then rqEscapedPath rq else cleanPath (rqEscapedPath rq));
          segs = segments path
      in if segs = [''v1'', ''state''] \<or> segs = [''v1'', ''block'']
         then Redirect (cleanPath (rqPath rq) @ ''/'')
         else if path \<noteq> rqEscapedPath rq then Redirect path
         else case route segs of None \<Rightarrow> NoRoute | Some ep \<Rightarrow> Endpoint ep)"

subsection \<open>The body of a transaction request\<close>

text \<open>The struct while it is decoded; the cells of the slice \<open>Ops\<close> are beside its length.\<close>

record txTarget =
  ttSender :: string
  ttNonce :: nat
  ttOps :: "Operation list \<times> nat"
  ttPayload :: "bytes option"

definition zeroTarget :: txTarget where
  "zeroTarget = \<lparr>ttSender = [], ttNonce = 0, ttOps = ([], 0), ttPayload = None\<rparr>"

definition storeTxField :: "string \<times> string \<times> json \<Rightarrow> txTarget \<Rightarrow> txTarget option" where
  "storeTxField m r =
     (case m of (key, _, v) \<Rightarrow>
        if names key ''sender'' then map_option (\<lambda>s. r\<lparr>ttSender := s\<rparr>) (storeString v (ttSender r))
        else if names key ''nonce'' then map_option (\<lambda>n. r\<lparr>ttNonce := n\<rparr>) (storeUint 64 v (ttNonce r))
        else if names key ''ops'' then map_option (\<lambda>ops. r\<lparr>ttOps := ops\<rparr>) (storeSlice storeOp zeroOp v (ttOps r))
        else if names key ''payload'' then map_option (\<lambda>b. r\<lparr>ttPayload := b\<rparr>) (storeBytes v (ttPayload r))
        else Some r)"

definition targetRequest :: "txTarget \<Rightarrow> txRequest" where
  "targetRequest r = \<lparr>trSender = ttSender r, trNonce = of_nat (ttNonce r),
     trOps = take (snd (ttOps r)) (fst (ttOps r)), trPayload = slice (ttPayload r)\<rparr>"

definition decodeTx :: "bytes \<Rightarrow> txRequest option" where
  "decodeTx b = map_option targetRequest (Unmarshal storeTxField zeroTarget b)"

subsection \<open>Handlers\<close>

definition queryGet :: "request \<Rightarrow> string \<Rightarrow> string" where
  "queryGet rq k = (case map_of (rqQuery rq) k of None \<Rightarrow> [] | Some v \<Rightarrow> v)"

definition authorised :: "string \<Rightarrow> request \<Rightarrow> bool" where
  "authorised token rq \<longleftrightarrow> token = [] \<or> rqAuthorization rq = ''Bearer '' @ token"

definition maxBody :: nat where
  "maxBody = 16 * 2 ^ 20"

text \<open>The random id, and the two clock readings of \<open>NewTransaction\<close> and \<open>Commit\<close>.\<close>

record entropy =
  enID :: bytes
  enTxTime :: gotime
  enTime :: gotime

definition handleStatus :: "env \<Rightarrow> disk \<Rightarrow> Engine \<Rightarrow> response" where
  "handleStatus env d e = \<lparr>rsCode = 200, rsBody = StatusBody (Engine_Status env d e)\<rparr>"

definition requestTx :: "entropy \<Rightarrow> txRequest \<Rightarrow> Transaction" where
  "requestTx en r = NewTransaction (enID en) (enTxTime en) (trOps r) (trSender r) (trNonce r) (trPayload r)"

definition handleTx :: "env \<Rightarrow> codec \<Rightarrow> entropy \<Rightarrow> request \<Rightarrow> disk \<Rightarrow> Engine \<Rightarrow>
    response \<times> disk \<times> Engine" where
  "handleTx env cx en rq d e =
     (if rqMethod rq \<noteq> ''POST'' then (\<lparr>rsCode = 405, rsBody = TextBody ''method not allowed''\<rparr>, d, e)
      else case rqBody rq of
          None \<Rightarrow> (\<lparr>rsCode = 400, rsBody = ErrorBody UnexpectedEOF\<rparr>, d, e)
        | Some b \<Rightarrow>
            if maxBody < length b
            then (\<lparr>rsCode = 400, rsBody = TextBody ''http: request body too large''\<rparr>, d, e)
            else (case decodeTx b of
                None \<Rightarrow> (\<lparr>rsCode = 400, rsBody = TextBody ''invalid JSON''\<rparr>, d, e)
              | Some r \<Rightarrow>
                 (case Commit env cx (enTime en) [requestTx en r] d e of
                    (Inl x, d, e) \<Rightarrow> (\<lparr>rsCode = 400, rsBody = ErrorBody x\<rparr>, d, e)
                  | (Inr blk, d, e) \<Rightarrow> (\<lparr>rsCode = 201, rsBody = BlockBody blk\<rparr>, d, e))))"

text \<open>The error of \<open>ParseUint\<close> is dropped: 0, that is no height, after a syntax error.\<close>

definition handleState :: "request \<Rightarrow> Engine \<Rightarrow> response" where
  "handleState rq e =
     (let key = TrimPrefix (rqPath rq) ''/v1/state/'';
          h = of_nat (fst (ParseUint (queryGet rq ''height''))) :: u64;
          v = (if 0 < h then GetAt e key h
               else if snd (Get e key) then Some (fst (Get e key)) else None)
      in case v of
          None \<Rightarrow> \<lparr>rsCode = 404, rsBody = TextBody ''not found''\<rparr>
        | Some v \<Rightarrow> \<lparr>rsCode = 200, rsBody = StateBody key v h\<rparr>)"

definition handleBlock :: "request \<Rightarrow> Engine \<Rightarrow> response" where
  "handleBlock rq e =
     (case ParseUint (TrimPrefix (rqPath rq) ''/v1/block/'') of
        (_, Some _) \<Rightarrow> \<lparr>rsCode = 400, rsBody = TextBody ''invalid height''\<rparr>
      | (n, None) \<Rightarrow>
         (case Block_at e (of_nat n) of
            None \<Rightarrow> \<lparr>rsCode = 404, rsBody = TextBody ''not found''\<rparr>
          | Some b \<Rightarrow> \<lparr>rsCode = 200, rsBody = BlockBody b\<rparr>))"

definition handleVerify :: "Engine \<Rightarrow> response" where
  "handleVerify e =
     (case Verify e of
        Inl x \<Rightarrow> \<lparr>rsCode = 500, rsBody = ErrorBody x\<rparr>
      | Inr _ \<Rightarrow> \<lparr>rsCode = 200, rsBody = VerifiedBody\<rparr>)"

definition serveHTTP :: "env \<Rightarrow> codec \<Rightarrow> string \<Rightarrow> entropy \<Rightarrow> request \<Rightarrow>
    disk \<Rightarrow> Engine \<Rightarrow> response \<times> disk \<times> Engine" where
  "serveHTTP env cx token en rq d e =
     (case findHandler rq of
        Redirect p \<Rightarrow> (\<lparr>rsCode = 301, rsBody = MovedTo p\<rparr>, d, e)
      | NoRoute \<Rightarrow> (\<lparr>rsCode = 404, rsBody = TextBody ''404 page not found''\<rparr>, d, e)
      | Endpoint ep \<Rightarrow>
          if \<not> authorised token rq then (\<lparr>rsCode = 401, rsBody = TextBody ''unauthorized''\<rparr>, d, e)
          else (case ep of
              StatusEndpoint \<Rightarrow> (handleStatus env d e, d, e)
            | TxEndpoint \<Rightarrow> handleTx env cx en rq d e
            | StateEndpoint \<Rightarrow> (handleState rq e, d, e)
            | BlockEndpoint \<Rightarrow> (handleBlock rq e, d, e)
            | VerifyEndpoint \<Rightarrow> (handleVerify e, d, e)))"

end
