(* ===== verification/JsonDecodeProofs.thy ===== *)
theory JsonDecodeProofs
  imports JsonDecode
begin

text \<open>
  The reader of \<open>JsonDecode\<close> against the scanner and against the encoder: every text that
  \<open>json.Valid\<close> accepts is read within the bound on calls (\<open>parseJson_valid\<close>), and what
  \<open>json.Marshal\<close> writes is read back (\<open>jsonText\<close> and after).
\<close>

subsection \<open>The scanner over a text\<close>

definition scan :: "string \<Rightarrow> jscan \<times> jparse list \<Rightarrow> jscan \<times> jparse list" where
  "scan s q = fold jstep (map of_char s) q"

definition accepted :: "string \<Rightarrow> jscan \<times> jparse list \<Rightarrow> bool" where
  "accepted s q \<longleftrightarrow> fst (jstep 32 (scan s q)) = EndTop"

lemma scan_simps [simp]:
  "scan [] q = q" "scan (c # s) q = scan s (jstep (of_char c) q)" "scan (s @ t) q = scan t (scan s q)"
  by (simp_all add: scan_def)

lemma accepted_Nil [simp]: "accepted [] q \<longleftrightarrow> fst (jstep 32 q) = EndTop"
  by (simp add: accepted_def)

lemma accepted_Cons [simp]: "accepted (c # s) q \<longleftrightarrow> accepted s (jstep (of_char c) q)"
  by (simp add: accepted_def)

lemma accepted_append: "accepted (s @ t) q \<longleftrightarrow> accepted t (scan s q)"
  by (simp add: accepted_def)

lemma unat_bytes_of: "map unat (bytes_of s) = map of_char s"
  by (simp add: bytes_of_def unat_of_nat)

lemma json_Valid_scan: "json_Valid (bytes_of s) \<longleftrightarrow> accepted s (BeginValue, [])"
  by (simp add: json_Valid_def accepted_def scan_def unat_bytes_of)

lemma accepted_error [simp]: "\<not> accepted s (ScanError, st)"
  by (induction s) simp_all

lemma accepted_EndTop: "accepted s (EndTop, []) \<longleftrightarrow> accepted s (EndValue, [])"
  by (cases s) (simp_all add: jEndValue_def)

lemma accepted_jpop: "accepted s (jpop (p # st)) \<longleftrightarrow> accepted s (EndValue, st)"
  by (simp add: jpop_def accepted_EndTop)

lemma skipSpace_simps [simp]:
  "skipSpace [] = []" "skipSpace (c # s) = (if jsonSpace (of_char c) then skipSpace s else c # s)"
  by (simp_all add: skipSpace_def)

lemma skipSpace_length: "length (skipSpace s) \<le> length s"
  by (simp add: skipSpace_def length_dropWhile_le)

lemma skipSpace_hd: "skipSpace s = c # r \<Longrightarrow> \<not> jsonSpace (of_char c)"
  by (induction s) (auto split: if_splits)

lemma accepted_skipSpace:
  assumes "q \<in> {BeginValue, BeginValueOrEmpty, BeginString, BeginStringOrEmpty} \<or> q = EndValue \<and> st \<noteq> []"
  shows "accepted s (q, st) \<longleftrightarrow> accepted (skipSpace s) (q, st)"
proof (induction s)
  case (Cons c s)
  then show ?case using assms
    by (auto simp: jBeginValue_def jBeginString_def jEndValue_def split: list.splits)
qed simp

lemma accepted_not_Nil:
  "accepted s (q, st) \<Longrightarrow> q \<in> {BeginValue, BeginValueOrEmpty, BeginString, BeginStringOrEmpty} \<or> q = EndValue \<and> st \<noteq> []
    \<Longrightarrow> s \<noteq> []"
  by (auto simp: jBeginValue_def jBeginString_def jEndValue_def jsonSpace_def split: list.splits)

text \<open>The first byte after white space, where the scanner still expects something.\<close>

lemma accepted_first:
  assumes "accepted s (q, st)"
    and "q \<in> {BeginValue, BeginValueOrEmpty, BeginString, BeginStringOrEmpty} \<or> q = EndValue \<and> st \<noteq> []"
  obtains c r where "skipSpace s = c # r" "\<not> jsonSpace (of_char c)" "accepted r (jstep (of_char c) (q, st))"
    "length r < length s"
proof -
  have a: "accepted (skipSpace s) (q, st)" using assms accepted_skipSpace by blast
  with accepted_not_Nil assms(2) obtain c r where c: "skipSpace s = c # r" by (metis neq_Nil_conv)
  with skipSpace_length [of s] have "length r < length s" by simp
  with that c a skipSpace_hd [OF c] show thesis by simp
qed

subsection \<open>Accepted texts parse\<close>

lemma scanString_accepted:
  "accepted s (q, st) \<Longrightarrow> q = InString \<or> (\<exists>k. q = InStringEscU k) \<Longrightarrow>
   \<exists>t r. scanString s = Some (t, r) \<and> accepted r (EndValue, st) \<and> length r < length s"
proof (induction s arbitrary: q rule: scanString.induct)
  case 1
  then show ?case by (auto simp: jhex_def jdigit_def)
next
  case (2 c s)
  consider (quote) "of_char c = (34 :: nat)" | (esc) "of_char c = (92 :: nat)" | (plain) "of_char c \<noteq> (34 :: nat)" "of_char c \<noteq> (92 :: nat)"
    by blast
  then show ?case
  proof cases
    case quote
    with 2(3,4) show ?thesis by (auto simp: jhex_def jdigit_def)
  next
    case esc
    then have q: "accepted s (InStringEsc, st)" using 2(3,4) by (auto simp: jhex_def jdigit_def)
    then obtain d r where s: "s = d # r" by (cases s) auto
    have "accepted r (InString, st) \<or> accepted r (InStringEscU 3, st)" using q by (auto simp: s split: if_splits)
    moreover have "(of_char c :: nat) \<noteq> 34" using esc by simp
    ultimately obtain t r' where "scanString r = Some (t, r')" "accepted r' (EndValue, st)" "length r' < length r"
      using 2(1) [OF _ esc s] by metis
    with esc s show ?thesis by auto
  next
    case plain
    have "\<exists>q'. accepted s (q', st) \<and> (q' = InString \<or> (\<exists>k. q' = InStringEscU k))"
      using 2(3,4) plain by (auto split: if_splits)
    then obtain t r where "scanString s = Some (t, r)" "accepted r (EndValue, st)" "length r < length s"
      using 2(2) [OF plain] by metis
    with plain show ?thesis by auto
  qed
qed

lemma literal_accepted:
  "accepted s (Literal xs, st) \<Longrightarrow> xs \<noteq> [] \<Longrightarrow> \<exists>r. s = xs @ r \<and> accepted r (EndValue, st)"
proof (induction xs arbitrary: s)
  case (Cons x xs)
  then obtain c r where s: "s = c # r" by (cases s) (auto split: if_splits)
  with Cons.prems have "c = x" by (auto split: if_splits)
  with s Cons show ?case by (cases "xs = []") auto
qed simp

lemma jEndValue_numChar: "numChar c \<Longrightarrow> jEndValue (of_char c) st = (ScanError, st)"
  by (cases st) (auto simp: jEndValue_def numChar_def jdigit_def jsonSpace_def split: jparse.splits)

definition inNumber :: "jscan \<Rightarrow> bool" where
  "inNumber q \<longleftrightarrow> q \<in> {Neg, Num1, Num0, Dot, Dot0, NumE, NumESign, NumE0}"

lemma numChar_step:
  assumes "numChar c" and "inNumber q"
  shows "(inNumber (fst (jstep (of_char c) (q, st))) \<or> fst (jstep (of_char c) (q, st)) = ScanError) \<and>
    snd (jstep (of_char c) (q, st)) = st"
  using assms(2) by (cases q) (simp_all add: inNumber_def jNum0_def jEndValue_numChar [OF assms(1)])

lemma not_numChar_step:
  assumes "\<not> numChar c" and "inNumber q"
  shows "jstep (of_char c) (q, st) = jEndValue (of_char c) st \<or> jstep (of_char c) (q, st) = (ScanError, st)"
  using assms by (cases q) (auto simp: inNumber_def jNum0_def numChar_def jdigit_def)

lemma number_accepted:
  "accepted s (q, st) \<Longrightarrow> inNumber q \<Longrightarrow> accepted (dropWhile numChar s) (EndValue, st)"
proof (induction s arbitrary: q)
  case Nil
  then show ?case by (cases q) (simp_all add: inNumber_def jNum0_def jdigit_def)
next
  case (Cons c s)
  show ?case
  proof (cases "numChar c")
    case True
    obtain q' where q': "jstep (of_char c) (q, st) = (q', st)" "inNumber q' \<or> q' = ScanError"
      using numChar_step [OF True Cons.prems(2), of st] by (metis prod.collapse)
    with Cons.prems(1) have "inNumber q'" "accepted s (q', st)" by auto
    with Cons.IH True show ?thesis by simp
  next
    case False
    with not_numChar_step [OF False Cons.prems(2), of st] Cons.prems(1) show ?thesis by auto
  qed
qed


text \<open>What a parser leaves: a value, and a rest that the scanner accepts after it.\<close>

definition leaves :: "('a \<times> string) option \<Rightarrow> string \<Rightarrow> jparse list \<Rightarrow> bool" where
  "leaves p s st \<longleftrightarrow> (\<exists>v r. p = Some (v, r) \<and> accepted r (EndValue, st) \<and> length r < length s)"

lemma leaves_mono: "leaves p s st \<Longrightarrow> length s \<le> length s' \<Longrightarrow> leaves p s' st"
  unfolding leaves_def by fastforce

lemma leaves_map: "leaves (map_option (\<lambda>(v, r). (f v, r)) p) s st \<longleftrightarrow> leaves p s st"
  by (auto simp: leaves_def)

lemma leavesI: "p = Some (v, r) \<Longrightarrow> accepted r (EndValue, st) \<Longrightarrow> length r < length s \<Longrightarrow> leaves p s st"
  by (simp add: leaves_def)

lemma leaves_less: "leaves p s st \<Longrightarrow> length s < length s' \<Longrightarrow> leaves p s' st"
  by (erule leaves_mono) simp

lemma parseElements_accepted:
  assumes "leaves (parseValue n s) s (ArrayValue # st)"
    and el: "\<And>r. accepted r (BeginValue, ArrayValue # st) \<Longrightarrow> length r < length s \<Longrightarrow> leaves (parseElements n r) r st"
  shows "leaves (parseElements (Suc n) s) s st"
proof -
  obtain v r where v: "parseValue n s = Some (v, r)" "accepted r (EndValue, ArrayValue # st)" "length r < length s"
    using assms(1) by (auto simp: leaves_def)
  obtain d r' where d: "skipSpace r = d # r'" "\<not> jsonSpace (of_char d)" "length r' < length r"
      and a: "accepted r' (jEndValue (of_char d) (ArrayValue # st))"
    by (rule accepted_first [OF v(2)]) auto
  consider (comma) "of_char d = (44 :: nat)" "accepted r' (BeginValue, ArrayValue # st)"
    | (close) "of_char d = (93 :: nat)" "accepted r' (EndValue, st)"
    using a d(2) by (auto simp: jEndValue_def accepted_jpop split: if_splits)
  then show ?thesis
  proof cases
    case comma
    with el d(3) v(3) have "leaves (parseElements n r') s st" by (meson leaves_less less_trans)
    with comma(1) v(1) d(1) show ?thesis by (simp add: leaves_map)
  qed (use v d in \<open>auto simp: leaves_def\<close>)
qed

lemma parseMembers_accepted:
  assumes s: "accepted s (BeginString, ObjectKey # st)"
    and val: "\<And>r. accepted r (BeginValue, ObjectValue # st) \<Longrightarrow> length r < length s \<Longrightarrow> leaves (parseValue n r) r (ObjectValue # st)"
    and mem: "\<And>r. accepted r (BeginString, ObjectKey # st) \<Longrightarrow> length r < length s \<Longrightarrow> leaves (parseMembers n r) r st"
  shows "leaves (parseMembers (Suc n) s) s st"
proof -
  obtain q r where q: "skipSpace s = q # r" "\<not> jsonSpace (of_char q)" "length r < length s"
      and "accepted r (jBeginString (of_char q) (ObjectKey # st))"
    by (rule accepted_first [OF s]) auto
  then have q34: "of_char q = (34 :: nat)" and "accepted r (InString, ObjectKey # st)"
    by (auto simp: jBeginString_def split: if_splits)
  then obtain key r1 where key: "scanString r = Some (key, r1)" "accepted r1 (EndValue, ObjectKey # st)" "length r1 < length r"
    using scanString_accepted by blast
  obtain c r2 where c: "skipSpace r1 = c # r2" "\<not> jsonSpace (of_char c)" "length r2 < length r1"
      and "accepted r2 (jEndValue (of_char c) (ObjectKey # st))"
    by (rule accepted_first [OF key(2)]) auto
  then have c58: "of_char c = (58 :: nat)" and "accepted r2 (BeginValue, ObjectValue # st)"
    by (auto simp: jEndValue_def split: if_splits)
  moreover have "length r2 < length s" using q(3) key(3) c(3) by simp
  ultimately obtain v r3 where v: "parseValue n r2 = Some (v, r3)" "accepted r3 (EndValue, ObjectValue # st)" "length r3 < length r2"
    using val unfolding leaves_def by metis
  obtain d r4 where d: "skipSpace r3 = d # r4" "\<not> jsonSpace (of_char d)" "length r4 < length r3"
      and a: "accepted r4 (jEndValue (of_char d) (ObjectValue # st))"
    by (rule accepted_first [OF v(2)]) auto
  have r4: "length r4 < length s" using q(3) key(3) c(3) v(3) d(3) by simp
  consider (comma) "of_char d = (44 :: nat)" "accepted r4 (BeginString, ObjectKey # st)"
    | (close) "of_char d = (125 :: nat)" "accepted r4 (EndValue, st)"
    using a d(2) by (auto simp: jEndValue_def accepted_jpop split: if_splits)
  then show ?thesis
  proof cases
    case comma
    with mem r4 have "leaves (parseMembers n r4) s st" by (meson leaves_less)
    with comma(1) q q34 key c c58 v d show ?thesis by (simp add: leaves_map Let_def)
  qed (use q q34 key c c58 v d r4 in \<open>auto simp: leaves_def Let_def\<close>)
qed

lemma parseValue_accepted:
  assumes s: "accepted s (BeginValue, st)"
    and el: "\<And>r. accepted r (BeginValue, ArrayValue # st) \<Longrightarrow> length r < length s \<Longrightarrow> leaves (parseElements n r) r st"
    and mem: "\<And>r. accepted r (BeginString, ObjectKey # st) \<Longrightarrow> length r < length s \<Longrightarrow> leaves (parseMembers n r) r st"
  shows "leaves (parseValue (Suc n) s) s st"
proof -
  obtain c r where c: "skipSpace s = c # r" "\<not> jsonSpace (of_char c)" "length r < length s"
      and a: "accepted r (jBeginValue (of_char c) st)"
    by (rule accepted_first [OF s]) auto
  consider (str) "of_char c = (34 :: nat)" "accepted r (InString, st)"
    | (obj) "of_char c = (123 :: nat)" "accepted r (BeginStringOrEmpty, ObjectKey # st)"
    | (arr) "of_char c = (91 :: nat)" "accepted r (BeginValueOrEmpty, ArrayValue # st)"
    | (lit) k xs where "of_char c = (k :: nat)" "(k, xs) \<in> {(116, ''rue''), (102, ''alse''), (110, ''ull'')}" "accepted r (Literal xs, st)"
    | (num) q where "of_char c \<notin> {34 :: nat, 123, 91, 116, 102, 110}" "inNumber q" "accepted r (q, st)" "numChar c"
    using a c(2) by (auto simp: jBeginValue_def jpush_def inNumber_def numChar_def jdigit_def split: if_splits)
  then show ?thesis
  proof cases
    case str
    with scanString_accepted c show ?thesis by (force simp: leaves_def)
  next
    case obj
    obtain d r' where d: "skipSpace r = d # r'" "\<not> jsonSpace (of_char d)" "length r' < length r"
        and a: "accepted r' (jstep (of_char d) (BeginStringOrEmpty, ObjectKey # st))"
      by (rule accepted_first [OF obj(2)]) auto
    show ?thesis
    proof (cases "of_char d = (125 :: nat)")
      case True
      then have "accepted r' (EndValue, st)" using a by (simp add: jsonSpace_def jEndValue_def accepted_jpop)
      with True c d obj(1) show ?thesis by (simp add: leaves_def)
    next
      case False
      then have "accepted (d # r') (BeginString, ObjectKey # st)" using a d(2) by simp
      with mem [of "d # r'"] have "leaves (parseMembers n (d # r')) s st"
        using skipSpace_length [of r] c(3) d(1) by (auto intro: leaves_less)
      with False c(1) d(1) obj(1) show ?thesis by (simp add: leaves_map)
    qed
  next
    case arr
    obtain d r' where d: "skipSpace r = d # r'" "\<not> jsonSpace (of_char d)" "length r' < length r"
        and a: "accepted r' (jstep (of_char d) (BeginValueOrEmpty, ArrayValue # st))"
      by (rule accepted_first [OF arr(2)]) auto
    show ?thesis
    proof (cases "of_char d = (93 :: nat)")
      case True
      then have "accepted r' (EndValue, st)" using a by (simp add: jsonSpace_def jEndValue_def accepted_jpop)
      with True c d arr(1) show ?thesis by (simp add: leaves_def)
    next
      case False
      then have "accepted (d # r') (BeginValue, ArrayValue # st)" using a d(2) by simp
      with el [of "d # r'"] have "leaves (parseElements n (d # r')) s st"
        using skipSpace_length [of r] c(3) d(1) by (auto intro: leaves_less)
      with False c(1) d(1) arr(1) show ?thesis by (simp add: leaves_map)
    qed
  next
    case lit
    have "xs \<noteq> []" using lit(2) by auto
    with literal_accepted [OF lit(3)] obtain r' where r': "r = xs @ r'" "accepted r' (EndValue, st)" by blast
    with lit(1,2) c show ?thesis by (auto simp: leaves_def)
  next
    case num
    have "accepted (dropWhile numChar r) (EndValue, st)" using num(2,3) number_accepted by blast
    moreover have "length (dropWhile numChar r) < length s" using length_dropWhile_le [of numChar r] c(3) by simp
    ultimately show ?thesis using num(1,4) c(1) by (simp add: leaves_def)
  qed
qed

lemma parse_accepted:
  "(accepted s (BeginValue, st) \<longrightarrow> 2 * length s \<le> n \<longrightarrow> leaves (parseValue n s) s st) \<and>
   (accepted s (BeginValue, ArrayValue # st) \<longrightarrow> 2 * length s < n \<longrightarrow> leaves (parseElements n s) s st) \<and>
   (accepted s (BeginString, ObjectKey # st) \<longrightarrow> 2 * length s < n \<longrightarrow> leaves (parseMembers n s) s st)"
proof (induction n arbitrary: s st)
  case 0
  then show ?case using accepted_not_Nil by auto
next
  case (Suc n)
  have "leaves (parseValue (Suc n) s) s st" if "accepted s (BeginValue, st)" "2 * length s \<le> Suc n"
    using that Suc by (intro parseValue_accepted) auto
  moreover have "leaves (parseElements (Suc n) s) s st" if "accepted s (BeginValue, ArrayValue # st)" "2 * length s < Suc n"
    using that Suc by (intro parseElements_accepted) auto
  moreover have "leaves (parseMembers (Suc n) s) s st" if "accepted s (BeginString, ObjectKey # st)" "2 * length s < Suc n"
    using that Suc by (intro parseMembers_accepted) auto
  ultimately show ?case by blast
qed

theorem parseJson_valid: "json_Valid b \<longleftrightarrow> parseJson b \<noteq> None"
  using parse_accepted [of "string_of b" "[]" "2 * length b + 2"] json_Valid_scan [of "string_of b"]
  by (auto simp: parseJson_def leaves_def)

subsection \<open>String literals\<close>

text \<open>
  A piece of a literal that the scanner takes without leaving the string, and that the reader
  takes as it is.
\<close>

definition strPiece :: "string \<Rightarrow> bool" where
  "strPiece t \<longleftrightarrow> (\<forall>st. scan t (InString, st) = (InString, st)) \<and>
     (\<forall>r. scanString (t @ r) = map_option (\<lambda>(u, r). (t @ u, r)) (scanString r))"

lemma strPiece_append: "strPiece s \<Longrightarrow> strPiece t \<Longrightarrow> strPiece (s @ t)"
  unfolding strPiece_def scan_simps append_assoc
  by (simp add: option.map_comp comp_def split_def)

lemma strPiece_Nil [simp]: "strPiece []"
  by (simp add: strPiece_def option.map_ident_strong split: prod.splits)

lemma strPiece_char: "32 \<le> (of_char c :: nat) \<Longrightarrow> (of_char c :: nat) \<notin> {34, 92} \<Longrightarrow> strPiece [c]"
  by (simp add: strPiece_def)

lemma strPiece_chars:
  "(\<And>c. c \<in> set t \<Longrightarrow> 32 \<le> (of_char c :: nat) \<and> of_char c \<notin> {34 :: nat, 92}) \<Longrightarrow> strPiece t"
proof (induction t)
  case (Cons c t)
  then have "strPiece [c]" "strPiece t" using strPiece_char by auto
  from strPiece_append [OF this] show ?case by simp
qed simp

lemma strPiece_escape:
  "of_char d \<in> {98 :: nat, 102, 110, 114, 116, 92, 47, 34} \<Longrightarrow> strPiece [CHR 0x5C, d]"
  by (auto simp: strPiece_def)

lemma jhex_plain: "jhex n \<Longrightarrow> n \<noteq> 34 \<and> n \<noteq> 92"
  by (auto simp: jhex_def jdigit_def)

lemma strPiece_unicode:
  assumes "list_all (\<lambda>c. jhex (of_char c)) [a, b, c, d]"
  shows "strPiece [CHR 0x5C, CHR ''u'', a, b, c, d]"
proof -
  have h: "jhex (of_char a)" "jhex (of_char b)" "jhex (of_char c)" "jhex (of_char d)" using assms by simp_all
  then have "scan [CHR 0x5C, CHR ''u'', a, b, c, d] (InString, st) = (InString, st)" for st
    by simp
  moreover have "scanString ([CHR 0x5C, CHR ''u'', a, b, c, d] @ r) =
      map_option (\<lambda>(u, r). ([CHR 0x5C, CHR ''u'', a, b, c, d] @ u, r)) (scanString r)" for r
    using h [THEN jhex_plain] by (cases "scanString r") auto
  ultimately show ?thesis unfolding strPiece_def by blast
qed

lemma strPiece_literal:
  "strPiece t \<Longrightarrow> scanString (t @ CHR 0x22 # r) = Some (t, r)"
  "strPiece t \<Longrightarrow> scan (CHR 0x22 # t @ [CHR 0x22]) (BeginValue, st) = (EndValue, st)"
  "strPiece t \<Longrightarrow> scan (CHR 0x22 # t @ [CHR 0x22]) (BeginString, st) = (EndValue, st)"
  by (simp_all add: strPiece_def jBeginValue_def jBeginString_def jsonSpace_def)

text \<open>Plain ASCII text, that the encoder copies and the reader leaves alone.\<close>

definition plain :: "string \<Rightarrow> bool" where
  "plain t \<longleftrightarrow> list_all (\<lambda>c. 32 \<le> (of_char c :: nat) \<and> of_char c < (128 :: nat) \<and> of_char c \<notin> {34 :: nat, 92}) t"

lemma plain_simps [simp]:
  "plain []" "plain (s @ t) \<longleftrightarrow> plain s \<and> plain t"
  "plain (c # t) \<longleftrightarrow> 32 \<le> (of_char c :: nat) \<and> of_char c < (128 :: nat) \<and> of_char c \<noteq> (34 :: nat) \<and> of_char c \<noteq> (92 :: nat) \<and> plain t"
  by (auto simp: plain_def)

lemma strPiece_plain: "plain t \<Longrightarrow> strPiece t"
  by (rule strPiece_chars) (auto simp: plain_def list_all_iff)

lemma unquote_plain: "plain t \<Longrightarrow> unquote t = t"
  by (induction t) (simp_all add: unquote.simps(2))

lemma plain_dec [simp]: "plain (dec n)"
  using set_dec [of _ n] by (force simp: plain_def list_all_iff)

lemma plain_subset: "plain t \<Longrightarrow> set s \<subseteq> set t \<Longrightarrow> plain s"
  by (auto simp: plain_def list_all_iff)

lemma plain_pad0 [simp]: "plain s \<Longrightarrow> plain (pad0 w s)"
  by (auto simp: pad0_def plain_def list_all_iff)

lemma plain_json_time: "\<exists>t. plain t \<and> json_time x = CHR 0x22 # t @ [CHR 0x22]"
proof -
  have "plain (rev (dropWhile (\<lambda>c. c = CHR ''0'') (rev (pad0 9 (dec n)))))" for n
    by (rule plain_subset [of "pad0 9 (dec n)"]) (auto dest: set_dropWhileD)
  then have "plain (json_fraction n)" for n by (simp add: json_fraction_def)
  then show ?thesis
    by (intro exI [of _ "butlast (tl (json_time x))"]) (simp add: json_time_def butlast_append)
qed

subsection \<open>Escaping and reading strings\<close>

text \<open>A string that is valid UTF-8: what the encoder copies without loss.\<close>

function validUTF8 :: "string \<Rightarrow> bool" where
  "validUTF8 [] = True"
| "validUTF8 (c # s) =
     (if (of_char c :: nat) < 0x80 then validUTF8 s
      else utf8_size (c # s) \<noteq> 0 \<and> validUTF8 (drop (utf8_size (c # s) - 1) s))"
  by pat_completeness auto
termination
  by (relation "measure length") auto

lemma hval_hex_char [simp]: "n < 16 \<Longrightarrow> hval (hex_char n) = Some n"
proof -
  have "list_all (\<lambda>n. hval (hexdigits ! n) = Some n) [0..<16]"
    by (simp add: upt_rec hexdigits_def hval_def)
  then show "n < 16 \<Longrightarrow> hval (hex_char n) = Some n" by (simp add: list_all_iff hex_char_def)
qed

lemma jhex_hval: "hval c \<noteq> None \<longleftrightarrow> jhex (of_char c)"
  by (auto simp: hval_def jhex_def jdigit_def Let_def)

lemma getu4_simps [simp]:
  "of_char d \<noteq> (117 :: nat) \<Longrightarrow> getu4 (c # d # t) = None" "getu4 [c] = None"
  "getu4 (CHR 0x5C # CHR ''u'' # a # b # c # d # t) = digitsVal hval 16 0 [a, b, c, d]"
  by (simp_all add: getu4_def)

lemma unquote_escape:
  "of_char d \<noteq> (117 :: nat) \<Longrightarrow> unquote (CHR 0x5C # d # t) = escaped d # unquote t"
  by (simp add: unquote.simps(2))

lemma unquote_unicode:
  assumes "digitsVal hval 16 0 [a, b, c, d] = Some n" and "n < 0xD800 \<or> 0xE000 \<le> n"
  shows "unquote (CHR 0x5C # CHR ''u'' # a # b # c # d # t) = runeBytes n @ unquote t"
  unfolding unquote.simps(2) getu4_simps(3) assms(1) using assms(2) by auto

lemma strPiece_json_ascii:
  assumes "of_char c < (0x80 :: nat)"
  shows "strPiece (json_ascii c) \<and> unquote (json_ascii c @ t) = c # unquote t"
proof -
  let ?n = "of_char c :: nat"
  have c: "c = char_of ?n" by simp
  consider (self) "?n = 0x22 \<or> ?n = 0x5C" | (short) "?n \<in> {8, 12, 10, 13, 9}"
    | (hex) "?n \<notin> {8, 12, 10, 13, 9}" "?n < 0x20 \<or> ?n = 0x3C \<or> ?n = 0x3E \<or> ?n = 0x26"
    | (plain) "32 \<le> ?n" "?n \<notin> {0x22, 0x5C, 0x3C, 0x3E, 0x26}" by force
  then show ?thesis
  proof cases
    case self
    then have j: "json_ascii c = [CHR 0x5C, c]" by (simp add: json_ascii_def)
    from self have "strPiece [CHR 0x5C, c]" "of_char c \<noteq> (117 :: nat)" "escaped c = c"
      by (auto intro!: strPiece_escape simp: escaped_def)
    with j show ?thesis by (simp add: unquote_escape)
  next
    case short
    have e: "char_of k = c" if "?n = k" for k using that by auto
    from short obtain d where d: "json_ascii c = [CHR 0x5C, d]" "of_char d \<in> {98 :: nat, 102, 110, 114, 116}" "escaped d = char_of ?n"
      by (auto simp: json_ascii_def escaped_def e)
    then have "strPiece [CHR 0x5C, d]" "of_char d \<noteq> (117 :: nat)" by (auto intro!: strPiece_escape)
    with d(1,3) show ?thesis by (simp add: unquote_escape)
  next
    case hex
    then have j: "json_ascii c = [CHR 0x5C, CHR ''u'', CHR ''0'', CHR ''0'', hex_char (?n div 16), hex_char (?n mod 16)]"
      by (auto simp: json_ascii_def Let_def)
    have h: "hval (hex_char (?n div 16)) = Some (?n div 16)" "hval (hex_char (?n mod 16)) = Some (?n mod 16)"
      using assms by auto
    have "hval (CHR ''0'') = Some 0" by (simp add: hval_def)
    with h have v: "digitsVal hval 16 0 [CHR ''0'', CHR ''0'', hex_char (?n div 16), hex_char (?n mod 16)] = Some ?n"
      by simp
    have "strPiece (json_ascii c)" unfolding j
      using h jhex_hval [of "hex_char _"] by (intro strPiece_unicode) (simp add: jhex_hval [symmetric] hval_def)
    moreover have "runeBytes ?n = [c]" using assms by (simp add: runeBytes_def)
    ultimately show ?thesis using unquote_unicode [OF v, of t] assms by (simp add: j)
  next
    case plain
    then have "json_ascii c = [c]" by (simp add: json_ascii_def)
    with plain assms strPiece_char [of c] show ?thesis by (simp add: unquote.simps(2))
  qed
qed


definition utf8_tail :: "string \<Rightarrow> nat \<Rightarrow> nat \<Rightarrow> nat \<Rightarrow> bool" where
  "utf8_tail t k lo hi \<longleftrightarrow> k \<le> length t \<and> cont lo hi (t ! 0) \<and> list_all (cont 0x80 0xBF) (take (k - 1) (tl t))"

lemma utf8_tail_take: "0 < k \<Longrightarrow> utf8_tail t k lo hi \<Longrightarrow> utf8_tail (take k t @ r) k lo hi"
  by (cases t; cases k) (auto simp: utf8_tail_def)

lemma utf8_tail_high:
  assumes "utf8_tail t k lo hi" "0 < k" "0x80 \<le> lo"
  shows "k \<le> length t" and "\<forall>d \<in> set (take k t). (0x80 :: nat) \<le> of_char d"
  using assms by (cases t; cases k; auto simp: utf8_tail_def cont_def list_all_iff)+

text \<open>The first byte fixes the length and the range of the second byte.\<close>

lemma utf8_size_tail:
  assumes "(0x80 :: nat) \<le> of_char c"
  shows "(\<forall>t. utf8_size (c # t) = 0) \<or>
    (\<exists>k lo hi. k \<in> {1, 2, 3} \<and> 0x80 \<le> lo \<and> (\<forall>t. utf8_size (c # t) = (if utf8_tail t k lo hi then Suc k else 0)))"
proof -
  let ?n = "of_char c :: nat"
  have u: "\<And>t. utf8_size (c # t) =
      (if 0xC2 \<le> ?n \<and> ?n \<le> 0xDF \<and> utf8_tail t 1 0x80 0xBF then 2
       else if ?n = 0xE0 \<and> utf8_tail t 2 0xA0 0xBF then 3
       else if 0xE1 \<le> ?n \<and> ?n \<le> 0xEF \<and> ?n \<noteq> 0xED \<and> utf8_tail t 2 0x80 0xBF then 3
       else if ?n = 0xED \<and> utf8_tail t 2 0x80 0x9F then 3
       else if ?n = 0xF0 \<and> utf8_tail t 3 0x90 0xBF then 4
       else if 0xF1 \<le> ?n \<and> ?n \<le> 0xF3 \<and> utf8_tail t 3 0x80 0xBF then 4
       else if ?n = 0xF4 \<and> utf8_tail t 3 0x80 0x8F then 4
       else 0)"
    using assms by (simp add: utf8_size_def utf8_tail_def Let_def)
  have w: ?thesis if "k \<in> {1, 2, 3}" "0x80 \<le> lo" "\<And>t. utf8_size (c # t) = (if utf8_tail t k lo hi then Suc k else 0)" for k lo hi
    using that by blast
  consider "0xC2 \<le> ?n \<and> ?n \<le> 0xDF" | "?n = 0xE0" | "0xE1 \<le> ?n \<and> ?n \<le> 0xEF \<and> ?n \<noteq> 0xED" | "?n = 0xED" | "?n = 0xF0"
    | "0xF1 \<le> ?n \<and> ?n \<le> 0xF3" | "?n = 0xF4" | "?n < 0xC2 \<or> 0xF4 < ?n" by linarith
  then show ?thesis
  proof cases
    case 1 show ?thesis by (rule w [of 1 "0x80" "0xBF"]) (use 1 in \<open>simp_all add: u\<close>)
  next
    case 2 show ?thesis by (rule w [of 2 "0xA0" "0xBF"]) (use 2 in \<open>simp_all add: u\<close>)
  next
    case 3 show ?thesis by (rule w [of 2 "0x80" "0xBF"]) (use 3 in \<open>simp_all add: u\<close>)
  next
    case 4 show ?thesis by (rule w [of 2 "0x80" "0x9F"]) (use 4 in \<open>simp_all add: u\<close>)
  next
    case 5 show ?thesis by (rule w [of 3 "0x90" "0xBF"]) (use 5 in \<open>simp_all add: u\<close>)
  next
    case 6 show ?thesis by (rule w [of 3 "0x80" "0xBF"]) (use 6 in \<open>simp_all add: u\<close>)
  next
    case 7 show ?thesis by (rule w [of 3 "0x80" "0x8F"]) (use 7 in \<open>simp_all add: u\<close>)
  next
    case 8 then show ?thesis by (intro disjI1 allI) (simp add: u, linarith)
  qed
qed

lemma utf8_size_cases:
  assumes "utf8_size (c # t) \<noteq> 0" and "(0x80 :: nat) \<le> of_char c"
  obtains k where "utf8_size (c # t) = Suc k" "k \<in> {1, 2, 3}" "k \<le> length t"
    "\<forall>d \<in> set (take k t). (0x80 :: nat) \<le> of_char d" "\<And>r. utf8_size (c # take k t @ r) = Suc k"
proof -
  obtain k lo hi where k: "k \<in> {1, 2, 3}" "0x80 \<le> lo" "\<And>t. utf8_size (c # t) = (if utf8_tail t k lo hi then Suc k else 0)"
    using utf8_size_tail [OF assms(2)] assms(1) by (elim disjE exE conjE) simp_all
  then have t: "utf8_tail t k lo hi" "0 < k" using assms(1) by (auto split: if_splits)
  note utf8_tail_high [OF t k(2)]
  moreover have "utf8_size (c # take k t @ r) = Suc k" for r using k(3) utf8_tail_take [OF t(2,1)] by simp
  ultimately show thesis using that [of k] k(1,3) t(1) by simp
qed

lemma unquote_high:
  assumes "utf8_size (c # s) = Suc k" "(0x80 :: nat) \<le> of_char c" "k \<le> length s" "\<And>r. utf8_size (c # take k s @ r) = Suc k"
  shows "unquote (c # take k s @ t) = c # take k s @ unquote t"
  using assms by (simp add: unquote.simps(2) Let_def)

text \<open>The line and paragraph separators, which the encoder escapes.\<close>

lemma utf8_size_separator [simp]:
  "utf8_size (CHR 0xE2 # CHR 0x80 # CHR 0xA8 # s) = 3" "utf8_size (CHR 0xE2 # CHR 0x80 # CHR 0xA9 # s) = 3"
  by (simp_all add: utf8_size_def cont_def)

lemma unquote_separator:
  "unquote (CHR 0x5C # ''u2028'' @ r) = CHR 0xE2 # CHR 0x80 # CHR 0xA8 # unquote r"
  "unquote (CHR 0x5C # ''u2029'' @ r) = CHR 0xE2 # CHR 0x80 # CHR 0xA9 # unquote r"
  using unquote_unicode [of "CHR ''2''" "CHR ''0''" "CHR ''2''" "CHR ''8''" "0x2028"]
    unquote_unicode [of "CHR ''2''" "CHR ''0''" "CHR ''2''" "CHR ''9''" "0x2029"]
  by (simp_all add: hval_def runeBytes_def char_of_def bit_0)

lemma json_chars_high:
  assumes "\<not> of_char c < (0x80 :: nat)"
  shows "\<exists>p k. json_chars (c # s) = p @ json_chars (drop k s) \<and> strPiece p \<and>
    (utf8_size (c # s) \<noteq> 0 \<longrightarrow> k = utf8_size (c # s) - 1 \<and> (\<forall>t. unquote (p @ t) = c # take k s @ unquote t))"
proof -
  let ?A = "take 3 (c # s) = [CHR 0xE2, CHR 0x80, CHR 0xA8]" and ?B = "take 3 (c # s) = [CHR 0xE2, CHR 0x80, CHR 0xA9]"
  have w: ?thesis if "json_chars (c # s) = p @ json_chars (drop k s)" "strPiece p"
    "utf8_size (c # s) \<noteq> 0 \<longrightarrow> k = utf8_size (c # s) - 1 \<and> (\<forall>t. unquote (p @ t) = c # take k s @ unquote t)" for p k
    using that by blast
  have u: "strPiece (CHR 0x5C # ''ufffd'')" "strPiece (CHR 0x5C # ''u2028'')" "strPiece (CHR 0x5C # ''u2029'')"
    using strPiece_unicode by (simp_all add: jhex_def jdigit_def)
  consider (bad) "utf8_size (c # s) = 0" | (A) ?A "utf8_size (c # s) \<noteq> 0" | (B) ?B "utf8_size (c # s) \<noteq> 0" "\<not> ?A"
    | (C) "\<not> ?A" "\<not> ?B" "utf8_size (c # s) \<noteq> 0" by blast
  then show ?thesis
  proof cases
    case bad
    with assms u(1) show ?thesis by (intro w [of "CHR 0x5C # ''ufffd''" 0]) (simp_all add: Let_def)
  next
    case A
    then obtain r where s: "c = CHR 0xE2" "s = CHR 0x80 # CHR 0xA8 # r"
      by (cases s; cases "tl s") auto
    have "utf8_size (c # s) = 3" by (simp add: s)
    with assms u(2) A(1) unquote_separator(1) show ?thesis
      by (intro w [of "CHR 0x5C # ''u2028''" 2]) (simp_all add: Let_def s)
  next
    case B
    then obtain r where s: "c = CHR 0xE2" "s = CHR 0x80 # CHR 0xA9 # r"
      by (cases s; cases "tl s") auto
    have "utf8_size (c # s) = 3" by (simp add: s)
    with assms u(3) B(1) unquote_separator(2) show ?thesis
      by (intro w [of "CHR 0x5C # ''u2029''" 2]) (simp_all add: Let_def s)
  next
    case C
    from assms have c: "(0x80 :: nat) \<le> of_char c" by simp
    obtain k where k: "utf8_size (c # s) = Suc k" "k \<le> length s" "\<And>r. utf8_size (c # take k s @ r) = Suc k"
        and hi: "\<forall>d \<in> set (take k s). (0x80 :: nat) \<le> of_char d"
      using utf8_size_cases [OF C(3) c] by metis
    have h: "32 \<le> x \<and> x \<notin> {34, 92}" if "0x80 \<le> x" for x :: nat using that by auto
    have "strPiece (c # take k s)" using c hi by (intro strPiece_chars) (auto intro: h)
    with C assms k(1) unquote_high [OF k(1) c k(2,3)] show ?thesis
      by (intro w [of "c # take k s" k]) (simp_all add: Let_def)
  qed
qed

lemma json_chars_read:
  "strPiece (json_chars s) \<and> (validUTF8 s \<longrightarrow> (\<forall>t. unquote (json_chars s @ t) = s @ unquote t))"
proof (induction s rule: length_induct)
  case (1 s)
  show ?case
  proof (cases s)
    case (Cons c r)
    show ?thesis
    proof (cases "of_char c < (0x80 :: nat)")
      case True
      with 1 Cons strPiece_json_ascii [OF True] show ?thesis by (simp add: strPiece_append)
    next
      case False
      obtain p k where p: "json_chars (c # r) = p @ json_chars (drop k r)" "strPiece p"
          "utf8_size (c # r) \<noteq> 0 \<longrightarrow> k = utf8_size (c # r) - 1 \<and> (\<forall>t. unquote (p @ t) = c # take k r @ unquote t)"
        using json_chars_high [OF False] by blast
      have IH: "strPiece (json_chars (drop k r)) \<and> (validUTF8 (drop k r) \<longrightarrow> (\<forall>t. unquote (json_chars (drop k r) @ t) = drop k r @ unquote t))"
        using 1 Cons by simp
      have rest: "take k r @ drop k r @ u = r @ u" for u by (simp flip: append_assoc)
      have "unquote (json_chars s @ t) = s @ unquote t" if "validUTF8 s" for t
      proof -
        have "utf8_size (c # r) \<noteq> 0" "validUTF8 (drop k r)" using that False p(3) by (auto simp: Cons)
        with p(1,3) IH rest show ?thesis by (simp add: Cons del: json_chars.simps)
      qed
      with p(1,2) IH show ?thesis by (simp add: Cons strPiece_append del: json_chars.simps)
    qed
  qed simp
qed

lemmas strPiece_json_chars = json_chars_read [THEN conjunct1]

lemma unquote_json_chars: "validUTF8 s \<Longrightarrow> unquote (json_chars s) = s"
  using json_chars_read [of s] by (metis append_Nil2 unquote.simps(1))

lemma json_chars_bad:
  assumes "\<not> of_char c < (0x80 :: nat)" and "utf8_size (c # s) = 0"
  shows "json_chars (c # s) = CHR 0x5C # ''ufffd'' @ json_chars s"
    and "unquote (CHR 0x5C # ''ufffd'' @ t) = CHR 0xEF # CHR 0xBF # CHR 0xBD # unquote t"
  using assms unquote_unicode [of "CHR ''f''" "CHR ''f''" "CHR ''f''" "CHR ''d''" "0xFFFD" t]
  by (simp_all add: hval_def runeBytes_def char_of_def bit_0 Let_def)

lemma validUTF8_high:
  assumes "utf8_size (c # s) \<noteq> 0" "(0x80 :: nat) \<le> of_char c" "validUTF8 r"
  shows "validUTF8 (c # take (utf8_size (c # s) - 1) s @ r)"
proof -
  obtain k where "utf8_size (c # s) = Suc k" "k \<le> length s" "\<And>r. utf8_size (c # take k s @ r) = Suc k"
    using utf8_size_cases [OF assms(1,2)] by metis
  with assms(2,3) show ?thesis by simp
qed

text \<open>What is read for any string is valid: the invalid bytes have become U+FFFD.\<close>

lemma validUTF8_read: "validUTF8 (unquote (json_chars s))"
proof (induction s rule: length_induct)
  case (1 s)
  show ?case
  proof (cases s)
    case (Cons c r)
    show ?thesis
    proof (cases "of_char c < (0x80 :: nat)")
      case True
      with 1 Cons strPiece_json_ascii [OF True] show ?thesis by simp
    next
      case False
      then have c: "(0x80 :: nat) \<le> of_char c" by simp
      show ?thesis
      proof (cases "utf8_size (c # r) = 0")
        case True
        have "utf8_size (CHR 0xEF # CHR 0xBF # CHR 0xBD # t) = 3" for t by (simp add: utf8_size_def cont_def)
        moreover have "validUTF8 (unquote (json_chars r))" using 1 Cons by simp
        ultimately show ?thesis using json_chars_bad [OF False True] by (simp add: Cons del: json_chars.simps)
      next
        case nz: False
        obtain p where p: "json_chars (c # r) = p @ json_chars (drop (utf8_size (c # r) - 1) r)"
            "\<And>t. unquote (p @ t) = c # take (utf8_size (c # r) - 1) r @ unquote t"
          using json_chars_high [OF False, of r] nz by metis
        have "validUTF8 (unquote (json_chars (drop (utf8_size (c # r) - 1) r)))" using 1 Cons by simp
        from validUTF8_high [OF nz c this] show ?thesis by (simp add: Cons p del: json_chars.simps validUTF8.simps)
      qed
    qed
  qed simp
qed

lemma validUTF8_plain: "plain s \<Longrightarrow> validUTF8 s"
  by (induction s) simp_all

lemma plain_EncodeToString: "plain (EncodeToString b)"
proof (induction b)
  case (Cons x b)
  have h: "plain [hex_char n]" if "n < 16" for n
  proof -
    have "jhex (of_char (hex_char n))" using jhex_hval [of "hex_char n"] that by simp
    then show ?thesis by (auto simp: jhex_def jdigit_def)
  qed
  have "unat x < 256" using unsigned_less [of x] by simp
  with Cons h [of "unat x div 16"] h [of "unat x mod 16"] show ?case by simp
qed simp

subsection \<open>Byte slices\<close>

lemma b64value_b64char [simp]: "b64value (b64char n) = Some (n mod 64)"
proof -
  have "list_all (\<lambda>k. b64value (b64alphabet ! k) = Some k) [0..<64]"
    by (simp add: upt_rec b64alphabet_def b64value_def)
  then show ?thesis by (simp add: list_all_iff b64char_def)
qed

lemma b64char_plain: "plain [b64char n]" "of_char (b64char n) \<noteq> (61 :: nat)"
proof -
  have "b64value (b64char n) \<noteq> None" by simp
  then show "plain [b64char n]" "of_char (b64char n) \<noteq> (61 :: nat)"
    by (auto simp: b64value_def Let_def split: if_splits)
qed

lemma plain_base64 [simp]: "plain (base64 b)"
  by (induction b rule: base64.induct) (use b64char_plain(1) in \<open>simp_all add: Let_def\<close>)

text \<open>Three bytes as four digits of base 64.\<close>

lemma digit_div_mod:
  fixes q d k :: nat
  assumes "d < k"
  shows "(q * k + d) div k = q" and "(q * k + d) mod k = d"
  using assms by auto

lemma sextet_digits:
  fixes x y z w :: nat
  assumes "x < 64" "y < 64" "z < 64" "w < 64" and n: "n = x * 262144 + y * 4096 + z * 64 + w"
  shows "n div 262144 mod 64 = x" "n div 4096 mod 64 = y" "n div 64 mod 64 = z" "n mod 64 = w"
proof -
  have "n div 262144 = x" using assms by (intro div_nat_eqI) auto
  then show "n div 262144 mod 64 = x" using assms(1) by simp
  have "n div 4096 = x * 64 + y" using assms by (intro div_nat_eqI) auto
  then show "n div 4096 mod 64 = y" using digit_div_mod(2) [OF assms(2)] by simp
  have "n div 64 = (x * 64 + y) * 64 + z" using assms by (intro div_nat_eqI) auto
  then show "n div 64 mod 64 = z" by (simp only: digit_div_mod(2) [OF assms(3)])
  have "n = (x * 4096 + y * 64 + z) * 64 + w" by (simp add: n)
  then show "n mod 64 = w" by (simp only: digit_div_mod(2) [OF assms(4)])
qed

lemma split_digit:
  fixes n k :: nat
  assumes "0 < k"
  obtains q d where "n = q * k + d" "d < k" "n div k = q" "n mod k = d"
  using that [of "n div k" "n mod k"] assms by simp

lemma sextets:
  fixes a b c :: nat
  assumes "a < 256" "b < 256" "c < 256"
  defines "n \<equiv> a * 65536 + b * 256 + c"
  shows "n div 262144 mod 64 = a div 4" "n div 4096 mod 64 = a mod 4 * 16 + b div 16"
    "n div 64 mod 64 = b mod 16 * 4 + c div 64" "n mod 64 = c mod 64"
proof -
  obtain a1 a0 where a: "a = a1 * 4 + a0" "a0 < 4" "a div 4 = a1" "a mod 4 = a0" by (rule split_digit [of 4 a]) auto
  obtain b1 b0 where b: "b = b1 * 16 + b0" "b0 < 16" "b div 16 = b1" "b mod 16 = b0" by (rule split_digit [of 16 b]) auto
  obtain c1 c0 where c: "c = c1 * 64 + c0" "c0 < 64" "c div 64 = c1" "c mod 64 = c0" by (rule split_digit [of 64 c]) auto
  have "n = a1 * 262144 + (a0 * 16 + b1) * 4096 + (b0 * 4 + c1) * 64 + c0" by (simp add: n_def a(1) b(1) c(1))
  moreover have "a1 < 64" "a0 * 16 + b1 < 64" "b0 * 4 + c1 < 64" "c0 < 64" using a(1,2) b(1,2) c(1,2) assms(1-3) by linarith+
  ultimately show "n div 262144 mod 64 = a div 4" "n div 4096 mod 64 = a mod 4 * 16 + b div 16"
    "n div 64 mod 64 = b mod 16 * 4 + c div 64" "n mod 64 = c mod 64"
    using sextet_digits [of a1 "a0 * 16 + b1" "b0 * 4 + c1" c0 n] unfolding a(3,4) b(3,4) c(3,4) by simp_all
qed

text \<open>The bytes that the reader makes of them.\<close>

lemma sextet_bytes:
  fixes a b c :: byte
  shows "of_nat (4 * (unat a div 4) + (unat a mod 4 * 16 + unat b div 16) div 16) = a"
    and "of_nat (16 * ((unat a mod 4 * 16 + unat b div 16) mod 16) + (unat b mod 16 * 4 + unat c div 64) div 4) = b"
    and "of_nat (64 * ((unat b mod 16 * 4 + unat c div 64) mod 4) + unat c mod 64) = c"
proof -
  have u: "unat b < 256" "unat c < 256" using unsigned_less [of b] unsigned_less [of c] by simp_all
  then have d: "unat b div 16 < 16" "unat c div 64 < 4" by simp_all
  have e: "4 * (k div 4) + k mod 4 = k" "16 * (k div 16) + k mod 16 = k" "64 * (k div 64) + k mod 64 = k" for k :: nat
    by simp_all
  show "of_nat (4 * (unat a div 4) + (unat a mod 4 * 16 + unat b div 16) div 16) = a"
    "of_nat (16 * ((unat a mod 4 * 16 + unat b div 16) mod 16) + (unat b mod 16 * 4 + unat c div 64) div 4) = b"
    "of_nat (64 * ((unat b mod 16 * 4 + unat c div 64) mod 4) + unat c mod 64) = c"
    by (simp_all only: digit_div_mod [OF d(1)] digit_div_mod [OF d(2)] e) simp_all
qed

text \<open>The digits of one and of two bytes are those of three, the rest zero.\<close>

lemma sextets_short:
  fixes a b :: nat
  assumes "a < 256" "b < 256"
  shows "a * 16 div 64 mod 64 = a div 4" "a * 16 mod 64 = a mod 4 * 16"
    and "(a * 1024 + b * 4) div 4096 mod 64 = a div 4" "(a * 1024 + b * 4) div 64 mod 64 = a mod 4 * 16 + b div 16"
      "(a * 1024 + b * 4) mod 64 = b mod 16 * 4"
proof -
  have m: "k * 64 div 262144 = k div 4096" "k * 64 div 4096 = k div 64" "k * 64 div 64 = k"
    "k * 4096 div 262144 = k div 64" "k * 4096 div 4096 = k" for k :: nat
    by (simp_all add: div_mult_mult2 [of 64 _ 4096, simplified] div_mult_mult2 [of 64 _ 64, simplified] div_mult_mult2 [of 4096 _ 64, simplified])
  show "a * 16 div 64 mod 64 = a div 4" "a * 16 mod 64 = a mod 4 * 16"
    using sextets [OF assms(1), of 0 0] m(4,5) [of "a * 16"] by (simp_all add: mult.assoc mult.commute [of 16])
  have e: "a * 65536 + b * 256 + 0 = (a * 1024 + b * 4) * 64" by simp
  show "(a * 1024 + b * 4) div 4096 mod 64 = a div 4" "(a * 1024 + b * 4) div 64 mod 64 = a mod 4 * 16 + b div 16"
      "(a * 1024 + b * 4) mod 64 = b mod 16 * 4"
    using sextets [OF assms, of 0, unfolded e m(1-3)] by simp_all
qed

lemma b64quads_base64: "b64quads (base64 b) = Some b"
proof (induction b rule: base64.induct)
  case (2 a)
  have u: "unat a < 256" using unsigned_less [of a] by simp
  show ?case
    unfolding base64.simps Let_def b64quads.simps b64value_b64char option.case prod.case sextets_short(1,2) [OF u u]
    using sextet_bytes(1) [of a 0] by simp
next
  case (3 a b)
  have u: "unat a < 256" "unat b < 256" using unsigned_less [of a] unsigned_less [of b] by simp_all
  show ?case
    unfolding base64.simps Let_def b64quads.simps b64value_b64char option.case prod.case sextets_short(3-5) [OF u]
    using sextet_bytes(1) [of a b] sextet_bytes(2) [of a b 0] b64char_plain(2) by simp
next
  case (4 a b c r)
  have u: "unat a < 256" "unat b < 256" "unat c < 256"
    using unsigned_less [of a] unsigned_less [of b] unsigned_less [of c] by simp_all
  have "b64quads (base64 (a # b # c # r)) = map_option (\<lambda>bs. a # b # c # bs) (b64quads (base64 r))"
    unfolding base64.simps Let_def append_Cons append_Nil b64quads.simps b64value_b64char sextets [OF u] option.case prod.case sextet_bytes
    using b64char_plain(2) by simp
  with 4 show ?case by simp
qed simp


lemma base64Decode_base64: "base64Decode (base64 b) = Some b"
proof -
  have "filter (\<lambda>c. of_char c \<noteq> (10 :: nat) \<and> of_char c \<noteq> (13 :: nat)) (base64 b) = base64 b"
    using plain_base64 [of b] by (auto simp: filter_id_conv plain_def list_all_iff)
  then show ?thesis by (simp add: base64Decode_def b64quads_base64)
qed

subsection \<open>Texts of values\<close>

text \<open>
  A text that the scanner takes for one value with at most \<open>d\<close> levels of nesting, and that the
  parser reads as the value \<open>v\<close> whatever comes behind it.
\<close>

definition ended :: "jscan \<Rightarrow> jparse list \<Rightarrow> bool" where
  "ended q st \<longleftrightarrow> (\<forall>c. \<not> numChar c \<longrightarrow> jstep (of_char c) (q, st) = jEndValue (of_char c) st)"

definition closes :: "string \<Rightarrow> bool" where
  "closes r \<longleftrightarrow> (case r of [] \<Rightarrow> True | c # _ \<Rightarrow> \<not> numChar c)"

definition takes :: "nat \<Rightarrow> string \<Rightarrow> bool" where
  "takes d s \<longleftrightarrow> (\<forall>st. length st + d \<le> 10000 \<longrightarrow> (\<exists>q. scan s (BeginValue, st) = (q, st) \<and> ended q st))"

definition reads :: "nat \<Rightarrow> json \<Rightarrow> string \<Rightarrow> bool" where
  "reads d v s \<longleftrightarrow> s \<noteq> [] \<and> \<not> jsonSpace (of_char (hd s)) \<and> of_char (hd s) \<noteq> (93 :: nat) \<and> takes d s \<and>
     (\<forall>n r. 2 * length s \<le> n \<longrightarrow> closes r \<longrightarrow> parseValue n (s @ r) = Some (v, r))"

lemma closes_simps [simp]: "closes []" "closes (c # r) \<longleftrightarrow> \<not> numChar c"
  by (simp_all add: closes_def)

lemma ended_EndValue [simp]: "ended EndValue st"
  by (simp add: ended_def)

lemma ended_EndTop [simp]: "ended EndTop []"
  by (simp add: ended_def jEndValue_def)

lemma ended_jpop: "\<exists>q. jpop (p # st) = (q, st) \<and> ended q st"
  by (cases "st = []") (simp_all add: jpop_def)

lemma ended_number: "q \<in> {Num0, Num1} \<Longrightarrow> ended q st"
  by (auto simp: ended_def numChar_def jdigit_def jNum0_def)

lemma reads_null: "reads d JNull ''null''"
proof -
  have "parseValue n (''null'' @ r) = Some (JNull, r)" if "8 \<le> n" for n r
    using that by (cases n) (simp_all add: jsonSpace_def Let_def)
  moreover have "takes d ''null''" by (simp add: takes_def jBeginValue_def jsonSpace_def)
  ultimately show ?thesis by (simp add: reads_def jsonSpace_def)
qed

lemma reads_true: "reads d (JBool True) ''true''"
proof -
  have "parseValue n (''true'' @ r) = Some (JBool True, r)" if "8 \<le> n" for n r
    using that by (cases n) (simp_all add: jsonSpace_def Let_def)
  moreover have "takes d ''true''" by (simp add: takes_def jBeginValue_def jsonSpace_def)
  ultimately show ?thesis by (simp add: reads_def jsonSpace_def)
qed

lemma reads_string:
  assumes "strPiece t"
  shows "reads d (JStr (unquote t)) (CHR 0x22 # t @ [CHR 0x22])"
proof -
  have "parseValue n ((CHR 0x22 # t @ [CHR 0x22]) @ r) = Some (JStr (unquote t), r)" if "0 < n" for n r
    using that strPiece_literal(1) [OF assms] by (cases n) (simp_all add: jsonSpace_def Let_def)
  moreover have "takes d (CHR 0x22 # t @ [CHR 0x22])"
    using strPiece_literal(2) [OF assms] unfolding takes_def by (metis ended_EndValue)
  ultimately show ?thesis by (simp add: reads_def jsonSpace_def)
qed

lemma dec_digits:
  obtains c t where "dec n = c # t" "list_all (\<lambda>c. jdigit (of_char c)) (c # t)" "0 < n \<longrightarrow> of_char c \<noteq> (48 :: nat)"
proof -
  have "\<exists>c t. dec n = c # t \<and> list_all (\<lambda>c. jdigit (of_char c)) (c # t) \<and> (0 < n \<longrightarrow> of_char c \<noteq> (48 :: nat))"
  proof (induction n rule: dec.induct)
    case (1 n)
    have d: "jdigit (of_char (dchar (n mod 10)))" by (simp add: dchar_digit jdigit_def)
    show ?case
    proof (cases "n < 10")
      case True
      then show ?thesis by (subst dec.simps) (simp add: dchar_digit jdigit_def)
    next
      case False
      with 1 obtain c t where "dec (n div 10) = c # t" "list_all (\<lambda>c. jdigit (of_char c)) (c # t)" "of_char c \<noteq> (48 :: nat)"
        by auto
      with False d show ?thesis by (subst dec.simps) simp
    qed
  qed
  with that show thesis by blast
qed

lemma scan_digits: "list_all (\<lambda>c. jdigit (of_char c)) t \<Longrightarrow> scan t (Num1, st) = (Num1, st)"
  by (induction t) simp_all

lemma reads_number:
  assumes "0 < n"
  shows "reads d (JNum (dec n)) (dec n)"
proof -
  obtain c t where t: "dec n = c # t" "list_all (\<lambda>c. jdigit (of_char c)) (c # t)" "of_char c \<noteq> (48 :: nat)"
    using dec_digits [of n] assms by auto
  then have c: "49 \<le> (of_char c :: nat)" "(of_char c :: nat) \<le> 57" by (auto simp: jdigit_def)
  have num: "\<forall>c \<in> set (c # t). numChar c" using t(2) by (auto simp: list_all_iff numChar_def)
  have "scan (c # t) (BeginValue, st) = (Num1, st)" for st
    using c scan_digits t(2) by (simp add: jBeginValue_def jsonSpace_def)
  then have "takes d (dec n)" unfolding takes_def t(1) using ended_number by blast
  moreover have "parseValue k (dec n @ r) = Some (JNum (dec n), r)" if "0 < k" "closes r" for k r
  proof -
    have "takeWhile numChar (c # t @ r) = c # t" "dropWhile numChar (c # t @ r) = r"
      using num that(2) by (simp_all add: takeWhile_append dropWhile_append closes_def split: list.splits)
    with c that(1) show ?thesis by (cases k) (auto simp: t(1) Let_def jsonSpace_def)
  qed
  ultimately show ?thesis using c t(1) by (simp add: reads_def jsonSpace_def)
qed

lemma ended_step: "ended q st \<Longrightarrow> \<not> numChar c \<Longrightarrow> jstep (of_char c) (q, st) = jEndValue (of_char c) st"
  by (simp add: ended_def)

lemma takesE:
  assumes "takes d s" and "length st + d \<le> 10000"
  obtains q where "scan s (BeginValue, st) = (q, st)" "ended q st"
  using assms by (auto simp: takes_def)

subsection \<open>White space\<close>

abbreviation spaces :: "string \<Rightarrow> bool" where
  "spaces \<equiv> list_all (\<lambda>c. jsonSpace (of_char c))"

lemma skipSpace_spaces [simp]: "spaces w \<Longrightarrow> skipSpace (w @ s) = skipSpace s"
  by (induction w) simp_all

lemma skipSpace_append: "skipSpace s \<noteq> [] \<Longrightarrow> skipSpace (s @ r) = skipSpace s @ r"
  by (induction s) auto

lemma skipSpace_skipSpace [simp]: "skipSpace (skipSpace s) = skipSpace s"
  by (simp add: skipSpace_def)

lemma skipSpace_split: "\<exists>w. spaces w \<and> s = w @ skipSpace s"
  by (metis skipSpace_def takeWhile_dropWhile_id list_all_iff set_takeWhileD)

lemma scan_spaces:
  assumes "spaces w" and "q \<in> {BeginValue, BeginValueOrEmpty, BeginString, BeginStringOrEmpty} \<or> q = EndValue \<and> st \<noteq> []"
  shows "scan w (q, st) = (q, st)"
  using assms by (induction w) (auto simp: jBeginValue_def jBeginString_def jEndValue_def split: list.splits)

lemma scan_skipSpace:
  assumes "q \<in> {BeginValue, BeginValueOrEmpty, BeginString, BeginStringOrEmpty} \<or> q = EndValue \<and> st \<noteq> []"
  shows "scan s (q, st) = scan (skipSpace s) (q, st)"
  using skipSpace_split [of s] scan_spaces [OF _ assms] by (metis scan_simps(3))

lemma parseValue_skipSpace: "parseValue n (skipSpace s) = parseValue n s"
  by (cases n) simp_all

lemma spaces_closes: "spaces w \<Longrightarrow> closes r \<Longrightarrow> closes (w @ r)"
  by (cases w) (auto simp: numChar_def jsonSpace_def jdigit_def)

text \<open>A value with white space before it.\<close>

definition greads :: "nat \<Rightarrow> json \<Rightarrow> string \<Rightarrow> bool" where
  "greads d v s \<longleftrightarrow> (\<exists>w t. spaces w \<and> s = w @ t \<and> reads d v t)"

lemma greadsI: "spaces w \<Longrightarrow> reads d v t \<Longrightarrow> greads d v (w @ t)"
  by (auto simp: greads_def)

lemma reads_greads: "reads d v s \<Longrightarrow> greads d v s"
  using greadsI [of "[]"] by simp

lemma greadsD:
  assumes "greads d v s"
  shows "takes d s" and "\<exists>c t. skipSpace s = c # t \<and> of_char c \<noteq> (93 :: nat)"
    and "2 * length s \<le> n \<Longrightarrow> closes r \<Longrightarrow> parseValue n (s @ r) = Some (v, r)"
proof -
  obtain w t where s: "spaces w" "s = w @ t" "reads d v t" using assms by (auto simp: greads_def)
  then obtain c u where t: "t = c # u" "\<not> jsonSpace (of_char c)" "of_char c \<noteq> (93 :: nat)" by (cases t) (auto simp: reads_def)
  with s show "\<exists>c t. skipSpace s = c # t \<and> of_char c \<noteq> (93 :: nat)" by simp
  have "scan s (BeginValue, st) = scan t (BeginValue, st)" for st
    using scan_spaces [OF s(1), of BeginValue st] by (simp add: s(2))
  with s(3) show "takes d s" by (simp add: takes_def reads_def)
  show "parseValue n (s @ r) = Some (v, r)" if "2 * length s \<le> n" "closes r"
  proof -
    have "parseValue n (t @ r) = Some (v, r)" using s(2,3) that by (simp add: reads_def)
    moreover have "skipSpace (s @ r) = skipSpace (t @ r)" using s(1,2) by simp
    ultimately show ?thesis by (metis parseValue_skipSpace)
  qed
qed

lemma greads_skipSpace: "greads d v s \<Longrightarrow> skipSpace s \<noteq> []"
  using greadsD(2) by force

lemma ended_spaces:
  assumes "ended q (p # st)" and "spaces w" and "\<not> numChar c"
  shows "scan (w @ [c]) (q, p # st) = jEndValue (of_char c) (p # st)"
proof (cases w)
  case (Cons a v)
  then have a: "jsonSpace (of_char a)" "\<not> numChar a" "spaces v"
    using assms(2) spaces_closes [of w "[]"] by auto
  then have "scan w (q, p # st) = (EndValue, p # st)"
    using ended_step [OF assms(1) a(2)] scan_spaces [of v EndValue "p # st"] by (simp add: Cons jEndValue_def)
  then show ?thesis by simp
qed (use ended_step [OF assms(1,3)] in simp)

text \<open>Elements and members, separated by commas.\<close>

lemma scan_element:
  assumes "takes d s" and "length st + Suc d \<le> 10000" and "spaces w" and "\<not> numChar c"
  shows "scan (s @ w @ [c]) (BeginValue, p # st) = jEndValue (of_char c) (p # st)"
proof -
  obtain q where "scan s (BeginValue, p # st) = (q, p # st)" "ended q (p # st)"
    using assms(1,2) by (auto elim: takesE [of d s "p # st"])
  with ended_spaces [OF _ assms(3,4), of q p st] show ?thesis by simp
qed

lemma gscan_elements:
  assumes "list_all (takes d) ss" and "ss \<noteq> []" and "length st + Suc d \<le> 10000" and "spaces w"
  shows "scan (json_commas ss @ w @ '']'') (BeginValue, ArrayValue # st) = jpop (ArrayValue # st)"
  using assms
proof (induction ss rule: json_commas.induct)
  case (2 s)
  with scan_element [of d s st w "CHR '']''"] show ?case by (simp add: numChar_def jdigit_def jEndValue_def jsonSpace_def)
next
  case (3 s s' ss)
  have "scan (s @ '','') (BeginValue, ArrayValue # st) = (BeginValue, ArrayValue # st)"
    using 3 scan_element [of d s st "[]" "CHR '',''"] by (simp add: numChar_def jdigit_def jEndValue_def jsonSpace_def)
  with 3 show ?case by simp
qed simp

lemma gparse_elements:
  assumes "list_all2 (greads d) vs ss" and "vs \<noteq> []" and "2 * length (json_commas ss) < n" and "spaces w"
  shows "parseElements n (json_commas ss @ w @ CHR '']'' # r) = Some (vs, r)"
  using assms
proof (induction vs ss arbitrary: n rule: list_all2_induct)
  case (Cons v vs s ss)
  then obtain m where n: "n = Suc m" by (cases n) auto
  note v = greadsD(3) [OF Cons.hyps(1), of m]
  have c: "closes (w @ CHR '']'' # r)" using spaces_closes [OF assms(4)] by (simp add: numChar_def jdigit_def)
  show ?case
  proof (cases "ss = []")
    case True
    then have "vs = []" using Cons.hyps(2) by simp
    with True v [OF _ c] Cons.prems(2,3) show ?thesis by (simp add: n jsonSpace_def)
  next
    case False
    then obtain s' ss' where ss: "ss = s' # ss'" by (cases ss) auto
    then have "vs \<noteq> []" using Cons.hyps(2) by auto
    with Cons.IH [of m] Cons.prems(2,3) v [of "CHR '','' # json_commas ss @ w @ CHR '']'' # r"] show ?thesis
      by (simp add: n ss numChar_def jdigit_def jsonSpace_def)
  qed
qed simp

lemma skipSpace_json_commas:
  "ss \<noteq> [] \<Longrightarrow> skipSpace (hd ss) = c # t \<Longrightarrow> \<exists>u. skipSpace (json_commas ss @ r) = c # u"
  by (cases ss rule: json_commas.cases) (auto simp: skipSpace_append)

lemma greads_array:
  assumes "list_all2 (greads d) vs ss" and "vs \<noteq> []" and "spaces w"
  shows "reads (Suc d) (JArr vs) (CHR ''['' # json_commas ss @ w @ '']'')"
proof -
  let ?t = "json_commas ss @ w @ '']''"
  have ss: "ss \<noteq> []" using assms by auto
  then have "greads d (hd vs) (hd ss)" using assms(1,2) by (cases ss; cases vs) auto
  from greadsD(2) [OF this] obtain c t where c: "skipSpace (hd ss) = c # t" "of_char c \<noteq> (93 :: nat)" by blast
  have tk: "list_all (takes d) ss" using assms(1) by (induction rule: list_all2_induct) (auto dest: greadsD(1))
  have "\<exists>q. scan (CHR ''['' # ?t) (BeginValue, st) = (q, st) \<and> ended q st" if "length st + Suc d \<le> 10000" for st
  proof -
    obtain u where u: "skipSpace ?t = c # u" using skipSpace_json_commas [OF ss c(1)] by blast
    have "scan (CHR ''['' # ?t) (BeginValue, st) = scan ?t (BeginValueOrEmpty, ArrayValue # st)"
      using that by (simp add: jBeginValue_def jpush_def jsonSpace_def)
    also have "\<dots> = scan (skipSpace ?t) (BeginValueOrEmpty, ArrayValue # st)" by (rule scan_skipSpace) simp
    also have "\<dots> = scan (skipSpace ?t) (BeginValue, ArrayValue # st)" using c(2) skipSpace_hd [OF u] by (simp add: u)
    also have "\<dots> = scan ?t (BeginValue, ArrayValue # st)" by (rule scan_skipSpace [symmetric]) simp
    also have "\<dots> = jpop (ArrayValue # st)" by (rule gscan_elements [OF tk ss that assms(3)])
    finally show ?thesis using ended_jpop by metis
  qed
  then have "takes (Suc d) (CHR ''['' # ?t)" unfolding takes_def by blast
  moreover have "parseValue n ((CHR ''['' # ?t) @ r) = Some (JArr vs, r)" if n: "2 * length (CHR ''['' # ?t) \<le> n" for n r
  proof -
    obtain m where m: "n = Suc m" using n by (cases n) auto
    obtain u where u: "skipSpace (?t @ r) = c # u" using skipSpace_json_commas [OF ss c(1)] by (metis append_assoc)
    have p: "parseElements m (?t @ r) = Some (vs, r)"
      using gparse_elements [OF assms(1,2) _ assms(3), of m r] n by (simp add: m)
    have "parseElements m (c # u) = parseElements m (?t @ r)"
      unfolding u [symmetric] by (cases m) (simp_all only: parseElements.simps parseValue_skipSpace)
    with p c(2) u show ?thesis by (simp add: m jsonSpace_def Let_def)
  qed
  ultimately show ?thesis by (simp add: reads_def jsonSpace_def)
qed


text \<open>A member: white space, a key, the text of its value, and the value.\<close>

type_synonym gmember = "string \<times> string \<times> string \<times> json"

definition gmember_ok :: "nat \<Rightarrow> gmember \<Rightarrow> bool" where
  "gmember_ok d m \<longleftrightarrow> (case m of (w, k, s, v) \<Rightarrow> spaces w \<and> strPiece k \<and> greads d v s)"

definition gmember_text :: "gmember \<Rightarrow> string" where
  "gmember_text m = (case m of (w, k, s, v) \<Rightarrow> w @ json_field k s)"

definition gmember_of :: "gmember \<Rightarrow> string \<times> string \<times> json" where
  "gmember_of m = (case m of (w, k, s, v) \<Rightarrow> (unquote k, skipSpace s, v))"

lemma gscan_member:
  assumes "gmember_ok d m" and "length st + Suc d \<le> 10000" and "\<not> numChar c" and "spaces u"
  shows "scan (gmember_text m @ u @ [c]) (BeginString, ObjectKey # st) = jEndValue (of_char c) (ObjectValue # st)"
proof -
  obtain w k s v where m: "m = (w, k, s, v)" "spaces w" "strPiece k" "greads d v s"
    using assms(1) by (auto simp: gmember_ok_def split: prod.splits)
  have "scan (CHR 0x22 # k @ [CHR 0x22]) (BeginString, ObjectKey # st) = (EndValue, ObjectKey # st)"
    by (rule strPiece_literal(3) [OF m(3)])
  then have "scan (gmember_text m @ u @ [c]) (BeginString, ObjectKey # st) = scan (s @ u @ [c]) (BeginValue, ObjectValue # st)"
    using scan_spaces [OF m(2), of BeginString "ObjectKey # st"]
    by (simp add: m(1) gmember_text_def json_field_def jEndValue_def jsonSpace_def)
  also have "\<dots> = jEndValue (of_char c) (ObjectValue # st)"
    by (rule scan_element [OF greadsD(1) [OF m(4)] assms(2,4,3)])
  finally show ?thesis .
qed

lemma gscan_members:
  assumes "list_all (gmember_ok d) ms" and "ms \<noteq> []" and "length st + Suc d \<le> 10000" and "spaces u"
  shows "scan (json_commas (map gmember_text ms) @ u @ ''}'') (BeginString, ObjectKey # st) = jpop (ObjectValue # st)"
  using assms
proof (induction ms rule: induct_list012)
  case (2 m)
  with gscan_member [of d m st "CHR ''}''" u] show ?case by (simp add: numChar_def jdigit_def jEndValue_def jsonSpace_def)
next
  case (3 m m' ms)
  have "scan (gmember_text m @ '','') (BeginString, ObjectKey # st) = (BeginString, ObjectKey # st)"
    using 3 gscan_member [of d m st "CHR '',''" "[]"] by (simp add: numChar_def jdigit_def jEndValue_def jsonSpace_def)
  then have "scan (gmember_text m @ '','' @ json_commas (map gmember_text (m' # ms)) @ u @ ''}'') (BeginString, ObjectKey # st) =
      scan (json_commas (map gmember_text (m' # ms)) @ u @ ''}'') (BeginString, ObjectKey # st)"
    by (metis append_assoc scan_simps(3))
  with 3 show ?case by simp
qed simp

lemma gparse_member:
  assumes "gmember_ok d m" and "2 * length (gmember_text m) \<le> n" and "\<not> numChar c" and "\<not> jsonSpace (of_char c)" and "spaces u"
  shows "parseMembers (Suc n) (gmember_text m @ u @ c # r) =
    (if of_char c = (44 :: nat) then map_option (\<lambda>(ms, r). (gmember_of m # ms, r)) (parseMembers n r)
     else if of_char c = (125 :: nat) then Some ([gmember_of m], r) else None)"
proof -
  obtain w k s v where m: "m = (w, k, s, v)" "spaces w" "strPiece k" "greads d v s"
    using assms(1) by (auto simp: gmember_ok_def split: prod.splits)
  have "closes (u @ c # r)" using spaces_closes [OF assms(5)] assms(3) by simp
  moreover have "2 * length s \<le> n" using assms(2) by (simp add: m(1) gmember_text_def json_field_def)
  ultimately have v: "parseValue n (s @ u @ c # r) = Some (v, u @ c # r)" using greadsD(3) [OF m(4)] by blast
  note s = skipSpace_append [OF greads_skipSpace [OF m(4)], of "u @ c # r"]
  have e: "skipSpace (u @ c # r) = c # r" using assms(4,5) by simp
  have "gmember_text m @ u @ c # r = w @ CHR 0x22 # k @ CHR 0x22 # CHR '':'' # s @ u @ c # r"
    by (simp add: m(1) gmember_text_def json_field_def)
  then show ?thesis
    using strPiece_literal(1) [OF m(3)] v s e m(2) assms(4) by (simp add: m(1) gmember_of_def jsonSpace_def Let_def)
qed

lemma gparse_members:
  assumes "list_all (gmember_ok d) ms" and "ms \<noteq> []" and "2 * length (json_commas (map gmember_text ms)) < n" and "spaces u"
  shows "parseMembers n (json_commas (map gmember_text ms) @ u @ CHR ''}'' # r) = Some (map gmember_of ms, r)"
  using assms
proof (induction ms arbitrary: n rule: induct_list012)
  case (2 m)
  then obtain k where n: "n = Suc k" by (cases n) auto
  with 2 gparse_member [of d m k "CHR ''}''" u r] show ?case by (simp add: numChar_def jdigit_def jsonSpace_def)
next
  case (3 m m' ms)
  then obtain k where n: "n = Suc k" by (cases n) auto
  let ?r = "json_commas (map gmember_text (m' # ms)) @ u @ CHR ''}'' # r"
  have "parseMembers k ?r = Some (map gmember_of (m' # ms), r)" using 3 n by simp
  moreover have "parseMembers (Suc k) (gmember_text m @ [] @ CHR '','' # ?r) = map_option (\<lambda>(ms, r). (gmember_of m # ms, r)) (parseMembers k ?r)"
    using 3 n gparse_member [of d m k "CHR '',''" "[]" ?r] by (simp add: numChar_def jdigit_def jsonSpace_def)
  ultimately show ?case by (simp add: n)
qed simp

lemma greads_object:
  assumes "list_all (gmember_ok d) ms" and "ms \<noteq> []" and "spaces u"
  shows "reads (Suc d) (JObj (map gmember_of ms)) (CHR ''{'' # json_commas (map gmember_text ms) @ u @ ''}'')"
proof -
  let ?t = "json_commas (map gmember_text ms) @ u @ ''}''"
  obtain m ms' where ms: "ms = m # ms'" using assms(2) by (cases ms) auto
  have "\<exists>t. skipSpace (hd (map gmember_text ms)) = CHR 0x22 # t"
    using assms(1) by (auto simp: ms gmember_ok_def gmember_text_def json_field_def jsonSpace_def split: prod.splits)
  then obtain t where t: "skipSpace (hd (map gmember_text ms)) = CHR 0x22 # t" ..
  have "\<exists>q. scan (CHR ''{'' # ?t) (BeginValue, st) = (q, st) \<and> ended q st" if "length st + Suc d \<le> 10000" for st
  proof -
    obtain v where v: "skipSpace ?t = CHR 0x22 # v" using skipSpace_json_commas [OF _ t] assms(2) by force
    have "scan (CHR ''{'' # ?t) (BeginValue, st) = scan ?t (BeginStringOrEmpty, ObjectKey # st)"
      using that by (simp add: jBeginValue_def jpush_def jsonSpace_def)
    also have "\<dots> = scan (skipSpace ?t) (BeginStringOrEmpty, ObjectKey # st)" by (rule scan_skipSpace) simp
    also have "\<dots> = scan (skipSpace ?t) (BeginString, ObjectKey # st)" by (simp add: v jsonSpace_def)
    also have "\<dots> = scan ?t (BeginString, ObjectKey # st)" by (rule scan_skipSpace [symmetric]) simp
    also have "\<dots> = jpop (ObjectValue # st)" by (rule gscan_members [OF assms(1,2) that assms(3)])
    finally show ?thesis using ended_jpop by metis
  qed
  then have "takes (Suc d) (CHR ''{'' # ?t)" unfolding takes_def by blast
  moreover have "parseValue n ((CHR ''{'' # ?t) @ r) = Some (JObj (map gmember_of ms), r)" if n: "2 * length (CHR ''{'' # ?t) \<le> n" for n r
  proof -
    obtain k where k: "n = Suc k" using n by (cases n) auto
    obtain v where v: "skipSpace (?t @ r) = CHR 0x22 # v" using skipSpace_json_commas [OF _ t] assms(2) by (metis append_assoc list.map_disc_iff)
    have p: "parseMembers k (?t @ r) = Some (map gmember_of ms, r)"
      using gparse_members [OF assms(1,2) _ assms(3), of k r] n by (simp add: k)
    have "parseMembers k (CHR 0x22 # v) = parseMembers k (?t @ r)"
      unfolding v [symmetric] by (cases k) (simp_all only: parseMembers.simps skipSpace_skipSpace)
    with p v show ?thesis by (simp add: k jsonSpace_def Let_def)
  qed
  ultimately show ?thesis by (simp add: reads_def jsonSpace_def)
qed

text \<open>The compact form, as \<open>json.Marshal\<close> writes it.\<close>

text \<open>Members without white space.\<close>

definition member_ok :: "nat \<Rightarrow> string \<times> string \<times> json \<Rightarrow> bool" where
  "member_ok d m \<longleftrightarrow> (case m of (k, s, v) \<Rightarrow> strPiece k \<and> reads d v s)"

definition member_text :: "string \<times> string \<times> json \<Rightarrow> string" where
  "member_text m = (case m of (k, s, v) \<Rightarrow> json_field k s)"

definition member_of :: "string \<times> string \<times> json \<Rightarrow> string \<times> string \<times> json" where
  "member_of m = (case m of (k, s, v) \<Rightarrow> (unquote k, s, v))"

lemma reads_skipSpace: "reads d v s \<Longrightarrow> skipSpace s = s"
  by (cases s) (simp_all add: reads_def)

lemma reads_array:
  assumes "list_all2 (reads d) vs ss" and "vs \<noteq> []"
  shows "reads (Suc d) (JArr vs) (CHR ''['' # json_commas ss @ '']'')"
proof -
  have "list_all2 (greads d) vs ss" using assms(1) by (rule list_all2_mono) (rule reads_greads)
  from greads_array [OF this assms(2), of "[]"] show ?thesis by simp
qed

definition compact :: "string \<times> string \<times> json \<Rightarrow> gmember" where
  "compact m = ([], m)"

lemma compact_member:
  "member_ok d m \<Longrightarrow> gmember_ok d (compact m) \<and> gmember_of (compact m) = member_of m \<and> gmember_text (compact m) = member_text m"
  by (cases m) (auto simp: compact_def gmember_ok_def member_ok_def gmember_of_def member_of_def gmember_text_def member_text_def
      dest: reads_greads reads_skipSpace)

lemma reads_object:
  assumes "list_all (member_ok d) ms" and "ms \<noteq> []"
  shows "reads (Suc d) (JObj (map member_of ms)) (json_object (map member_text ms))"
proof -
  have e: "list_all (gmember_ok d) (map compact ms)" "map gmember_of (map compact ms) = map member_of ms"
    "map gmember_text (map compact ms) = map member_text ms"
    using assms(1) compact_member by (auto simp: list_all_iff)
  from greads_object [OF e(1), of "[]"] assms(2) show ?thesis unfolding e(2,3) json_object_def by simp
qed

theorem parseJson_reads: "reads d v s \<Longrightarrow> d \<le> 10000 \<Longrightarrow> parseJson (bytes_of s) = Some v"
proof -
  assume r: "reads d v s" "d \<le> 10000"
  then obtain q where "scan s (BeginValue, []) = (q, [])" "ended q []" by (auto simp: reads_def elim: takesE [of d s "[]"])
  with ended_step [of q "[]" "CHR '' ''"] have "accepted s (BeginValue, [])"
    by (simp add: accepted_def numChar_def jdigit_def jEndValue_def jsonSpace_def)
  moreover have "parseValue (2 * length s + 2) (s @ []) = Some (v, [])"
    using r(1) unfolding reads_def by (meson closes_simps(1) le_add1)
  ultimately show ?thesis by (simp add: parseJson_def json_Valid_scan)
qed

subsection \<open>Storing what the encoder writes\<close>

lemma foldM_append: "foldM f (xs @ ys) s = (case foldM f xs s of None \<Rightarrow> None | Some s \<Rightarrow> foldM f ys s)"
  by (induction xs arbitrary: s) (auto split: option.splits)

lemma reads_json_string:
  "validUTF8 s \<Longrightarrow> reads d (JStr s) (json_string s)" "\<exists>t. reads d (JStr t) (json_string s)"
  using reads_string [OF strPiece_json_chars, of d s] unquote_json_chars [of s] by (auto simp: json_string_def)

definition bytesTree :: "bytes option \<Rightarrow> json" where
  "bytesTree v = (case v of None \<Rightarrow> JNull | Some b \<Rightarrow> JStr (base64 b))"

lemma reads_json_bytes: "reads d (bytesTree v) (json_bytes v)"
  using reads_string [OF strPiece_plain [OF plain_base64]] unquote_plain [OF plain_base64]
  by (auto simp: bytesTree_def json_bytes_def reads_null split: option.splits)

lemma storeBytes_bytesTree: "storeBytes (bytesTree v) old = Some v"
  by (simp add: storeBytes_def bytesTree_def base64Decode_base64 split: option.splits)

lemma plain_member: "plain k \<Longrightarrow> member_ok d (k, s, v) \<longleftrightarrow> reads d v s" "plain k \<Longrightarrow> member_of (k, s, v) = (k, s, v)"
  by (simp_all add: member_ok_def member_of_def strPiece_plain unquote_plain)

lemma storeUint_dec: "n < 2 ^ w \<Longrightarrow> w \<le> 64 \<Longrightarrow> storeUint w (JNum (dec n)) old = Some n"
proof -
  assume n: "n < 2 ^ w" and w: "w \<le> 64"
  have "(2 :: nat) ^ w \<le> 2 ^ 64" using w by (rule power_increasing) simp
  with n have "ParseUint (dec n) = (n, None)" by (simp add: ParseUint_def parseUint_loop_dec)
  with n show ?thesis by (simp add: storeUint_def)
qed

subsection \<open>Booleans, integers and indented texts\<close>

lemma reads_bool: "reads d (JBool b) (json_bool b)"
proof (cases b)
  case False
  have "parseValue n (''false'' @ r) = Some (JBool False, r)" if "10 \<le> n" for n r
    using that by (cases n) (simp_all add: jsonSpace_def Let_def)
  moreover have "takes d ''false''" by (simp add: takes_def jBeginValue_def jsonSpace_def)
  ultimately show ?thesis using False by (simp add: reads_def jsonSpace_def json_bool_def)
qed (simp add: json_bool_def reads_true)

lemma dec_0: "dec 0 = ''0''"
  by (simp add: dec.simps dchar_def char_of_def bit_0)

lemma reads_dec: "reads d (JNum (dec n)) (dec n)"
proof (cases "n = 0")
  case True
  have "parseValue k (''0'' @ r) = Some (JNum ''0'', r)" if "2 \<le> k" "closes r" for k r
  proof -
    have "takeWhile numChar r = []" "dropWhile numChar r = r" using that(2) by (cases r; simp)+
    with that(1) show ?thesis by (cases k) (simp_all add: jsonSpace_def Let_def numChar_def jdigit_def)
  qed
  moreover have "takes d ''0''" using ended_number by (simp add: takes_def jBeginValue_def jsonSpace_def)
  ultimately show ?thesis using True by (simp add: reads_def jsonSpace_def dec_0)
qed (simp add: reads_number)

lemma storeInt_dec: "n < 2 ^ 63 \<Longrightarrow> storeInt (JNum (dec n)) old = Some (int n)"
  by (simp add: storeInt_def Atoi_def signedVal_def dec_no_sign digitsVal_dec Let_def)

lemma spaces_newline: "spaces (newline d)"
  by (simp add: newline_def jsonSpace_def list_all_iff)

definition indentMember :: "nat \<Rightarrow> string \<times> string \<times> json \<Rightarrow> gmember" where
  "indentMember d m = (case m of (k, s, v) \<Rightarrow> (newline d, k, CHR '' '' # s, v))"

lemma indentMember:
  assumes "member_ok d m"
  shows "gmember_ok d (indentMember e m) \<and> gmember_of (indentMember e m) = member_of m \<and>
    gmember_text (indentMember e m) = newline e @ (case m of (k, s, v) \<Rightarrow> indentField k s)"
proof -
  obtain k s v where m: "m = (k, s, v)" "strPiece k" "reads d v s" using assms by (auto simp: member_ok_def split: prod.splits)
  have "greads d v (CHR '' '' # s)" using greadsI [of "'' ''", OF _ m(3)] by (simp add: jsonSpace_def)
  moreover have "skipSpace (CHR '' '' # s) = s" using reads_skipSpace [OF m(3)] by (simp add: jsonSpace_def)
  ultimately show ?thesis using m(2) spaces_newline
    by (simp add: m(1) indentMember_def gmember_ok_def gmember_of_def member_of_def gmember_text_def indentField_def)
qed

lemma reads_indentObject:
  assumes "list_all (member_ok d) ms" and "ms \<noteq> []"
  shows "reads (Suc d) (JObj (map member_of ms)) (indentObject e (map (\<lambda>(k, s, v). indentField k s) ms))"
proof -
  let ?ms = "map (indentMember (Suc e)) ms"
  have g: "list_all (gmember_ok d) ?ms" "map gmember_of ?ms = map member_of ms"
    "map gmember_text ?ms = map (\<lambda>f. newline (Suc e) @ f) (map (\<lambda>(k, s, v). indentField k s) ms)"
    using assms(1) indentMember by (auto simp: list_all_iff)
  from greads_object [OF g(1) _ spaces_newline [of e]] assms(2) show ?thesis
    unfolding g(2,3) by (simp add: indentObject_def)
qed

lemma reads_indentArray:
  assumes "list_all2 (reads d) vs ss" and "vs \<noteq> []"
  shows "reads (Suc d) (JArr vs) (indentArray e ss)"
proof -
  have "list_all2 (greads d) vs (map (\<lambda>s. newline (Suc e) @ s) ss)"
    using assms(1) by (auto simp: list_all2_conv_all_nth intro: greadsI [OF spaces_newline])
  from greads_array [OF this assms(2) spaces_newline [of e]] assms show ?thesis
    by (auto simp: indentArray_def)
qed

end
