(* ===== verification/ServerJson.thy ===== *)
theory ServerJson
  imports Server JsonDecodeProofs
begin

text \<open>
  The body of a transaction request against the encoder: what \<open>json.Marshal\<close> writes for a
  transaction decodes to its fields, and an object that does not name the operations decodes to a
  request without any.
\<close>

subsection \<open>Operations\<close>

definition opMembers :: "Operation \<Rightarrow> (string \<times> string \<times> json) list" where
  "opMembers op =
     [(''key'', json_string (opKey op), JStr (opKey op)), (''value'', json_bytes (opValue op), bytesTree (opValue op))]
     @ (if opDelete op then [(''delete'', ''true'', JBool True)] else [])"

lemma json_operation_members: "json_operation op = json_object (map member_text (opMembers op))"
  by (simp add: json_operation_def opMembers_def member_text_def)

lemma reads_operation:
  assumes "validUTF8 (opKey op)"
  shows "reads (Suc d) (JObj (opMembers op)) (json_operation op)"
proof -
  have "list_all (member_ok d) (opMembers op)" "map member_of (opMembers op) = opMembers op"
    using assms by (simp_all add: opMembers_def plain_member reads_json_string reads_json_bytes reads_true)
  with reads_object [of d "opMembers op"] show ?thesis
    by (simp add: json_operation_members opMembers_def)
qed

lemma storeOp_members: "storeOp (JObj (opMembers op)) zeroOp = Some op"
  by (simp add: storeOp_def storeStruct_def opMembers_def storeOpField_def names_def zeroOp_def storeString_def storeBool_def storeBytes_bytesTree)

lemma storeElements_operations: "storeElements storeOp zeroOp (map (\<lambda>op. JObj (opMembers op)) ops) [] = Some ops"
  by (induction ops) (simp_all add: storeOp_members)


subsection \<open>Transactions\<close>

definition readable :: "Transaction \<Rightarrow> bool" where
  "readable tx \<longleftrightarrow> validUTF8 (txSender tx) \<and> list_all (\<lambda>op. validUTF8 (opKey op)) (txOps tx)"

definition opsTree :: "Operation list \<Rightarrow> json" where
  "opsTree ops = (if ops = [] then JNull else JArr (map (\<lambda>op. JObj (opMembers op)) ops))"

lemma reads_operations:
  assumes "list_all (\<lambda>op. validUTF8 (opKey op)) ops"
  shows "reads (Suc (Suc d)) (opsTree ops) (json_array (map json_operation ops))"
proof (cases "ops = []")
  case False
  have "list_all2 (reads (Suc d)) (map (\<lambda>op. JObj (opMembers op)) ops) (map json_operation ops)"
    using assms reads_operation by (simp add: list_all2_conv_all_nth list_all_length)
  with False reads_array [of "Suc d" "map (\<lambda>op. JObj (opMembers op)) ops"] show ?thesis
    by (simp add: opsTree_def json_array_def)
qed (simp add: opsTree_def json_array_def reads_null)

lemma storeOps_opsTree: "storeSlice storeOp zeroOp (opsTree ops) ([], 0) = Some (ops, length ops)"
  by (simp add: storeSlice_def opsTree_def storeElements_operations)

text \<open>The members that \<open>json_transaction\<close> writes, with what is read for the strings of no interest.\<close>

definition txMembers :: "json \<Rightarrow> json \<Rightarrow> json \<Rightarrow> Transaction \<Rightarrow> (string \<times> string \<times> json) list" where
  "txMembers i tm kind tx =
     [(''id'', json_string (txID tx), i), (''timestamp'', json_time (txTimestamp tx), tm)]
     @ (if txSender tx = [] then [] else [(''sender'', json_string (txSender tx), JStr (txSender tx))])
     @ (if txNonce tx = 0 then [] else [(''nonce'', json_uint (unat (txNonce tx)), JNum (dec (unat (txNonce tx))))])
     @ [(''ops'', json_array (map json_operation (txOps tx)), opsTree (txOps tx))]
     @ (if txPayload tx = [] then [] else [(''payload'', json_bytes (Some (txPayload tx)), bytesTree (Some (txPayload tx)))])
     @ (if txKind tx = [] then [] else [(''kind'', json_string (txKind tx), kind)])"

lemma json_transaction_members: "json_transaction tx = json_object (map member_text (txMembers i tm kind tx))"
  by (simp add: json_transaction_def txMembers_def member_text_def json_opt_def)

lemma reads_transaction:
  assumes "readable tx"
  shows "\<exists>i tm kind. reads (Suc (Suc (Suc d))) (JObj (txMembers i tm kind tx)) (json_transaction tx)"
proof -
  let ?d = "Suc (Suc d)"
  obtain i kind where s: "reads ?d (JStr i) (json_string (txID tx))" "reads ?d (JStr kind) (json_string (txKind tx))"
    using reads_json_string(2) by meson
  obtain t where t: "plain t" "json_time (txTimestamp tx) = CHR 0x22 # t @ [CHR 0x22]"
    using plain_json_time by blast
  have tm: "reads ?d (JStr (unquote t)) (json_time (txTimestamp tx))" unfolding t(2) by (rule reads_string [OF strPiece_plain [OF t(1)]])
  let ?ms = "txMembers (JStr i) (JStr (unquote t)) (JStr kind) tx"
  have n: "reads ?d (JNum (dec (unat (txNonce tx)))) (json_uint (unat (txNonce tx)))" if "txNonce tx \<noteq> 0"
    unfolding json_uint_def by (rule reads_number) (use that in \<open>simp add: unat_gt_0\<close>)
  have "list_all (member_ok ?d) ?ms" "map member_of ?ms = ?ms"
    using assms s tm n reads_operations [of "txOps tx" d]
    by (simp_all add: txMembers_def plain_member reads_json_string(1) reads_json_bytes readable_def)
  then have "reads (Suc ?d) (JObj ?ms) (json_transaction tx)"
    using reads_object [of ?d ?ms] unfolding json_transaction_members [of tx "JStr i" "JStr (unquote t)" "JStr kind"]
    by (simp add: txMembers_def)
  then show ?thesis by blast
qed

lemma foldM_txMembers:
  "foldM storeTxField (txMembers i tm kind tx) zeroTarget =
     Some \<lparr>ttSender = txSender tx, ttNonce = unat (txNonce tx), ttOps = (txOps tx, length (txOps tx)),
       ttPayload = (if txPayload tx = [] then None else Some (txPayload tx))\<rparr>"
proof -
  have u: "storeUint 64 (JNum (dec (unat (txNonce tx)))) old = Some (unat (txNonce tx))" for old
    using unsigned_less [of "txNonce tx"] by (intro storeUint_dec) simp_all
  show ?thesis
    by (simp add: txMembers_def foldM_append storeTxField_def names_def zeroTarget_def storeString_def u storeOps_opsTree storeBytes_bytesTree)
qed

theorem decodeTx_transaction:
  assumes "readable tx"
  shows "decodeTx (bytes_of (json_transaction tx)) =
    Some \<lparr>trSender = txSender tx, trNonce = txNonce tx, trOps = txOps tx, trPayload = txPayload tx\<rparr>"
proof -
  obtain i tm kind where "reads (Suc (Suc (Suc 0))) (JObj (txMembers i tm kind tx)) (json_transaction tx)"
    using reads_transaction [OF assms, of 0] by blast
  then have "parseJson (bytes_of (json_transaction tx)) = Some (JObj (txMembers i tm kind tx))"
    by (rule parseJson_reads) simp
  then show ?thesis by (simp add: decodeTx_def Unmarshal_def storeStruct_def foldM_txMembers targetRequest_def)
qed

text \<open>An object without a member for the operations gives a request without operations.\<close>

lemma storeTxField_ops: "storeTxField m r = Some r' \<Longrightarrow> \<not> names (fst m) ''ops'' \<Longrightarrow> ttOps r' = ttOps r"
  by (auto simp: storeTxField_def split: prod.splits if_splits)

lemma foldM_no_ops:
  "foldM storeTxField ms r = Some r' \<Longrightarrow> list_all (\<lambda>m. \<not> names (fst m) ''ops'') ms \<Longrightarrow> ttOps r' = ttOps r"
  by (induction ms arbitrary: r) (auto split: option.splits dest: storeTxField_ops)

lemma decodeTx_no_ops:
  assumes "parseJson b = Some (JObj ms)" and "list_all (\<lambda>m. \<not> names (fst m) ''ops'') ms" and "decodeTx b = Some r"
  shows "trOps r = []"
proof -
  obtain t where "foldM storeTxField ms zeroTarget = Some t" "r = targetRequest t"
    using assms(1,3) by (auto simp: decodeTx_def Unmarshal_def storeStruct_def)
  with foldM_no_ops [OF this(1) assms(2)] show ?thesis by (simp add: targetRequest_def zeroTarget_def)
qed

lemma Commit_no_ops:
  assumes "txOps tx = []"
  shows "\<exists>x. Commit env cx now [tx] d e = (Inl x, d, e)"
  by (simp add: Commit_def prepareBlock_def assms)

end
