(* ===== verification/ServerProofs.thy ===== *)
theory ServerProofs
  imports ServerJson EngineStore
begin

text \<open>
  What the HTTP interface promises: which requests can change the engine, what a state request
  reads, and that requests keep the engine verifiable whatever they are.
\<close>

subsection \<open>Requests and the engine\<close>

lemma handleTx_effect:
  assumes "handleTx env cx en rq d e = (r, d', e')" and "(d', e') \<noteq> (d, e)"
  shows "rqMethod rq = ''POST'' \<and> (\<exists>b t. rqBody rq = Some b \<and> length b \<le> maxBody \<and> decodeTx b = Some t \<and>
    Commit env cx (enTime en) [requestTx en t] d e =
      ((case rsBody r of BlockBody blk \<Rightarrow> Inr blk | ErrorBody x \<Rightarrow> Inl x), d', e') \<and>
    rsCode r = (case rsBody r of BlockBody _ \<Rightarrow> 201 | _ \<Rightarrow> 400))"
  using assms by (auto simp: handleTx_def split: if_splits option.splits prod.splits sum.splits)

lemma serveHTTP_effect:
  assumes "serveHTTP env cx token en rq d e = (r, d', e')" and "(d', e') \<noteq> (d, e)"
  shows "findHandler rq = Endpoint TxEndpoint \<and> authorised token rq \<and>
    handleTx env cx en rq d e = (r, d', e')"
  using assms by (auto simp: serveHTTP_def split: target.splits endpoint.splits if_splits)

subsection \<open>A run of requests\<close>

text \<open>The requests that a server answers one after the other, each with its failures and random bytes.\<close>

fun serveAll :: "codec \<Rightarrow> string \<Rightarrow> (env \<times> entropy \<times> request) list \<Rightarrow>
    disk \<Rightarrow> Engine \<Rightarrow> response list \<times> disk \<times> Engine" where
  "serveAll cx token [] d e = ([], d, e)"
| "serveAll cx token ((env, en, rq) # rqs) d e =
     (case serveHTTP env cx token en rq d e of
        (r, d, e) \<Rightarrow> (case serveAll cx token rqs d e of (rs, d, e) \<Rightarrow> (r # rs, d, e)))"

lemma serveHTTP_reachable:
  assumes "reachable cx d e" and "serveHTTP env cx token en rq d e = (r, d', e')"
  shows "reachable cx d' e'"
proof (cases "(d', e') = (d, e)")
  case False
  with serveHTTP_effect [OF assms(2)] handleTx_effect obtain t x where
    "Commit env cx (enTime en) [requestTx en t] d e = (x, d', e')" by meson
  with assms(1) show ?thesis by (rule reachable.committed)
qed (use assms in auto)

lemma serveHTTP_code:
  assumes "Verify e = Inr ()" and "serveHTTP env cx token en rq d e = (r, d', e')"
  shows "rsCode r \<in> {200, 201, 301, 400, 401, 404, 405}"
  using assms
  by (auto simp: serveHTTP_def handleTx_def handleState_def handleBlock_def handleStatus_def handleVerify_def Let_def
      split: target.splits endpoint.splits if_splits option.splits prod.splits sum.splits)

lemma replayable_Verify: "replayable (eChain e) \<Longrightarrow> Verify e = Inr ()"
  by (simp add: replayable_def Verify_def)

subsection \<open>An example request\<close>

definition exEntropy :: entropy where
  "exEntropy = \<lparr>enID = [1], enTxTime = exNow, enTime = exNow\<rparr>"

definition exPost :: request where
  "exPost = \<lparr>rqMethod = ''POST'', rqEscapedPath = ''/v1/tx'', rqQuery = [], rqAuthorization = ''Bearer t'', 
     rqBody = Some (bytes_of (json_transaction (exTx [7])))\<rparr>"

definition exGet :: request where
  "exGet = \<lparr>rqMethod = ''GET'', rqEscapedPath = ''/v1/state/%61'', rqQuery = [(''height'', ''1'')],
     rqAuthorization = ''Bearer t'', rqBody = Some []\<rparr>"

lemma exPost_route: "findHandler exPost = Endpoint TxEndpoint" "authorised ''t'' exPost"
  by (simp_all add: findHandler_def exPost_def cleanPath_def Clean_def isAbs_def HasPrefix_def HasSuffix_def Let_def
      segments_def pathUnescape_def route_def authorised_def)

lemma exGet_route: "findHandler exGet = Endpoint StateEndpoint" "authorised ''t'' exGet"
  "TrimPrefix (rqPath exGet) ''/v1/state/'' = ''a''" "queryGet exGet ''height'' = ''1''"
  by (simp_all add: findHandler_def exGet_def cleanPath_def Clean_def isAbs_def HasPrefix_def HasSuffix_def Let_def
      segments_def pathUnescape_def route_def authorised_def rqPath_def TrimPrefix_def queryGet_def hval_def char_of_def bit_0)

lemma exTx_decoded:
  "decodeTx (bytes_of (json_transaction (exTx [7]))) =
     Some \<lparr>trSender = ''s'', trNonce = 0, trOps = txOps (exTx [7]), trPayload = []\<rparr>"
  "length (json_transaction (exTx [7])) \<le> maxBody"
proof -
  have "readable (exTx [7])" by (simp add: readable_def exTx_def)
  from decodeTx_transaction [OF this] show "decodeTx (bytes_of (json_transaction (exTx [7]))) =
     Some \<lparr>trSender = ''s'', trNonce = 0, trOps = txOps (exTx [7]), trPayload = []\<rparr>" by (simp add: exTx_def)
  show "length (json_transaction (exTx [7])) \<le> maxBody"
    by (simp add: exTx_def exHeader_def json_transaction_def json_object_def json_field_def json_string_def json_ascii_def
        json_opt_def json_array_def json_operation_def json_bytes_def json_time_def json_fraction_def pad0_def b64char_def
        dec.simps maxBody_def Let_def)
qed

lemma exTx_request:
  "requestTx exEntropy \<lparr>trSender = ''s'', trNonce = 0, trOps = txOps (exTx [7]), trPayload = []\<rparr> = exTx [7]"
  by (simp add: requestTx_def exEntropy_def NewTransaction_def exTx_def exNow_def exHeader_def hex_char_def hexdigits_def)

lemma exPost_served:
  obtains e d e' d' where "reachable exChainCodec d e" "eChain e = emptyChain"
    "serveHTTP healthy exChainCodec ''t'' exEntropy exPost d e = (\<lparr>rsCode = 201, rsBody = BlockBody exFirst\<rparr>, d', e')"
    "eChain e' = commitBlock exFirst emptyChain"
proof (rule exFirst_committed)
  fix e d e' d'
  assume a: "Engine_Open healthy exChainCodec False emptyDisk = (Inr e, d)" "eChain e = emptyChain"
    "Commit healthy exChainCodec exNow [exTx [7]] d e = (Inr exFirst, d', e')"
    "eChain e' = commitBlock exFirst emptyChain"
  note exTx_request exTx_decoded
  then have "handleTx healthy exChainCodec exEntropy exPost d e = (\<lparr>rsCode = 201, rsBody = BlockBody exFirst\<rparr>, d', e')"
    using a(3) by (simp add: handleTx_def exPost_def) (simp add: exEntropy_def)
  then have "serveHTTP healthy exChainCodec ''t'' exEntropy exPost d e = (\<lparr>rsCode = 201, rsBody = BlockBody exFirst\<rparr>, d', e')"
    by (simp add: serveHTTP_def exPost_route)
  from that [OF reachable.opened [OF a(1)] a(2) this a(4)] show thesis .
qed

subsection \<open>Properties\<close>

text \<open>
  C8: Only an authorised POST to the transaction endpoint, with a readable body of at most 16 MiB that
  decodes, can change the engine or its directory, and then only by committing the one
  transaction it carries. A request without the token gets 301, 401 or 404 and learns nothing: its
  response depends on the request alone, and is the same for every other directory, engine, secret
  token that it does not carry either, and whatever fails.
\<close>

theorem only_authorised_posts_change:
  assumes "serveHTTP env cx token en rq d e = (r, d', e')"
  shows "((d', e') \<noteq> (d, e) \<longrightarrow>
      authorised token rq \<and> findHandler rq = Endpoint TxEndpoint \<and> rqMethod rq = ''POST'' \<and>
      (\<exists>b t x. rqBody rq = Some b \<and> length b \<le> maxBody \<and> decodeTx b = Some t \<and>
        Commit env cx (enTime en) [requestTx en t] d e = (x, d', e') \<and>
        rsCode r = (if isl x then 400 else 201))) \<and>
    (\<not> authorised token rq \<longrightarrow> rsCode r \<in> {301, 401, 404} \<and>
      (\<forall>env2 cx2 token2 en2 d2 e2. \<not> authorised token2 rq \<longrightarrow> fst (serveHTTP env2 cx2 token2 en2 rq d2 e2) = r))"
proof -
  have "\<exists>b t x. rqBody rq = Some b \<and> length b \<le> maxBody \<and> decodeTx b = Some t \<and>
      Commit env cx (enTime en) [requestTx en t] d e = (x, d', e') \<and> rsCode r = (if isl x then 400 else 201)"
    if "handleTx env cx en rq d e = (r, d', e')" "(d', e') \<noteq> (d, e)"
    using that by (auto simp: handleTx_def split: if_splits option.splits prod.splits sum.splits)
  moreover have "rsCode r \<in> {301, 401, 404} \<and>
      (\<forall>env2 cx2 token2 en2 d2 e2. \<not> authorised token2 rq \<longrightarrow> fst (serveHTTP env2 cx2 token2 en2 rq d2 e2) = r)"
    if "\<not> authorised token rq"
    using assms that by (auto simp: serveHTTP_def split: target.splits)
  ultimately show ?thesis using serveHTTP_effect [OF assms] handleTx_effect by blast
qed

theorem only_authorised_posts_change_witness:
  "\<exists>d e r d' e' x. serveHTTP healthy exChainCodec ''t'' exEntropy exPost d e = (r, d', e') \<and> rsCode r = 201 \<and>
     (d', e') \<noteq> (d, e) \<and> authorised ''t'' exPost \<and>
     Commit healthy exChainCodec (enTime exEntropy) [exTx [7]] d e = (x, d', e') \<and> \<not> isl x"
proof (rule exPost_served)
  fix e d e' d'
  assume e: "eChain e = emptyChain" "eChain e' = commitBlock exFirst emptyChain"
    and s: "serveHTTP healthy exChainCodec ''t'' exEntropy exPost d e = (\<lparr>rsCode = 201, rsBody = BlockBody exFirst\<rparr>, d', e')"
  have "cBlocks (eChain e') \<noteq> cBlocks (eChain e)" by (simp add: e emptyChain_def)
  then have ne: "(d', e') \<noteq> (d, e)" by auto
  with only_authorised_posts_change [OF s] obtain t x where t: "decodeTx (bytes_of (json_transaction (exTx [7]))) = Some t"
      "Commit healthy exChainCodec (enTime exEntropy) [requestTx exEntropy t] d e = (x, d', e')" "\<not> isl x"
    by (auto simp: exPost_def split: if_splits)
  from t(1) have "requestTx exEntropy t = exTx [7]" using exTx_request exTx_decoded(1) by simp
  with t(2,3) s ne exPost_route(2) show ?thesis by (metis response.select_convs(1))
qed

text \<open>
  C30: A state request to a reachable engine reads history: with a positive height it answers from the
  state after that many blocks (the current one when there are fewer), with height 0, with none, or
  with one that is not a number, whose error is dropped, from the current state; 404 where the key
  has no value there. A height beyond 64 bits counts as the largest.
\<close>

theorem state_request_reads_history:
  assumes r: "reachable cx d e" and len: "length (cBlocks (eChain e)) < 2 ^ 64"
    and rq: "findHandler rq = Endpoint StateEndpoint" "authorised token rq"
  shows "serveHTTP env cx token en rq d e =
    ((let key = TrimPrefix (rqPath rq) ''/v1/state/''; n = fst (ParseUint (queryGet rq ''height''));
          bs = cBlocks (eChain e)
      in case fmlookup (chainState (if n = 0 then bs else take n bs)) key of
           None \<Rightarrow> \<lparr>rsCode = 404, rsBody = TextBody ''not found''\<rparr>
         | Some v \<Rightarrow> \<lparr>rsCode = 200, rsBody = StateBody key v (of_nat n)\<rparr>), d, e)"
proof -
  let ?n = "fst (ParseUint (queryGet rq ''height''))" and ?bs = "cBlocks (eChain e)"
    and ?key = "TrimPrefix (rqPath rq) ''/v1/state/''"
  note rp = reachable_replayable [OF r]
  have u: "unat (of_nat ?n :: u64) = ?n"
    using ParseUint_bound [of "queryGet rq ''height''"] by (simp add: unat_of_nat)
  then have z: "(0 :: u64) < of_nat ?n \<longleftrightarrow> ?n \<noteq> 0" by (simp only: word_less_nat_alt u unat_0 neq0_conv)
  have at: "GetAt e ?key (of_nat ?n) = fmlookup (chainState (take ?n ?bs)) ?key"
    using GetAt_replayable [OF rp len] by (simp only: u)
  have now: "(if snd (Get e ?key) then Some (fst (Get e ?key)) else None) = fmlookup (chainState ?bs) ?key"
    by (cases "fmlookup (chainState ?bs) ?key") (simp_all add: Get_def replayable_state [OF rp])
  have "handleState rq e = (case fmlookup (chainState (if ?n = 0 then ?bs else take ?n ?bs)) ?key of
       None \<Rightarrow> \<lparr>rsCode = 404, rsBody = TextBody ''not found''\<rparr>
     | Some v \<Rightarrow> \<lparr>rsCode = 200, rsBody = StateBody ?key v (of_nat ?n)\<rparr>)"
    unfolding handleState_def Let_def at now z by (cases "?n = 0") simp_all
  then show ?thesis by (simp add: serveHTTP_def rq Let_def)
qed

theorem state_request_reads_history_witness:
  "\<exists>d e. reachable exChainCodec d e \<and> cBlocks (eChain e) = [exFirst] \<and>
     serveHTTP healthy exChainCodec ''t'' exEntropy exGet d e =
       (\<lparr>rsCode = 200, rsBody = StateBody ''a'' [7] 1\<rparr>, d, e)"
proof (rule exFirst_committed)
  fix e d e' d'
  assume "eChain e' = commitBlock exFirst emptyChain" and r: "reachable exChainCodec d' e'"
  then have b: "cBlocks (eChain e') = [exFirst]" by (simp add: emptyChain_def)
  have len: "length (cBlocks (eChain e')) < 2 ^ 64" by (simp add: b)
  have "blockOps exFirst = txOps (exTx [7])" by (simp add: blockOps_def exFirst_def)
  then have s: "fmlookup (chainState [exFirst]) ''a'' = Some [7]"
    by (simp add: chainState_def exTx_def fmlookup_applyState)
  have n: "ParseUint ''1'' = (1, None)" by (simp add: ParseUint_def dval_def)
  have "serveHTTP healthy exChainCodec ''t'' exEntropy exGet d' e' =
       (\<lparr>rsCode = 200, rsBody = StateBody ''a'' [7] 1\<rparr>, d', e')"
    using state_request_reads_history [OF r len exGet_route(1,2)] by (simp add: exGet_route b s n Let_def)
  with b r show ?thesis by blast
qed

text \<open>
  C32: Whatever requests a server gets, in whatever order and with whatever failures of the
  operating system, the engine stays reachable and so verifiable, and every response has one of the
  codes 200, 201, 301, 400, 401, 404 and 405: the 500 of a failed verification never occurs.
\<close>

theorem requests_keep_engine_verifiable:
  assumes "reachable cx d e" and "serveAll cx token rqs d e = (rs, d', e')"
  shows "reachable cx d' e' \<and> Verify e' = Inr () \<and> length rs = length rqs \<and>
    (\<forall>r \<in> set rs. rsCode r \<in> {200, 201, 301, 400, 401, 404, 405})"
  using assms
proof (induction rqs arbitrary: d e rs)
  case Nil
  then show ?case using replayable_Verify reachable_replayable by auto
next
  case (Cons x rqs)
  obtain env en rq where x: "x = (env, en, rq)" by (cases x)
  obtain r d1 e1 where s: "serveHTTP env cx token en rq d e = (r, d1, e1)" by (metis prod_cases3)
  obtain rs' where rest: "serveAll cx token rqs d1 e1 = (rs', d', e')" "rs = r # rs'"
    using Cons.prems(2) s by (auto simp: x split: prod.splits)
  have "Verify e = Inr ()" using Cons.prems(1) replayable_Verify reachable_replayable by blast
  from Cons.IH [OF serveHTTP_reachable [OF Cons.prems(1) s] rest(1)] serveHTTP_code [OF this s] rest(2)
  show ?case by simp
qed

theorem requests_keep_engine_verifiable_witness:
  "\<exists>d e rs d' e'. reachable exChainCodec d e \<and>
     serveAll exChainCodec ''t'' [(healthy, exEntropy, exPost), (healthy, exEntropy, exGet)] d e = (rs, d', e') \<and>
     cBlocks (eChain e') = [exFirst] \<and> Verify e' = Inr () \<and> length rs = 2"
proof (rule exPost_served)
  fix e d e' d'
  assume r: "reachable exChainCodec d e" and c: "eChain e' = commitBlock exFirst emptyChain"
    and s: "serveHTTP healthy exChainCodec ''t'' exEntropy exPost d e = (\<lparr>rsCode = 201, rsBody = BlockBody exFirst\<rparr>, d', e')"
  have "serveHTTP healthy exChainCodec ''t'' exEntropy exGet d' e' = (handleState exGet e', d', e')"
    by (simp add: serveHTTP_def exGet_route)
  with s have run: "serveAll exChainCodec ''t'' [(healthy, exEntropy, exPost), (healthy, exEntropy, exGet)] d e =
      ([\<lparr>rsCode = 201, rsBody = BlockBody exFirst\<rparr>, handleState exGet e'], d', e')" by simp
  have "cBlocks (eChain e') = [exFirst]" by (simp add: c emptyChain_def)
  with requests_keep_engine_verifiable [OF r run] r run show ?thesis by (metis length_Cons list.size(3) numeral_2_eq_2)
qed

text \<open>
  C9: A client that posts what \<open>json.Marshal\<close> writes for a transaction has exactly its sender, nonce,
  operations and payload committed, under a fresh id and time stamp: an authorised POST of at most
  16 MiB with such a body, its sender and keys valid UTF-8, answers 201 with the block that \<open>Commit\<close>
  makes of them, or 400 with its error.
\<close>

theorem posted_transaction_committed:
  assumes rq: "findHandler rq = Endpoint TxEndpoint" "authorised token rq" "rqMethod rq = ''POST''"
    and body: "rqBody rq = Some (bytes_of (json_transaction tx))" "length (json_transaction tx) \<le> maxBody"
    and tx: "readable tx"
  shows "serveHTTP env cx token en rq d e =
    (case Commit env cx (enTime en)
        [tx\<lparr>txID := EncodeToString (enID en), txTimestamp := enTxTime en, txKind := []\<rparr>] d e of
       (Inl x, d', e') \<Rightarrow> (\<lparr>rsCode = 400, rsBody = ErrorBody x\<rparr>, d', e')
     | (Inr blk, d', e') \<Rightarrow> (\<lparr>rsCode = 201, rsBody = BlockBody blk\<rparr>, d', e'))"
proof -
  have "requestTx en \<lparr>trSender = txSender tx, trNonce = txNonce tx, trOps = txOps tx, trPayload = txPayload tx\<rparr> =
      tx\<lparr>txID := EncodeToString (enID en), txTimestamp := enTxTime en, txKind := []\<rparr>"
    by (simp add: requestTx_def NewTransaction_def)
  with rq body decodeTx_transaction [OF tx] show ?thesis by (simp add: serveHTTP_def handleTx_def)
qed

theorem posted_transaction_committed_witness:
  "\<exists>d e d' e'. reachable exChainCodec d e \<and> eChain e = emptyChain \<and>
     Commit healthy exChainCodec (enTime exEntropy) [exTx [7]] d e = (Inr exFirst, d', e') \<and>
     serveHTTP healthy exChainCodec ''t'' exEntropy exPost d e = (\<lparr>rsCode = 201, rsBody = BlockBody exFirst\<rparr>, d', e')"
proof (rule exFirst_committed)
  fix e d e' d'
  assume a: "Engine_Open healthy exChainCodec False emptyDisk = (Inr e, d)" "eChain e = emptyChain"
    "Commit healthy exChainCodec exNow [exTx [7]] d e = (Inr exFirst, d', e')"
  have m: "rqMethod exPost = ''POST''" "rqBody exPost = Some (bytes_of (json_transaction (exTx [7])))"
    by (simp_all add: exPost_def)
  have r: "readable (exTx [7])" by (simp add: readable_def exTx_def)
  have t: "(exTx [7])\<lparr>txID := EncodeToString (enID exEntropy), txTimestamp := enTxTime exEntropy, txKind := []\<rparr> = exTx [7]"
    by (simp add: exEntropy_def exTx_def exNow_def exHeader_def hex_char_def hexdigits_def)
  have n: "enTime exEntropy = exNow" by (simp add: exEntropy_def)
  from posted_transaction_committed [OF exPost_route m(1,2) exTx_decoded(2) r, of healthy exChainCodec exEntropy d e]
  have "serveHTTP healthy exChainCodec ''t'' exEntropy exPost d e = (\<lparr>rsCode = 201, rsBody = BlockBody exFirst\<rparr>, d', e')"
    by (simp add: t n a(3))
  with a n reachable.opened [OF a(1)] show ?thesis by metis
qed

text \<open>
  C31: A transaction request whose body is a JSON object without a member named \<open>ops\<close> (in any case of its
  letters) is always refused with 400 and changes nothing. So is every commit of the TypeScript client,
  which names its operations \<open>operations\<close>.
\<close>

theorem posts_without_ops_refused:
  assumes rq: "findHandler rq = Endpoint TxEndpoint" "authorised token rq" "rqMethod rq = ''POST''"
    and body: "rqBody rq = Some b" "parseJson b = Some (JObj ms)"
    and ops: "list_all (\<lambda>m. \<not> names (fst m) ''ops'') ms"
  shows "\<exists>r. serveHTTP env cx token en rq d e = (r, d, e) \<and> rsCode r = 400"
proof -
  have "\<exists>x. Commit env cx (enTime en) [requestTx en t] d e = (Inl x, d, e)" if "decodeTx b = Some t" for t
    using decodeTx_no_ops [OF body(2) ops that] by (intro Commit_no_ops) (simp add: requestTx_def NewTransaction_def)
  with rq body(1) show ?thesis by (auto simp: serveHTTP_def handleTx_def split: option.splits)
qed

lemma route_body [simp]:
  "findHandler (rq\<lparr>rqBody := b\<rparr>) = findHandler rq" "authorised token (rq\<lparr>rqBody := b\<rparr>) = authorised token rq"
  by (simp_all add: findHandler_def rqPath_def authorised_def Let_def)

definition exSdkMember :: "string \<times> string \<times> json" where
  "exSdkMember = (''operations'',
     CHR ''['' # json_commas [json_object [json_field ''type'' (json_string ''put''), json_field ''key'' (json_string ''a''),
       json_field ''value'' (json_string ''1'')]] @ '']'',
     JArr [JObj [(''type'', json_string ''put'', JStr ''put''), (''key'', json_string ''a'', JStr ''a''),
       (''value'', json_string ''1'', JStr ''1'')]])"

definition exSdkPost :: request where
  "exSdkPost = exPost\<lparr>rqBody := Some (bytes_of (json_object [member_text exSdkMember]))\<rparr>"

lemma exSdkMember_parsed: "parseJson (bytes_of (json_object [member_text exSdkMember])) = Some (JObj [exSdkMember])"
proof -
  let ?ms = "[(''type'', json_string ''put'', JStr ''put''), (''key'', json_string ''a'', JStr ''a''), (''value'', json_string ''1'', JStr ''1'')]"
  have "list_all (member_ok 0) ?ms" "map member_of ?ms = ?ms" by (simp_all add: plain_member reads_json_string(1))
  with reads_object [of 0 ?ms] have "reads 1 (JObj ?ms) (json_object (map member_text ?ms))" by simp
  with reads_array [of 1 "[JObj ?ms]" "[json_object (map member_text ?ms)]"]
  have "list_all (member_ok 2) [exSdkMember]" "map member_of [exSdkMember] = [exSdkMember]"
    by (simp_all add: exSdkMember_def plain_member member_text_def numeral_2_eq_2)
  with reads_object [of 2 "[exSdkMember]"] have "reads 3 (JObj [exSdkMember]) (json_object [member_text exSdkMember])"
    by (simp add: numeral_3_eq_3 numeral_2_eq_2)
  then show ?thesis by (rule parseJson_reads) simp
qed

theorem posts_without_ops_refused_witness:
  "\<exists>d e r. reachable exChainCodec d e \<and>
     serveHTTP healthy exChainCodec ''t'' exEntropy exSdkPost d e = (r, d, e) \<and> rsCode r = 400"
proof (rule exFirst_committed)
  fix e d
  assume "Engine_Open healthy exChainCodec False emptyDisk = (Inr e, d)"
  then have r: "reachable exChainCodec d e" by (rule reachable.opened)
  have q: "findHandler exSdkPost = Endpoint TxEndpoint" "authorised ''t'' exSdkPost" "rqMethod exSdkPost = ''POST''"
      "rqBody exSdkPost = Some (bytes_of (json_object [member_text exSdkMember]))"
    using exPost_route by (simp_all add: exSdkPost_def exPost_def [THEN arg_cong [of _ _ rqMethod]])
  have o: "list_all (\<lambda>m. \<not> names (fst m) ''ops'') [exSdkMember]" by (simp add: exSdkMember_def names_def)
  from posts_without_ops_refused [OF q exSdkMember_parsed o] r show ?thesis by blast
qed

end
