(* ===== verification/ProofJson.thy ===== *)
theory ProofJson
  imports Merkle JsonDecode
begin

text \<open>
  The JSON text of an inclusion proof (the field tags of \<open>internal/merkle/merkle.go\<close>), written by the
  command \<open>proof-get\<close> with \<open>json.MarshalIndent\<close> and read by \<open>proof-verify\<close> with \<open>json.Unmarshal\<close>.
\<close>

subsection \<open>Writing\<close>

definition indent_step :: "nat \<Rightarrow> ProofStep \<Rightarrow> string" where
  "indent_step d st = indentObject d
     [indentField ''hash'' (json_string (psHash st)), indentField ''left'' (json_bool (psLeft st))]"

text \<open>The path of a proof without steps is nil wherever a proof is written.\<close>

definition indent_proof :: "Proof \<Rightarrow> string" where
  "indent_proof p = indentObject 0
     ([indentField ''key'' (json_string (pKey p))]
      @ (if pValue p = [] then [] else [indentField ''value'' (json_bytes (Some (pValue p)))])
      @ [indentField ''exists'' (json_bool (pExists p))]
      @ (if pLeafHash p = [] then [] else [indentField ''leaf_hash'' (json_string (pLeafHash p))])
      @ [indentField ''root'' (json_string (pRoot p)),
         indentField ''index'' (json_int (pIndex p)),
         indentField ''total'' (json_int (pTotal p)),
         indentField ''path'' (indentArray 1 (map (indent_step 2) (pPath p)))])"

definition encodeProof :: "Proof \<Rightarrow> bytes" where
  "encodeProof p = bytes_of (indent_proof p)"

subsection \<open>Reading\<close>

definition zeroStep :: ProofStep where
  "zeroStep = \<lparr>psHash = [], psLeft = False\<rparr>"

definition storeStepField :: "string \<times> string \<times> json \<Rightarrow> ProofStep \<Rightarrow> ProofStep option" where
  "storeStepField m st =
     (case m of (key, _, v) \<Rightarrow>
        if names key ''hash'' then map_option (\<lambda>s. st\<lparr>psHash := s\<rparr>) (storeString v (psHash st))
        else if names key ''left'' then map_option (\<lambda>b. st\<lparr>psLeft := b\<rparr>) (storeBool v (psLeft st))
        else Some st)"

text \<open>The proof while it is decoded, and the cells of its path beside their number.\<close>

definition storeProofField :: "string \<times> string \<times> json \<Rightarrow> Proof \<times> ProofStep list \<times> nat \<Rightarrow>
    (Proof \<times> ProofStep list \<times> nat) option" where
  "storeProofField m t =
     (case (m, t) of ((key, _, v), (p, path)) \<Rightarrow>
        if names key ''key'' then map_option (\<lambda>s. (p\<lparr>pKey := s\<rparr>, path)) (storeString v (pKey p))
        else if names key ''value'' then map_option (\<lambda>b. (p\<lparr>pValue := slice b\<rparr>, path)) (storeBytes v (Some (pValue p)))
        else if names key ''exists'' then map_option (\<lambda>b. (p\<lparr>pExists := b\<rparr>, path)) (storeBool v (pExists p))
        else if names key ''leaf_hash'' then map_option (\<lambda>s. (p\<lparr>pLeafHash := s\<rparr>, path)) (storeString v (pLeafHash p))
        else if names key ''root'' then map_option (\<lambda>s. (p\<lparr>pRoot := s\<rparr>, path)) (storeString v (pRoot p))
        else if names key ''index'' then map_option (\<lambda>n. (p\<lparr>pIndex := n\<rparr>, path)) (storeInt v (pIndex p))
        else if names key ''total'' then map_option (\<lambda>n. (p\<lparr>pTotal := n\<rparr>, path)) (storeInt v (pTotal p))
        else if names key ''path'' then map_option (\<lambda>path. (p, path)) (storeSlice (storeStruct storeStepField) zeroStep v path)
        else Some (p, path))"

definition zeroProof :: Proof where
  "zeroProof = \<lparr>pKey = [], pValue = [], pExists = False, pLeafHash = [], pRoot = [], pIndex = 0, pTotal = 0, pPath = []\<rparr>"

definition decodeProof :: "bytes \<Rightarrow> Proof option" where
  "decodeProof b = map_option (\<lambda>(p, cells, n). p\<lparr>pPath := take n cells\<rparr>)
     (Unmarshal storeProofField (zeroProof, [], 0) b)"

end
