(* ===== verification/BundleJson.thy ===== *)
theory BundleJson
  imports Domain JsonDecode
begin

text \<open>
  \<open>json.Unmarshal\<close> of an execution bundle (the field tags of \<open>ExecutionBundle\<close> in
  \<open>internal/engine/engine.go\<close>), as the command \<open>execution-commit\<close> reads it. A Go map is the list of its
  entries, one for each key; the order in which the loops visit them is chosen later.
\<close>

definition setEntry :: "string \<Rightarrow> 'a \<Rightarrow> (string \<times> 'a) list \<Rightarrow> (string \<times> 'a) list" where
  "setEntry k v es = filter (\<lambda>e. fst e \<noteq> k) es @ [(k, v)]"

text \<open>
  A field that occurs twice adds to the map it has made; null makes the map nil. Every value is stored
  into a fresh element: \<open>f\<close> reads it from its text and its tree.
\<close>

definition storeMap :: "(string \<Rightarrow> json \<Rightarrow> 'a option) \<Rightarrow> json \<Rightarrow> (string \<times> 'a) list \<Rightarrow> (string \<times> 'a) list option" where
  "storeMap f v old =
     (case v of
        JNull \<Rightarrow> Some []
      | JObj ms \<Rightarrow> foldM (\<lambda>(k, raw, w) es. map_option (\<lambda>x. setEntry k x es) (f raw w)) ms old
      | _ \<Rightarrow> None)"

text \<open>A \<open>json.RawMessage\<close> is the text of the value, also that of null.\<close>

definition rawElem :: "string \<Rightarrow> json \<Rightarrow> bytes option" where
  "rawElem raw v = Some (bytes_of raw)"

definition textElem :: "string \<Rightarrow> json \<Rightarrow> string option" where
  "textElem raw v = storeString v []"

definition storeBundleField :: "string \<times> string \<times> json \<Rightarrow> ExecutionBundle \<Rightarrow> ExecutionBundle option" where
  "storeBundleField m x =
     (case m of (key, _, v) \<Rightarrow>
        if names key ''block_id'' then map_option (\<lambda>s. x\<lparr>xBlockID := s\<rparr>) (storeString v (xBlockID x))
        else if names key ''sender'' then map_option (\<lambda>s. x\<lparr>xSender := s\<rparr>) (storeString v (xSender x))
        else if names key ''nonce'' then map_option (\<lambda>n. x\<lparr>xNonce := of_nat n\<rparr>) (storeUint 64 v (unat (xNonce x)))
        else if names key ''accounts'' then map_option (\<lambda>es. x\<lparr>xAccounts := es\<rparr>) (storeMap rawElem v (xAccounts x))
        else if names key ''contract_code'' then map_option (\<lambda>es. x\<lparr>xContractCode := es\<rparr>) (storeMap textElem v (xContractCode x))
        else if names key ''storage'' then map_option (\<lambda>es. x\<lparr>xStorage := es\<rparr>) (storeMap textElem v (xStorage x))
        else if names key ''receipts'' then map_option (\<lambda>es. x\<lparr>xReceipts := es\<rparr>) (storeMap rawElem v (xReceipts x))
        else if names key ''logs'' then map_option (\<lambda>es. x\<lparr>xLogs := es\<rparr>) (storeMap rawElem v (xLogs x))
        else if names key ''state'' then map_option (\<lambda>es. x\<lparr>xState := es\<rparr>) (storeMap textElem v (xState x))
        else Some x)"

definition zeroBundle :: ExecutionBundle where
  "zeroBundle = \<lparr>xBlockID = [], xSender = [], xNonce = 0, xAccounts = [], xContractCode = [], xStorage = [],
     xReceipts = [], xLogs = [], xState = []\<rparr>"

definition decodeBundle :: "bytes \<Rightarrow> ExecutionBundle option" where
  "decodeBundle = Unmarshal storeBundleField zeroBundle"

subsection \<open>One entry for each key\<close>

lemma setEntry_distinct: "distinct (map fst es) \<Longrightarrow> distinct (map fst (setEntry k v es))"
  by (auto simp: setEntry_def distinct_map inj_on_def)

lemma setEntry_map_of: "map_of (setEntry k v es) = (map_of es)(k \<mapsto> v)"
proof
  fix x
  have "map_of (filter (\<lambda>e. fst e \<noteq> k) es) x = (if x = k then None else map_of es x)" by (induction es) auto
  then show "map_of (setEntry k v es) x = ((map_of es)(k \<mapsto> v)) x" by (simp add: setEntry_def map_add_def split: option.split)
qed

lemma foldM_invariant:
  "foldM f xs s = Some t \<Longrightarrow> P s \<Longrightarrow> (\<And>x s t. x \<in> set xs \<Longrightarrow> P s \<Longrightarrow> f x s = Some t \<Longrightarrow> P t) \<Longrightarrow> P t"
proof (induction xs arbitrary: s)
  case (Cons x xs)
  obtain s' where s': "f x s = Some s'" "foldM f xs s' = Some t" using Cons.prems(1) by (auto split: option.splits)
  have "P s'" using Cons.prems(2,3) s'(1) by auto
  with Cons.IH [OF s'(2)] Cons.prems(3) show ?case by auto
qed simp

lemma storeMap_distinct: "storeMap f v old = Some es \<Longrightarrow> distinct (map fst old) \<Longrightarrow> distinct (map fst es)"
  by (cases v) (auto simp: storeMap_def elim!: foldM_invariant [where P = "\<lambda>es. distinct (map fst es)"] intro: setEntry_distinct)

definition wellBundled :: "ExecutionBundle \<Rightarrow> bool" where
  "wellBundled x \<longleftrightarrow> distinct (map fst (xAccounts x)) \<and> distinct (map fst (xContractCode x)) \<and> distinct (map fst (xStorage x)) \<and>
     distinct (map fst (xReceipts x)) \<and> distinct (map fst (xLogs x)) \<and> distinct (map fst (xState x))"

lemma storeBundleField_well: "storeBundleField m x = Some y \<Longrightarrow> wellBundled x \<Longrightarrow> wellBundled y"
  by (auto simp: storeBundleField_def wellBundled_def split: prod.splits if_splits dest: storeMap_distinct)

lemma decodeBundle_well: "decodeBundle b = Some x \<Longrightarrow> wellBundled x"
proof -
  assume "decodeBundle b = Some x"
  then obtain v where "storeStruct storeBundleField v zeroBundle = Some x" by (auto simp: decodeBundle_def Unmarshal_def split: option.splits)
  moreover have "wellBundled zeroBundle" by (simp add: wellBundled_def zeroBundle_def)
  ultimately show ?thesis
    by (auto simp: storeStruct_def split: json.splits elim: foldM_invariant [where P = wellBundled] intro: storeBundleField_well)
qed

end
