(* ===== verification/Cli.thy ===== *)
theory Cli
  imports Enterprise Domain ProofJson BundleJson
begin

text \<open>
  \<open>internal/cli/cli.go\<close> and \<open>cmd/agidb/main.go\<close>: the command line. The file system is one \<open>tree\<close>, the
  contents of all files by cleaned path; a directory exists when a file is below it, and \<open>cwEmptyDir\<close>
  says which directories exist besides when the command starts. Each run of a command is a process of
  its own: it opens the database directory, works on it and closes it. What the outside supplies
  (failures, empty directories, clock, random bytes, codecs, the order of map ranges and of equal
  elements in sorts) is the record \<open>cliWorld\<close>; what is printed is a value of \<open>report\<close>.
\<close>

record cliWorld =
  cwEnv :: env
  cwCodec :: codec
  cwUnicode :: unicode
  cwConfig :: configCodec
  cwEmptyDir :: "string \<Rightarrow> bool"
  cwVault :: vault
  cwPid :: string
  cwStamp :: stamp
  cwSalt :: bytes
  cwNonce :: bytes
  cwVisit :: "ExecutionBundle \<Rightarrow> ExecutionBundle"
  cwSortOps :: "Operation list \<Rightarrow> Operation list"
  cwModTime :: "string \<Rightarrow> nat"
  cwSortItems :: "item list \<Rightarrow> item list"
  cwRemovable :: "string \<Rightarrow> bool"
  cwBackupsFirst :: bool
  cwBackupName :: string

datatype report =
    HelpText string
  | Silent
  | Initialized string
  | Unchanged u64 string
  | ValueText string
  | StatusJson Status
  | VerifiedLine u64 u64
  | Serving string
  | ExecutionCommitted u64 string nat
  | ProofWritten string
  | ProofVerified string string
  | SnapshotCreated string Snapshot
  | SnapshotVerified string Snapshot
  | BackupCreated string string bool
  | BackupJson backupReport
  | RestoreVerified string u64
  | PolicyCreated string Policy
  | PolicyJson Policy
  | Pruned "(string \<times> nat) list"
  | CompactedJson compactReport
  | MetricsJson Status bool
  | PlanWritten string
  | ReplicaJson replicaReport
  | ClusterCreated string ClusterConfig
  | ClusterJson ClusterConfig
  | LeaderJson ClusterConfig
  | QuorumJson QuorumResult
  | NoLock
  | LockRemoved

type_synonym command = "string list \<Rightarrow> tree \<Rightarrow> (error + report) \<times> tree"

subsection \<open>Arguments\<close>

fun findArg :: "string \<Rightarrow> string list \<Rightarrow> string option" where
  "findArg name (a # b # r) = (if a = name then Some b else findArg name (b # r))"
| "findArg name _ = None"

definition arg :: "string list \<Rightarrow> string \<Rightarrow> string \<Rightarrow> string" where
  "arg args name fallback = (case findArg name (tl args) of None \<Rightarrow> fallback | Some v \<Rightarrow> v)"

definition intArg :: "string list \<Rightarrow> string \<Rightarrow> int \<Rightarrow> int" where
  "intArg args name fallback = (case Atoi (arg args name []) of None \<Rightarrow> fallback | Some n \<Rightarrow> n)"

definition splitCSV :: "unicode \<Rightarrow> string \<Rightarrow> string list" where
  "splitCSV u s =
     (if TrimSpace u s = [] then []
      else filter (\<lambda>p. p \<noteq> []) (map (TrimSpace u) (Split (CHR '','') s)))"

definition dbDir :: "string list \<Rightarrow> string" where
  "dbDir args = arg args ''--dir'' ''./agidb-data''"

subsection \<open>Directories of the file system\<close>

text \<open>\<open>filepath.Join(dir, name)\<close> for a relative \<open>name\<close> is \<open>dirPrefix dir\<close> before the name.\<close>

definition dirPrefix :: "string \<Rightarrow> string" where
  "dirPrefix dir =
     (let c = Clean dir in if c = ''.'' then [] else if c = ''/'' then c else c @ ''/'')"

definition readDir :: "string \<Rightarrow> tree \<Rightarrow> tree" where
  "readDir dir fs = subtree (dirPrefix dir) fs"

definition writeDir :: "string \<Rightarrow> tree \<Rightarrow> tree \<Rightarrow> tree" where
  "writeDir dir t fs =
     fmadd (fmfilter (\<lambda>k. \<not> HasPrefix k (dirPrefix dir)) fs) (prefixed (dirPrefix dir) t)"

definition ReadFile :: "string \<Rightarrow> tree \<Rightarrow> error + bytes" where
  "ReadFile path fs = (case fmlookup fs (Clean path) of None \<Rightarrow> Inl NotExist | Some b \<Rightarrow> Inr b)"

text \<open>
  The directories, by cleaned path: the working directory, its ancestors and the root, the
  directories above a file, and those that hold no file.
\<close>

definition isDir :: "cliWorld \<Rightarrow> tree \<Rightarrow> string \<Rightarrow> bool" where
  "isDir w fs p \<longleftrightarrow> p = ''.'' \<or> p = ''/'' \<or> p = ''..'' \<or> HasSuffix p ''/..'' \<or>
     fBex (fmdom fs) (\<lambda>k. HasPrefix k (p @ ''/'')) \<or> cwEmptyDir w p"

text \<open>The subdirectories that opening a database directory makes, and what is above them.\<close>

definition madeByOpen :: "string \<Rightarrow> string \<Rightarrow> bool" where
  "madeByOpen dir p \<longleftrightarrow>
     (\<exists>sub \<in> set [''data'', ''wal'', ''meta'', ''snapshots'', ''backups'', ''cluster''].
        HasPrefix (dirPrefix dir @ sub @ ''/'') (p @ ''/''))"

text \<open>
  A path that a file can be written to, given the directories there are: what stands before a slash is a
  directory, the whole is none. A failure after the file was created leaves a part of the text in it.
\<close>

definition writablePath :: "(string \<Rightarrow> bool) \<Rightarrow> string \<Rightarrow> bool" where
  "writablePath dirs path \<longleftrightarrow>
     (\<forall>i \<in> set [1..<length path]. path ! i = CHR ''/'' \<longrightarrow> dirs (Clean (take i path))) \<and> \<not> dirs (Clean path)"

definition WriteFile :: "env \<Rightarrow> (string \<Rightarrow> bool) \<Rightarrow> string \<Rightarrow> bytes \<Rightarrow> tree \<Rightarrow> (error + unit) \<times> tree" where
  "WriteFile env dirs path b fs =
     (if \<not> writablePath dirs path \<or> fails env FileCreate then (Inl (IOFailed FileCreate), fs)
      else if fails env FileWrite
        then (Inl (IOFailed FileWrite), fmupd (Clean path) (take (shortWrite env) b) fs)
      else (Inr (), fmupd (Clean path) b fs))"

definition onTree :: "string \<Rightarrow> (tree \<Rightarrow> 'a \<times> tree) \<Rightarrow> tree \<Rightarrow> 'a \<times> tree" where
  "onTree dir f fs = (case f (readDir dir fs) of (r, t) \<Rightarrow> (r, writeDir dir t fs))"

definition onDisk :: "cliWorld \<Rightarrow> string \<Rightarrow> (disk \<Rightarrow> 'a \<times> disk) \<Rightarrow> tree \<Rightarrow> 'a \<times> tree" where
  "onDisk w dir f =
     onTree dir (\<lambda>t. case f (diskOf t) of (r, d) \<Rightarrow> (r, putDisk (cwPid w) d t))"

text \<open>Opening the engine in a directory, the body of a command, and the deferred closing.\<close>

definition withEngine :: "cliWorld \<Rightarrow> string \<Rightarrow>
    (disk \<Rightarrow> Engine \<Rightarrow> (error + 'a) \<times> disk \<times> Engine) \<Rightarrow> tree \<Rightarrow> (error + 'a) \<times> tree" where
  "withEngine w dir body = onDisk w dir
     (\<lambda>d. case Engine_Open (cwEnv w) (cwCodec w) True d of
            (Inl x, d) \<Rightarrow> (Inl x, d)
          | (Inr e, d) \<Rightarrow> (case body d e of
              (r, d, e) \<Rightarrow> (r, fst (snd (Engine_Close (cwEnv w) d e)))))"

text \<open>
  The same for a body that works on the files beside the database, while it is open: the three
  steps on the whole file system, one after the other.
\<close>

definition openIn :: "cliWorld \<Rightarrow> string \<Rightarrow> tree \<Rightarrow> (error + Engine) \<times> tree" where
  "openIn w dir = onDisk w dir (Engine_Open (cwEnv w) (cwCodec w) True)"

definition closeIn :: "cliWorld \<Rightarrow> string \<Rightarrow> Engine \<Rightarrow> tree \<Rightarrow> tree" where
  "closeIn w dir e fs = snd (onDisk w dir (\<lambda>d. ((), fst (snd (Engine_Close (cwEnv w) d e)))) fs)"

definition withEngineFiles :: "cliWorld \<Rightarrow> string \<Rightarrow> (Engine \<Rightarrow> tree \<Rightarrow> (error + 'a) \<times> tree) \<Rightarrow> tree \<Rightarrow>
    (error + 'a) \<times> tree" where
  "withEngineFiles w dir body fs =
     (case openIn w dir fs of
        (Inl x, fs) \<Rightarrow> (Inl x, fs)
      | (Inr e, fs) \<Rightarrow> (case body e fs of (r, fs) \<Rightarrow> (r, closeIn w dir e fs)))"

text \<open>A body that only reads.\<close>

definition reading :: "(disk \<Rightarrow> Engine \<Rightarrow> error + 'a) \<Rightarrow> disk \<Rightarrow> Engine \<Rightarrow> (error + 'a) \<times> disk \<times> Engine" where
  "reading f d e = (f d e, d, e)"

subsection \<open>Database commands\<close>

definition noChange :: "Engine \<Rightarrow> error + 'a \<Rightarrow> error + report" where
  "noChange e r =
     (case r of
        Inl x \<Rightarrow> if x = NoStateChange
                 then Inr (Unchanged (of_nat (length (cBlocks (eChain e)))) (StateRoot (cState (eChain e))))
                 else Inl x
      | Inr _ \<Rightarrow> Inr Silent)"

definition initDB :: "cliWorld \<Rightarrow> command" where
  "initDB w args = withEngine w (dbDir args) (reading (\<lambda>d e. Inr (Initialized (dbDir args))))"

definition commitOne :: "cliWorld \<Rightarrow> Operation \<Rightarrow> disk \<Rightarrow> Engine \<Rightarrow> (error + report) \<times> disk \<times> Engine" where
  "commitOne w op d e =
     (let t = cwStamp w in
      case Commit (cwEnv w) (cwCodec w) (sBlockTime t)
             [NewTransaction (sRandom t) (sTxTime t) [op] ''cli'' 0 []] d e of
        (r, d, e) \<Rightarrow> (noChange e r, d, e))"

definition put :: "cliWorld \<Rightarrow> command" where
  "put w args fs =
     (if length args < 3 then (Inl (Usage ''put''), fs)
      else withEngine w (dbDir args) (commitOne w
             \<lparr>opKey = args ! 1, opValue = Some (bytes_of (args ! 2)), opDelete = False\<rparr>) fs)"

definition del :: "cliWorld \<Rightarrow> command" where
  "del w args fs =
     (if length args < 2 then (Inl (Usage ''delete''), fs)
      else withEngine w (dbDir args) (commitOne w \<lparr>opKey = args ! 1, opValue = None, opDelete = True\<rparr>) fs)"

definition get :: "cliWorld \<Rightarrow> command" where
  "get w args fs =
     (if length args < 2 then (Inl (Usage ''get''), fs)
      else withEngine w (dbDir args) (reading (\<lambda>d e.
             let h = intArg args ''--height'' 0;
                 v = (if 0 < h then GetAt e (args ! 1) (of_int h)
                      else if snd (Get e (args ! 1)) then Some (fst (Get e (args ! 1))) else None)
             in case v of None \<Rightarrow> Inl NotExist | Some v \<Rightarrow> Inr (ValueText (string_of v)))) fs)"

definition status :: "cliWorld \<Rightarrow> command" where
  "status w args = withEngine w (dbDir args) (reading (\<lambda>d e. Inr (StatusJson (Engine_Status (cwEnv w) d e))))"

definition verify :: "cliWorld \<Rightarrow> command" where
  "verify w args = withEngine w (dbDir args) (reading (\<lambda>d e.
     case Verify e of
       Inl x \<Rightarrow> Inl x
     | Inr _ \<Rightarrow> let s = Engine_Status (cwEnv w) d e in Inr (VerifiedLine (stHeight s) (stTransactions s))))"

text \<open>The server runs until the process ends; the directory stays open and locked.\<close>

definition serve :: "cliWorld \<Rightarrow> command" where
  "serve w args fs =
     (if arg args ''--airgap'' [] \<noteq> [] then (Inl AirgapRefused, fs)
      else onDisk w (dbDir args) (\<lambda>d.
        case Engine_Open (cwEnv w) (cwCodec w) False d of
          (Inl x, d) \<Rightarrow> (Inl x, d)
        | (Inr e, d) \<Rightarrow> (Inr (Serving (arg args ''--addr'' ''127.0.0.1:7319'')), d)) fs)"

definition executionCommit :: "cliWorld \<Rightarrow> command" where
  "executionCommit w args fs =
     (let path = arg args ''--file'' [] in
      if path = [] then (Inl (FlagRequired ''--file''), fs)
      else case ReadFile path fs of
          Inl x \<Rightarrow> (Inl x, fs)
        | Inr b \<Rightarrow> (case decodeBundle b of
            None \<Rightarrow> (Inl JSONDecodeFailed, fs)
          | Some x \<Rightarrow> withEngine w (dbDir args) (\<lambda>d e.
              case CommitExecution (cwUnicode w) (cwSortOps w) (cwEnv w) (cwCodec w) (cwStamp w) (cwVisit w x) d e of
                (Inl err, d, e) \<Rightarrow> (noChange e (Inl err :: error + unit), d, e)
              | (Inr blk, d, e) \<Rightarrow> (Inr (ExecutionCommitted (hHeight (bHeader blk)) (hRecordHash (bHeader blk))
                  (length (txOps (bTransactions blk ! 0)))), d, e)) fs))"

definition proofGet :: "cliWorld \<Rightarrow> command" where
  "proofGet w args fs =
     (if length args < 2 then (Inl (Usage ''proof-get''), fs)
      else let out = arg args ''--out'' [] in
        if out = [] then (Inl (FlagRequired ''--out''), fs)
        else withEngineFiles w (dbDir args) (\<lambda>e files.
               let p = Engine_StateProof e (args ! 1) in
               if \<not> pExists p then (Inl (KeyNotFound (args ! 1)), files)
               else case WriteFile (cwEnv w) (\<lambda>q. isDir w fs q \<or> madeByOpen (dbDir args) q) out (encodeProof p) files of
                   (Inl x, files) \<Rightarrow> (Inl x, files)
                 | (Inr _, files) \<Rightarrow> (Inr (ProofWritten out), files)) fs)"

definition proofVerify :: "cliWorld \<Rightarrow> command" where
  "proofVerify w args fs =
     (if length args < 2 then Inl (Usage ''proof-verify'')
      else case ReadFile (args ! 1) fs of
          Inl x \<Rightarrow> Inl x
        | Inr b \<Rightarrow> (case decodeProof b of
            None \<Rightarrow> Inl JSONDecodeFailed
          | Some p \<Rightarrow> if VerifyProof p then Inr (ProofVerified (pKey p) (pRoot p)) else Inl ProofFailed), fs)"

definition snapshot :: "cliWorld \<Rightarrow> command" where
  "snapshot w args = withEngine w (dbDir args) (\<lambda>d e.
     case Engine_Snapshot (cwEnv w) (cwCodec w) (sBlockTime (cwStamp w)) d e of
       (Inl x, d) \<Rightarrow> (Inl x, d, e)
     | (Inr (name, s), d) \<Rightarrow>
         (Inr (SnapshotCreated (dirPrefix (dbDir args) @ ''snapshots/'' @ name) s), d, e))"

text \<open>The path may be any file: the engine reads it where it is.\<close>

definition snapshotVerify :: "cliWorld \<Rightarrow> command" where
  "snapshotVerify w args fs =
     (if length args < 2 then (Inl (Usage ''snapshot-verify''), fs)
      else let path = (if args ! 1 = [] then [] else Clean (args ! 1)) in
        withEngineFiles w (dbDir args) (\<lambda>e files.
          (case VerifySnapshot (cwEnv w) (cwCodec w) (emptyDisk\<lparr>dSnapshots := files\<rparr>) path of
             Inl x \<Rightarrow> Inl x | Inr s \<Rightarrow> Inr (SnapshotVerified (args ! 1) s), files)) fs)"

subsection \<open>Enterprise commands\<close>

text \<open>
  The output file is made with the directories above it before the walk, which then finds the database
  directory if it is one of them. A path that ends in a slash names a directory.
\<close>

definition backup :: "cliWorld \<Rightarrow> command" where
  "backup w args fs =
     (let dir = dbDir args; t = readDir dir fs; pass = arg args ''--passphrase'' [];
          out = (if arg args ''--out'' [] = [] then dirPrefix dir @ ''backups/'' @ cwBackupName w
                 else arg args ''--out'' [])
      in if \<not> isDir w fs (Clean dir) \<and> \<not> HasPrefix (Clean out) (dirPrefix dir) then (Inl NotExist, fs)
         else case Backup (cwEnv w) (cwVault w) (cwSalt w) (cwNonce w) pass t of
             Inl x \<Rightarrow> (Inl x, fs)
           | Inr (payload, digest) \<Rightarrow>
              if isDir w fs (Clean out) \<or> HasSuffix out ''/'' then (Inl (PathConflict out), fs)
              else (case atomicWrite (cwEnv w) (Clean out) payload fs of
                 (Inl x, fs) \<Rightarrow> (Inl x, fs)
               | (Inr _, fs) \<Rightarrow> (Inr (BackupCreated out digest (pass \<noteq> [])), fs)))"

definition backupVerify :: "cliWorld \<Rightarrow> command" where
  "backupVerify w args fs =
     (if length args < 2 then Inl (Usage ''backup-verify'')
      else case ReadFile (args ! 1) fs of
          Inl x \<Rightarrow> Inl x
        | Inr b \<Rightarrow> (case VerifyBackup (cwVault w) b (arg args ''--passphrase'' []) of
            Inl x \<Rightarrow> Inl x | Inr r \<Rightarrow> Inr (BackupJson r)), fs)"

text \<open>
  What a restore finds at its target: a directory, with or without files, or a file, which has no
  entries. The temporary directory is the target's name with a suffix, so a target that ends in a slash
  holds its own temporary directory and is there by the time of the rename. A file above the target is
  in the way of that directory.
\<close>

definition existingDir :: "cliWorld \<Rightarrow> string \<Rightarrow> tree \<Rightarrow> tree option" where
  "existingDir w target fs =
     (if isDir w fs (Clean target) \<or> fmlookup fs (Clean target) \<noteq> None \<or>
         HasPrefix (Clean (target @ ''.restore.tmp'')) (Clean target @ ''/'')
      then Some (readDir target fs) else None)"

definition restoreEnv :: "cliWorld \<Rightarrow> string \<Rightarrow> tree \<Rightarrow> env" where
  "restoreEnv w target fs =
     (cwEnv w)\<lparr>fails := \<lambda>c. fails (cwEnv w) c \<or> c = RestoreMkdir \<and>
        fBex (fmdom fs) (\<lambda>k. HasPrefix (Clean (target @ ''.restore.tmp'')) (k @ ''/''))\<rparr>"

definition restore :: "cliWorld \<Rightarrow> command" where
  "restore w args fs =
     (if length args < 2 then (Inl (Usage ''restore''), fs)
      else let target = arg args ''--target'' []; pass = arg args ''--passphrase'' [] in
        if target = [] then (Inl TargetRequired, fs)
        else if (case existingDir w target fs of None \<Rightarrow> False | Some t \<Rightarrow> t \<noteq> fmempty) then (Inl TargetNotEmpty, fs)
        else case ReadFile (args ! 1) fs of
            Inl x \<Rightarrow> (Inl x, fs)
          | Inr b \<Rightarrow> (case RestoreBackup (restoreEnv w target fs) (cwVault w) b target (existingDir w target fs) pass of
              Inl x \<Rightarrow> (Inl x, fs)
            | Inr t \<Rightarrow> withEngine w target (reading (\<lambda>d e.
                case Verify e of
                  Inl x \<Rightarrow> Inl x
                | Inr _ \<Rightarrow> Inr (RestoreVerified target (stHeight (Engine_Status (cwEnv w) d e)))))
                (writeDir target t fs)))"

definition policyInit :: "cliWorld \<Rightarrow> command" where
  "policyInit w args =
     (let p = (DefaultPolicy (sTxTime (cwStamp w)))\<lparr>plMode := arg args ''--mode'' ''archive''\<rparr>
      in onTree (dbDir args) (\<lambda>t.
        case WritePolicy (cwEnv w) (cwConfig w) (sBlockTime (cwStamp w)) p t of
          (Inl x, t) \<Rightarrow> (Inl x, t)
        | (Inr path, t) \<Rightarrow> (Inr (PolicyCreated (dirPrefix (dbDir args) @ path) p), t)))"

definition policyShow :: "cliWorld \<Rightarrow> command" where
  "policyShow w args fs =
     (case ReadPolicy (cwConfig w) (sTxTime (cwStamp w)) (readDir (dbDir args) fs) of
        Inl x \<Rightarrow> Inl x | Inr p \<Rightarrow> Inr (PolicyJson p), fs)"

text \<open>The files of a subdirectory, which exists in every directory that was opened once.\<close>

definition dirItems :: "cliWorld \<Rightarrow> string \<Rightarrow> tree \<Rightarrow> item list" where
  "dirItems w sub t =
     map (\<lambda>k. (drop (Suc (length sub)) k, cwModTime w k))
       (filter (\<lambda>k. HasPrefix k (sub @ ''/'') \<and> CHR ''/'' \<notin> set (drop (Suc (length sub)) k))
          (sorted_list_of_fset (fmdom t)))"

definition prune :: "cliWorld \<Rightarrow> command" where
  "prune w args =
     (let keeps = [(''snapshots'', intArg args ''--keep-snapshots'' 8), (''backups'', intArg args ''--keep-backups'' 8)];
          subs = (if cwBackupsFirst w then rev keeps else keeps)
      in onTree (dbDir args) (\<lambda>t.
        case PruneFiles (cwSortItems w) (cwRemovable w) subs
               (fmap_of_list (if t = fmempty then [] else map (\<lambda>(sub, _). (sub, dirItems w sub t)) keeps)) of
          (r, dirs) \<Rightarrow>
            ((case r of Inl x \<Rightarrow> Inl x | Inr out \<Rightarrow> Inr (Pruned out)),
             fmfilter (\<lambda>k. \<forall>(sub, _) \<in> set keeps. \<forall>it \<in> set (dirItems w sub t).
               k = sub @ ''/'' @ fst it \<longrightarrow> it \<in> set (case fmlookup dirs sub of None \<Rightarrow> [] | Some l \<Rightarrow> l)) t)))"

definition compact :: "cliWorld \<Rightarrow> command" where
  "compact w args = onDisk w (dbDir args) (\<lambda>d.
     case Compact (cwEnv w) (cwCodec w) d of
       (Inl x, d) \<Rightarrow> (Inl x, d) | (Inr r, d) \<Rightarrow> (Inr (CompactedJson r), d))"

definition metrics :: "cliWorld \<Rightarrow> command" where
  "metrics w args = withEngine w (dbDir args) (reading (\<lambda>d e.
     Inr (MetricsJson (Engine_Status (cwEnv w) d e) (\<not> isl (Verify e)))))"

definition migratePlan :: "cliWorld \<Rightarrow> command" where
  "migratePlan w args fs =
     (case withEngine w (dbDir args) (reading (\<lambda>d e. Inr (Engine_Status (cwEnv w) d e, \<not> isl (Verify e)))) fs of
        (Inl x, fs) \<Rightarrow> (Inl x, fs)
      | (Inr (s, ok), fs) \<Rightarrow>
         (case MigrationReport (cwEnv w) (cwUnicode w)
                 \<lparr>mpSource = dbDir args, mpTarget = arg args ''--target'' ''AGI5'', mpTime = sTxTime (cwStamp w),
                  mpFormat = stFormatVersion s, mpHeight = stHeight s, mpTransactions = stTransactions s,
                  mpVerified = ok\<rparr> fs of
            (Inl x, fs) \<Rightarrow> (Inl x, fs) | (Inr path, fs) \<Rightarrow> (Inr (PlanWritten path), fs)))"

definition replicaBootstrap :: "cliWorld \<Rightarrow> command" where
  "replicaBootstrap w args fs =
     (let target = arg args ''--target'' [] in
      if target = [] then (Inl (FlagRequired ''--target''), fs)
      else if \<not> isDir w fs (Clean (dbDir args)) then (Inl NotExist, fs)
      else case BootstrapReplica (cwPid w) (restoreEnv w target fs) (cwVault w) (cwCodec w) (readDir (dbDir args) fs)
                  target (existingDir w target fs) of
          (r, t) \<Rightarrow>
            ((case r of Inl x \<Rightarrow> Inl x | Inr rep \<Rightarrow> Inr (ReplicaJson rep)),
             (case t of None \<Rightarrow> fs | Some t \<Rightarrow> writeDir target t fs)))"

definition clusterInit :: "cliWorld \<Rightarrow> command" where
  "clusterInit w args fs =
     (if length args < 2 then (Inl (Usage ''cluster-init''), fs)
      else onTree (dbDir args) (\<lambda>t.
        case InitCluster (cwEnv w) (cwConfig w) (sTxTime (cwStamp w)) (args ! 1)
               (splitCSV (cwUnicode w) (arg args ''--peers'' [])) t of
          (Inl x, t) \<Rightarrow> (Inl x, t)
        | (Inr c, t) \<Rightarrow> (Inr (ClusterCreated (dirPrefix (dbDir args) @ clusterPath) c), t)) fs)"

definition clusterStatus :: "cliWorld \<Rightarrow> command" where
  "clusterStatus w args fs =
     (case ReadCluster (cwConfig w) (readDir (dbDir args) fs) of Inl x \<Rightarrow> Inl x | Inr c \<Rightarrow> Inr (ClusterJson c), fs)"

definition leaderElect :: "cliWorld \<Rightarrow> command" where
  "leaderElect w args = onTree (dbDir args) (\<lambda>t.
     case ElectLeader (cwEnv w) (cwConfig w) (sTxTime (cwStamp w))
            (splitCSV (cwUnicode w) (arg args ''--candidates'' [])) t of
       (Inl x, t) \<Rightarrow> (Inl x, t) | (Inr c, t) \<Rightarrow> (Inr (LeaderJson c), t))"

definition quorumTest :: "cliWorld \<Rightarrow> command" where
  "quorumTest w args fs =
     (case ReadCluster (cwConfig w) (readDir (dbDir args) fs) of
        Inl x \<Rightarrow> Inl x
      | Inr c \<Rightarrow> Inr (QuorumJson (SimulateQuorum c (intArg args ''--nodes'' (int (length (ccPeers c)) + 1))
                   (intArg args ''--acks'' 0))), fs)"

definition unlock :: "cliWorld \<Rightarrow> command" where
  "unlock w args = onTree (dbDir args) (\<lambda>t.
     case Unlock t of
       (Inl x, t) \<Rightarrow> (if x = NotExist then Inr NoLock else Inl x, t)
     | (Inr _, t) \<Rightarrow> (Inr LockRemoved, t))"

subsection \<open>Dispatch\<close>

text \<open>The text that \<open>help\<close> prints, for no arguments and, before the error, for an unknown command.\<close>

definition helpLines :: "string list" where
  "helpLines =
     [''AGIDB On-Chain public preview'',
      [],
      ''Commands:'',
      ''  init, put, delete, get, status, verify, serve'',
      ''  execution-commit, proof-get, proof-verify'',
      ''  snapshot, snapshot-verify'',
      ''  backup, backup-verify, restore'',
      ''  policy-init, policy-show, prune, compact, metrics, migrate-plan'',
      ''  replica-bootstrap, cluster-init, cluster-status, leader-elect, quorum-test, unlock'']"

definition helpText :: string where
  "helpText = Join (CHR 0x0A) helpLines"

definition commands :: "cliWorld \<Rightarrow> (string \<times> command) list" where
  "commands w =
     [(''init'', initDB w), (''put'', put w), (''delete'', del w), (''get'', get w), (''status'', status w),
      (''verify'', verify w), (''serve'', serve w), (''execution-commit'', executionCommit w),
      (''proof-get'', proofGet w), (''proof-verify'', proofVerify w), (''snapshot'', snapshot w),
      (''snapshot-verify'', snapshotVerify w), (''backup'', backup w), (''backup-verify'', backupVerify w),
      (''restore'', restore w), (''policy-init'', policyInit w), (''policy-show'', policyShow w),
      (''prune'', prune w), (''compact'', compact w), (''metrics'', metrics w), (''migrate-plan'', migratePlan w),
      (''replica-bootstrap'', replicaBootstrap w), (''cluster-init'', clusterInit w),
      (''cluster-status'', clusterStatus w), (''leader-elect'', leaderElect w), (''quorum-test'', quorumTest w),
      (''unlock'', unlock w)]"

definition Run :: "cliWorld \<Rightarrow> command" where
  "Run w args fs =
     (if args = [] then (Inr (HelpText helpText), fs)
      else case map_of (commands w) (hd args) of
          None \<Rightarrow> (Inl (UnknownCommand (hd args)), fs)
        | Some f \<Rightarrow> f args fs)"

text \<open>\<open>main\<close>: the exit code of the process.\<close>

definition main :: "cliWorld \<Rightarrow> string list \<Rightarrow> tree \<Rightarrow> nat \<times> tree" where
  "main w args fs = (case Run w args fs of (r, fs) \<Rightarrow> (if isl r then 1 else 0, fs))"

end
