(* ===== verification/ProofJsonProofs.thy ===== *)
theory ProofJsonProofs
  imports ProofJson JsonDecodeProofs
begin

text \<open>
  The file of an inclusion proof: what \<open>proof-get\<close> writes is read back, except that a key which is
  not valid UTF-8 comes back as another key.
\<close>

subsection \<open>Inclusion proofs\<close>

definition stepMembers :: "ProofStep \<Rightarrow> (string \<times> string \<times> json) list" where
  "stepMembers st = [(''hash'', json_string (psHash st), JStr (psHash st)), (''left'', json_bool (psLeft st), JBool (psLeft st))]"

lemma reads_step:
  assumes "validUTF8 (psHash st)"
  shows "reads (Suc d) (JObj (stepMembers st)) (indent_step e st)"
proof -
  have "list_all (member_ok d) (stepMembers st)" "map member_of (stepMembers st) = stepMembers st"
    using assms by (simp_all add: stepMembers_def plain_member reads_json_string(1) reads_bool)
  with reads_indentObject [of d "stepMembers st" e] show ?thesis by (simp add: stepMembers_def indent_step_def)
qed

lemma store_stepMembers: "storeStruct storeStepField (JObj (stepMembers st)) zeroStep = Some st"
  by (simp add: storeStruct_def stepMembers_def storeStepField_def names_def zeroStep_def storeString_def storeBool_def)

definition pathTree :: "ProofStep list \<Rightarrow> json" where
  "pathTree path = (if path = [] then JNull else JArr (map (\<lambda>st. JObj (stepMembers st)) path))"

lemma reads_path:
  assumes "list_all (\<lambda>st. validUTF8 (psHash st)) path"
  shows "reads (Suc (Suc d)) (pathTree path) (indentArray e (map (indent_step f) path))"
proof (cases "path = []")
  case False
  have "list_all2 (reads (Suc d)) (map (\<lambda>st. JObj (stepMembers st)) path) (map (indent_step f) path)"
    using assms reads_step by (simp add: list_all2_conv_all_nth list_all_length)
  with False reads_indentArray show ?thesis by (simp add: pathTree_def)
qed (simp add: pathTree_def indentArray_def reads_null)

lemma store_pathTree: "storeSlice (storeStruct storeStepField) zeroStep (pathTree path) ([], 0) = Some (path, length path)"
proof -
  have "storeElements (storeStruct storeStepField) zeroStep (map (\<lambda>st. JObj (stepMembers st)) path) [] = Some path"
    by (induction path) (simp_all add: store_stepMembers)
  then show ?thesis by (simp add: storeSlice_def pathTree_def)
qed

text \<open>What survives the trip: texts in UTF-8 and counts in range.\<close>

definition writable :: "Proof \<Rightarrow> bool" where
  "writable p \<longleftrightarrow> validUTF8 (pKey p) \<and> validUTF8 (pLeafHash p) \<and> validUTF8 (pRoot p) \<and>
     list_all (\<lambda>st. validUTF8 (psHash st)) (pPath p) \<and>
     0 \<le> pIndex p \<and> pIndex p < 2 ^ 63 \<and> 0 \<le> pTotal p \<and> pTotal p < 2 ^ 63"

definition proofMembers :: "string \<Rightarrow> Proof \<Rightarrow> (string \<times> string \<times> json) list" where
  "proofMembers key p =
     [(''key'', json_string (pKey p), JStr key)]
     @ (if pValue p = [] then [] else [(''value'', json_bytes (Some (pValue p)), bytesTree (Some (pValue p)))])
     @ [(''exists'', json_bool (pExists p), JBool (pExists p))]
     @ (if pLeafHash p = [] then [] else [(''leaf_hash'', json_string (pLeafHash p), JStr (pLeafHash p))])
     @ [(''root'', json_string (pRoot p), JStr (pRoot p)),
        (''index'', json_int (pIndex p), JNum (dec (nat (pIndex p)))),
        (''total'', json_int (pTotal p), JNum (dec (nat (pTotal p)))),
        (''path'', indentArray 1 (map (indent_step 2) (pPath p)), pathTree (pPath p))]"

lemma indent_proof_members: "indent_proof p = indentObject 0 (map (\<lambda>(k, s, v). indentField k s) (proofMembers key p))"
  by (simp add: indent_proof_def proofMembers_def)

lemma reads_proof:
  assumes "writable (p\<lparr>pKey := []\<rparr>)" and "reads (Suc (Suc d)) (JStr key) (json_string (pKey p))"
  shows "reads (Suc (Suc (Suc d))) (JObj (proofMembers key p)) (indent_proof p)"
proof -
  let ?d = "Suc (Suc d)"
  have "list_all (member_ok ?d) (proofMembers key p)" "map member_of (proofMembers key p) = proofMembers key p"
    using assms reads_path [of "pPath p" d 1 2]
    by (simp_all add: proofMembers_def plain_member reads_json_string(1) reads_json_bytes reads_bool json_int_def reads_dec writable_def)
  with reads_indentObject [of ?d "proofMembers key p" 0] show ?thesis
    unfolding indent_proof_members [of p key] by (simp add: proofMembers_def)
qed

lemma foldM_proofMembers:
  assumes "0 \<le> pIndex p" "pIndex p < 2 ^ 63" "0 \<le> pTotal p" "pTotal p < 2 ^ 63"
  shows "foldM storeProofField (proofMembers key p) (zeroProof, [], 0) =
    Some (p\<lparr>pKey := key, pPath := []\<rparr>, pPath p, length (pPath p))"
proof -
  have n: "storeInt (JNum (dec (nat k))) old = Some k" if "0 \<le> k" "k < 2 ^ 63" for k old
    using that storeInt_dec [of "nat k"] by (simp add: nat_less_iff)
  show ?thesis
    using assms by (simp add: proofMembers_def foldM_append storeProofField_def names_def zeroProof_def storeString_def storeBool_def
        n store_pathTree storeBytes_bytesTree)
qed

lemma decodeProof_encodeProof_key:
  assumes "writable (p\<lparr>pKey := []\<rparr>)" and "reads 2 (JStr key) (json_string (pKey p))"
  shows "decodeProof (encodeProof p) = Some (p\<lparr>pKey := key\<rparr>)"
proof -
  have "reads 3 (JObj (proofMembers key p)) (indent_proof p)"
    using reads_proof [OF assms(1), of 0 key] assms(2) by (simp add: numeral_2_eq_2 numeral_3_eq_3)
  then have "parseJson (encodeProof p) = Some (JObj (proofMembers key p))"
    unfolding encodeProof_def by (rule parseJson_reads) simp
  with assms(1) show ?thesis by (simp add: decodeProof_def Unmarshal_def storeStruct_def foldM_proofMembers writable_def)
qed

theorem decodeProof_encodeProof:
  assumes "writable p"
  shows "decodeProof (encodeProof p) = Some p"
proof -
  have "writable (p\<lparr>pKey := []\<rparr>)" "reads 2 (JStr (pKey p)) (json_string (pKey p))"
    using assms reads_json_string(1) by (simp_all add: writable_def)
  from decodeProof_encodeProof_key [OF this] show ?thesis by simp
qed

subsection \<open>The proofs of the engine\<close>

lemma proofPath_hashes: "list_all (\<lambda>st. validUTF8 (psHash st)) (proofPath level pos)"
proof (induction level pos rule: proofPath.induct)
  case (1 level pos)
  then show ?case
    by (subst proofPath.simps) (simp add: validUTF8_plain plain_EncodeToString Let_def)
qed

lemma StateProof_writable:
  assumes "fmlookup s key = Some v" and "fcard (fmdom s) < 2 ^ 63"
  shows "writable ((StateProof s key)\<lparr>pKey := k\<rparr>) \<longleftrightarrow> validUTF8 k"
proof -
  have "key \<in> fmdom' s" using assms(1) by (simp add: fmlookup_dom'_iff)
  note P = StateProof_present [OF this]
  have "stateLeaves s \<noteq> []" using P(1) by (auto simp flip: length_0_conv)
  then have r: "validUTF8 (StateRoot s)"
    by (simp add: StateRoot_alt Root_nonempty validUTF8_plain plain_EncodeToString)
  have "length (stateKeys s) = fcard (fmdom s)"
    using distinct_card [OF distinct_stateKeys, of s] by (simp add: fmdom'_alt_def fcard.rep_eq)
  then show ?thesis using assms(2) P(1) r
    by (simp add: P(3) writable_def proofPath_hashes validUTF8_plain plain_EncodeToString)
qed

text \<open>The key that comes back.\<close>

definition readKey :: "string \<Rightarrow> string" where
  "readKey key = unquote (json_chars key)"

lemma readKey: "validUTF8 key \<Longrightarrow> readKey key = key" "\<not> validUTF8 key \<Longrightarrow> readKey key \<noteq> key"
  using validUTF8_read [of key] by (auto simp: readKey_def unquote_json_chars)

lemma proof_file_read:
  assumes "fmlookup s key = Some v" and "fcard (fmdom s) < 2 ^ 63"
  shows "decodeProof (encodeProof (StateProof s key)) = Some ((StateProof s key)\<lparr>pKey := readKey key\<rparr>)"
proof (rule decodeProof_encodeProof_key)
  show "writable ((StateProof s key)\<lparr>pKey := []\<rparr>)" using StateProof_writable [OF assms] by simp
  have "pKey (StateProof s key) = key" by (simp add: StateProof_def Let_def)
  then show "reads 2 (JStr (readKey key)) (json_string (pKey (StateProof s key)))"
    using reads_string [OF strPiece_json_chars] by (simp add: readKey_def json_string_def)
qed

lemma proof_file_verifies:
  assumes "fmlookup s key = Some v"
  shows "VerifyProof ((StateProof s key)\<lparr>pKey := k\<rparr>) \<longleftrightarrow> sha256 (leafBytes k v) = sha256 (leafBytes key v)"
proof -
  have "key \<in> fmdom' s" and v: "lookup0 s key = v" using assms by (simp_all add: fmlookup_dom'_iff lookup0_def)
  note P = StateProof_present [OF this(1)]
  have leaf: "map sha256 (stateLeaves s) ! SearchStrings (stateKeys s) key = sha256 (leafBytes key v)" using P(1,2) v by simp
  have "VerifyProof (StateProof s key)" using StateProof_correct assms by simp
  then show ?thesis unfolding P(3) VerifyProof_def by (auto simp: leaf v Let_def split: option.splits)
qed

lemma leafBytes_key: "leafBytes k v = leafBytes key v \<longleftrightarrow> k = key"
  by (simp add: leafBytes_def)

end
