(* ===== verification/CliProofs.thy ===== *)
theory CliProofs
  imports Cli EnterpriseProofs ProofJsonProofs
begin

text \<open>
  What the command line promises: the files of a directory and the disk that the storage layer works on
  are two views of the same thing, and what one process puts the next one gets.
\<close>

subsection \<open>The help text\<close>

text \<open>It names every command that \<open>Run\<close> dispatches, in the order of the cases, and no other.\<close>

lemma help_lists_commands:
  "concat (map (splitCSV u) (drop 3 helpLines)) = map fst (commands w)"
proof -
  have t: "TrimSpace u s = rev (dropWhile isSpace (rev (dropWhile isSpace s)))" if "isASCII s" for s
    using that by (simp add: TrimSpace_def)
  show ?thesis
    by (simp add: helpLines_def commands_def splitCSV_def t isASCII_def isSpace_def)
qed

subsection \<open>Trees, directories and disks\<close>

lemma HasPrefix_drop: "HasPrefix k p \<Longrightarrow> p @ drop (length p) k = k"
  by (auto simp: HasPrefix_iff)

lemma fmlookup_keyed:
  assumes "inj f"
  shows "fmlookup (fmap_of_list (map (\<lambda>k. (f k, g k)) ks)) (f x) = (if x \<in> set ks then Some (g x) else None)"
  using assms by (induction ks) (auto simp: fmlookup_of_list inj_eq)

lemma fmlookup_prefixed:
  "fmlookup (prefixed p m) k = (if HasPrefix k p then fmlookup m (drop (length p) k) else None)"
proof (cases "HasPrefix k p")
  case True
  then obtain r where r: "k = p @ r" by (auto simp: HasPrefix_iff)
  have "fmlookup (prefixed p m) (p @ r) = (if r |\<in>| fmdom m then Some (slice (fmlookup m r)) else None)"
    unfolding prefixed_def by (subst fmlookup_keyed) (auto simp: inj_def)
  then show ?thesis by (cases "fmlookup m r") (auto simp: r dest: fmdomI fmdom_notI)
next
  case False
  then show ?thesis
    by (auto simp: prefixed_def fmlookup_of_list map_of_eq_None_iff)
qed

lemma fmlookup_subtree: "fmlookup (subtree p t) k = fmlookup t (p @ k)"
proof -
  let ?ks = "filter (\<lambda>k. HasPrefix k p) (sorted_list_of_fset (fmdom t))"
  have "map_of (map (\<lambda>k. (drop (length p) k, slice (fmlookup t k))) ?ks) k =
      (if p @ k \<in> set ?ks then Some (slice (fmlookup t (p @ k))) else None)"
  proof -
    have "map_of (map (\<lambda>k. (drop (length p) k, slice (fmlookup t k))) ks) k =
        (if p @ k \<in> set ks then Some (slice (fmlookup t (p @ k))) else None)" if "\<forall>x \<in> set ks. HasPrefix x p" for ks
      using that by (induction ks) (auto simp: HasPrefix_iff)
    then show ?thesis by simp
  qed
  then show ?thesis
    unfolding subtree_def fmlookup_of_list by (cases "fmlookup t (p @ k)") (auto dest: fmdomI fmdom_notI)
qed

lemma fmdom_prefixed: "k |\<in>| fmdom (prefixed p m) \<longleftrightarrow> HasPrefix k p \<and> drop (length p) k |\<in>| fmdom m"
  by (auto simp: fmlookup_dom_iff fmlookup_prefixed)

lemma readDir_writeDir [simp]: "readDir dir (writeDir dir t fs) = t"
  by (rule fmap_ext) (auto simp: readDir_def writeDir_def fmlookup_subtree fmlookup_prefixed fmlookup_dom_iff)

lemma owned_simps [simp]: "owned (''data/'' @ k)" "owned (''snapshots/'' @ k)" "owned ''meta/LOCK''" "owned ''wal/commit.wal''"
  by (simp_all add: owned_def HasPrefix_def)

lemma diskOf_putDisk [simp]: "diskOf (putDisk pid d t) = d"
proof -
  have "subtree ''data/'' (putDisk pid d t) = dData d"
    by (rule fmap_ext) (auto simp: fmlookup_subtree putDisk_def fmlookup_prefixed fmdom_prefixed HasPrefix_def owned_def Let_def fmdom_notD split: option.split)
  moreover have "subtree ''snapshots/'' (putDisk pid d t) = dSnapshots d"
    by (rule fmap_ext) (auto simp: fmlookup_subtree putDisk_def fmlookup_prefixed fmdom_prefixed HasPrefix_def owned_def Let_def fmdom_notD split: option.split)
  moreover have "fmlookup (putDisk pid d t) ''wal/commit.wal'' = dWal d"
    by (auto simp: putDisk_def fmlookup_prefixed fmdom_prefixed HasPrefix_def owned_def Let_def fmdom_notD split: option.split)
  moreover have "fmlookup (putDisk pid d t) ''meta/LOCK'' \<noteq> None \<longleftrightarrow> dLock d"
    by (auto simp: putDisk_def fmlookup_prefixed fmdom_prefixed HasPrefix_def owned_def Let_def fmdom_notD split: option.split)
  ultimately show ?thesis by (simp add: diskOf_def)
qed

lemma prefixed_subtree: "prefixed p (subtree p t) = fmfilter (\<lambda>k. HasPrefix k p) t"
  by (rule fmap_ext) (simp add: fmlookup_prefixed fmlookup_subtree HasPrefix_drop)

lemma writeDir_readDir [simp]: "writeDir dir (readDir dir fs) fs = fs"
  by (rule fmap_ext) (auto simp: writeDir_def readDir_def prefixed_subtree fmdom_notD)

lemma writeDir_fmdrop: "writeDir dir (fmdrop k (readDir dir fs)) fs = fmdrop (dirPrefix dir @ k) fs"
proof (rule fmap_ext)
  fix x
  show "fmlookup (writeDir dir (fmdrop k (readDir dir fs)) fs) x = fmlookup (fmdrop (dirPrefix dir @ k) fs) x"
  proof (cases "HasPrefix x (dirPrefix dir)")
    case True
    then have "drop (length (dirPrefix dir)) x = k \<longleftrightarrow> x = dirPrefix dir @ k" by (auto simp: HasPrefix_iff)
    with True show ?thesis
      by (auto simp: writeDir_def readDir_def fmlookup_prefixed fmlookup_subtree fmlookup_dom_iff HasPrefix_drop)
  next
    case False
    then show ?thesis by (auto simp: writeDir_def fmlookup_prefixed fmlookup_dom_iff)
  qed
qed

text \<open>Releasing the lock is removing its file.\<close>

lemma putDisk_unlock: "putDisk pid ((diskOf t)\<lparr>dLock := False\<rparr>) t = fmdrop ''meta/LOCK'' t"
proof (rule fmap_ext)
  fix k
  have "\<not> HasPrefix ''wal/commit.wal'' ''data/''" "\<not> HasPrefix ''wal/commit.wal'' ''snapshots/''"
    "\<not> HasPrefix ''meta/LOCK'' ''data/''" "\<not> HasPrefix ''meta/LOCK'' ''snapshots/''" by (simp_all add: HasPrefix_def)
  then show "fmlookup (putDisk pid ((diskOf t)\<lparr>dLock := False\<rparr>) t) k = fmlookup (fmdrop ''meta/LOCK'' t) k"
    by (cases "fmlookup t ''wal/commit.wal''")
      (auto simp: putDisk_def diskOf_def prefixed_subtree owned_def Let_def fmdom_notD)
qed

lemma readDir_isDir: "readDir dir fs \<noteq> fmempty \<Longrightarrow> isDir w fs (Clean dir)"
proof -
  assume "readDir dir fs \<noteq> fmempty"
  then obtain k where "fmlookup (readDir dir fs) k \<noteq> None" by (metis fmap_ext fmempty_lookup)
  then have "dirPrefix dir @ k |\<in>| fmdom fs" by (simp add: readDir_def fmlookup_subtree fmlookup_dom_iff)
  moreover have "HasPrefix (Clean dir @ CHR ''/'' # k) (Clean dir @ ''/'')" by (simp add: HasPrefix_def)
  ultimately show ?thesis
    by (cases "Clean dir = ''.'' \<or> Clean dir = ''/''") (auto simp: isDir_def dirPrefix_def Let_def)
qed

subsection \<open>One process after the other\<close>

text \<open>A directory that no process has open and that holds the chain.\<close>

definition holdsChain :: "codec \<Rightarrow> string \<Rightarrow> tree \<Rightarrow> Chain \<Rightarrow> bool" where
  "holdsChain cx dir fs c \<longleftrightarrow>
     (let d = diskOf (readDir dir fs) in
      dir_holds cx d (cBlocks c) \<and> dWal d = None \<and> replayable c \<and> (\<forall>b \<in> set (cBlocks c). gobBlock b = b))"

lemma withEngine_healthy:
  assumes "holdsChain cx dir fs c" and w: "cwEnv w = healthy" "cwCodec w = cx"
  obtains d e where "eChain e = c" "store_rep cx (d, eStore e) (cBlocks c)" "dWal d = None"
    "\<And>body :: disk \<Rightarrow> Engine \<Rightarrow> (error + 'a) \<times> disk \<times> Engine. withEngine w dir body fs =
       (case body d e of (r, d, e) \<Rightarrow> (r, writeDir dir (putDisk (cwPid w) (fst (snd (Engine_Close healthy d e))) (readDir dir fs)) fs))"
proof -
  let ?d = "diskOf (readDir dir fs)"
  have h: "dir_holds cx ?d (cBlocks c)" "dWal ?d = None" "applyAll (cBlocks c) emptyChain = Inr c" "\<forall>b \<in> set (cBlocks c). gobBlock b = b"
    using assms(1) by (simp_all add: holdsChain_def replayable_def Let_def)
  obtain e d where o: "Engine_Open healthy cx True ?d = (Inr e, d)" "eChain e = c"
      "store_rep cx (d, eStore e) (cBlocks c)" "dWal d = None"
    using Engine_Open_no_wal [OF opens_to_clean [OF h(1)] h(4,3,2)] by blast
  show thesis
    by (rule that [OF o(2,3,4)]) (simp add: withEngine_def onDisk_def onTree_def w o(1) split: prod.split)
qed

lemma close_holdsChain:
  assumes "store_rep cx (d, eStore e) (cBlocks c)" and "dWal d = None" and "replayable c"
    and "\<forall>b \<in> set (cBlocks c). gobBlock b = b"
  shows "holdsChain cx dir (writeDir dir (putDisk pid (fst (snd (Engine_Close healthy d e))) t) fs) c"
proof -
  obtain e' where "Engine_Close healthy d e = (Inr (), d\<lparr>dLock := False\<rparr>, e')"
    using Engine_Close_healthy [OF assms(1)] by blast
  with dir_holds_unlock [OF assms(1)] assms show ?thesis by (simp add: holdsChain_def)
qed

lemma Commit_healthy_wal: "Commit healthy cx now txs d e = (Inr b, d', e') \<Longrightarrow> dWal d' = None"
  by (auto simp: Commit_def ClearWAL_def Let_def split: sum.splits prod.splits if_splits)

lemma commitOne_holds:
  assumes st: "store_rep cx (d, eStore e) (cBlocks (eChain e))" and wal: "dWal d = None" and rp: "replayable (eChain e)"
    and stable: "\<forall>b \<in> set (cBlocks (eChain e)). gobBlock b = b" and op: "opValue op \<noteq> Some []"
    and len: "length (cBlocks (eChain e)) + 2 < 2 ^ 64" and w: "cwEnv w = healthy" "cwCodec w = cx"
    and run: "commitOne w op d e = (Inr out, d', e')"
  shows "store_rep cx (d', eStore e') (cBlocks (eChain e')) \<and> dWal d' = None \<and> replayable (eChain e') \<and>
    (\<forall>b \<in> set (cBlocks (eChain e')). gobBlock b = b) \<and> cState (eChain e') = applyState op (cState (eChain e))"
proof -
  let ?t = "cwStamp w"
  let ?txs = "[NewTransaction (sRandom ?t) (sTxTime ?t) [op] ''cli'' 0 []]"
  obtain r where c: "Commit healthy cx (sBlockTime ?t) ?txs d e = (r, d', e')" "noChange e' r = Inr out"
    using run by (auto simp: commitOne_def w Let_def split: prod.splits)
  then have r: "r = Inl NoStateChange \<or> \<not> isl r" by (cases r) (auto simp: noChange_def split: if_splits)
  have state: "cState (eChain e') = applyState op (cState (eChain e))"
    using Commit_runs [OF c(1) r] by (simp add: NewTransaction_def)
  show ?thesis
  proof (cases r)
    case (Inl x)
    with r have "r = Inl NoStateChange" by simp
    with c(1) have "fst (Commit healthy cx (sBlockTime ?t) ?txs d e) = Inl NoStateChange" by simp
    then have "prepareBlock (sBlockTime ?t) ?txs (eChain e) = Inl NoStateChange"
      by (simp only: Commit_NoStateChange_iff)
    with c(1) have "d' = d" "e' = e" by (simp_all add: Commit_def)
    with assms state show ?thesis by simp
  next
    case (Inr b)
    with c(1) have b: "prepareBlock (sBlockTime ?t) ?txs (eChain e) = Inr b" by (auto elim: Commit_cases)
    have "noEmptyValues ?txs" using op by (simp add: noEmptyValues_def NewTransaction_def)
    note sb = prepareBlock_stable [OF b this]
    have "store_rep cx (d', eStore e') (cBlocks (eChain e) @ [b])" and e': "eChain e' = commitBlock b (eChain e)"
      using Commit_store_rep [OF st rp b len c(1)] Inr by simp_all
    with Commit_healthy_wal [OF c(1) [unfolded Inr]] replayable_commitBlock [OF rp b] stable sb state
    show ?thesis by simp
  qed
qed

lemma Run_put:
  assumes "k \<noteq> ''--dir''" "v \<noteq> ''--dir''"
  shows "Run w [''put'', k, v, ''--dir'', dir] fs =
    withEngine w dir (commitOne w \<lparr>opKey = k, opValue = Some (bytes_of v), opDelete = False\<rparr>) fs"
  using assms by (simp add: Run_def commands_def put_def dbDir_def arg_def)

lemma Run_get_holds:
  assumes "holdsChain cx dir fs c" and "cwEnv w = healthy" "cwCodec w = cx"
    and "k \<noteq> ''--dir''" and "fmlookup (cState c) k = Some v"
  shows "\<exists>fs'. Run w [''get'', k, ''--dir'', dir] fs = (Inr (ValueText (string_of v)), fs')"
proof -
  let ?body = "reading (\<lambda>d e. let h = intArg [''get'', k, ''--dir'', dir] ''--height'' 0;
                 v = (if 0 < h then GetAt e k (of_int h) else if snd (Get e k) then Some (fst (Get e k)) else None)
             in case v of None \<Rightarrow> Inl NotExist | Some v \<Rightarrow> Inr (ValueText (string_of v)))"
  have g: "Run w [''get'', k, ''--dir'', dir] fs = withEngine w dir ?body fs"
  proof -
    have n: "[''get'', k, ''--dir'', dir] ! 1 = k" by simp
    have dir: "dbDir [''get'', k, ''--dir'', dir] = dir" using assms(4) by (simp add: dbDir_def arg_def)
    have "get w [''get'', k, ''--dir'', dir] fs = withEngine w dir ?body fs" unfolding get_def n dir by simp
    then show ?thesis by (simp add: Run_def commands_def)
  qed
  have h: "intArg [''get'', k, ''--dir'', dir] ''--height'' 0 = 0"
    by (simp add: intArg_def arg_def Atoi_def signedVal_def dval_def)
  obtain d e where "eChain e = c" and run: "\<And>body :: disk \<Rightarrow> Engine \<Rightarrow> (error + report) \<times> disk \<times> Engine. withEngine w dir body fs =
       (case body d e of (r, d, e) \<Rightarrow> (r, writeDir dir (putDisk (cwPid w) (fst (snd (Engine_Close healthy d e))) (readDir dir fs)) fs))"
    using withEngine_healthy [OF assms(1-3)] by metis
  then have "?body d e = (Inr (ValueText (string_of v)), d, e)"
    using assms(5) by (simp add: reading_def h Get_def Let_def)
  then show ?thesis unfolding g run by simp
qed

lemma tableCodec_single:
  "gobEncode (tableCodec [b]) b = Some [1]" "length (frame (tableCodec [b]) [1]) \<le> defaultSegmentSize"
proof -
  have "frameBody (tableCodec [b]) [1] = [1]"
    by (simp add: tableCodec_def frameBody_def numeral_eq_Suc)
  then show "length (frame (tableCodec [b]) [1]) \<le> defaultSegmentSize"
    by (simp add: defaultSegmentSize_def)
qed (simp add: tableCodec_def)

lemma commitOne_healthy:
  assumes "store_rep cx (d, eStore e) (cBlocks (eChain e))" and w: "cwEnv w = healthy" "cwCodec w = cx"
    and "prepareBlock (sBlockTime (cwStamp w))
      [NewTransaction (sRandom (cwStamp w)) (sTxTime (cwStamp w)) [op] ''cli'' 0 []] (eChain e) = Inr b"
    and "gobEncode cx b = Some p" "length (frame cx p) \<le> defaultSegmentSize" "length (cBlocks (eChain e)) + 2 < 2 ^ 64"
  shows "\<exists>d' e'. commitOne w op d e = (Inr Silent, d', e')"
  using Commit_healthy [OF assms(1,4-7)] by (fastforce simp: commitOne_def w Let_def noChange_def)

subsection \<open>Property\<close>

text \<open>
  C24: Across processes the database is a map. When a directory holds a chain and a put of a non-empty
  value reports no error, the directory again holds a chain, whose state is the old one with the
  key set; every later process that gets the key prints the value, and every other key is as before.
\<close>

theorem put_then_get:
  assumes h: "holdsChain cx dir fs c" and len: "length (cBlocks c) + 2 < 2 ^ 64"
    and w: "cwEnv w = healthy" "cwCodec w = cx" and w': "cwEnv w' = healthy" "cwCodec w' = cx"
    and args: "k \<noteq> ''--dir''" "v \<noteq> ''--dir''" "v \<noteq> []"
    and run: "Run w [''put'', k, v, ''--dir'', dir] fs = (Inr out, fs')"
  shows "(\<exists>c'. holdsChain cx dir fs' c' \<and> cState c' = fmupd k (bytes_of v) (cState c)) \<and>
    (\<exists>fs''. Run w' [''get'', k, ''--dir'', dir] fs' = (Inr (ValueText v), fs'')) \<and>
    (\<forall>k2 v2. k2 \<noteq> k \<and> k2 \<noteq> ''--dir'' \<and> fmlookup (cState c) k2 = Some v2 \<longrightarrow>
       (\<exists>fs''. Run w' [''get'', k2, ''--dir'', dir] fs' = (Inr (ValueText (string_of v2)), fs'')))"
proof -
  let ?op = "\<lparr>opKey = k, opValue = Some (bytes_of v), opDelete = False\<rparr>"
  obtain d e where e: "eChain e = c" "store_rep cx (d, eStore e) (cBlocks c)" "dWal d = None"
    and body: "\<And>body :: disk \<Rightarrow> Engine \<Rightarrow> (error + report) \<times> disk \<times> Engine. withEngine w dir body fs =
       (case body d e of (r, d, e) \<Rightarrow> (r, writeDir dir (putDisk (cwPid w) (fst (snd (Engine_Close healthy d e))) (readDir dir fs)) fs))"
    using withEngine_healthy [OF h w] by metis
  obtain d1 e1 where c1: "commitOne w ?op d e = (Inr out, d1, e1)"
      "fs' = writeDir dir (putDisk (cwPid w) (fst (snd (Engine_Close healthy d1 e1))) (readDir dir fs)) fs"
    using run unfolding Run_put [OF args(1,2)] body by (auto split: prod.splits)
  have "opValue ?op \<noteq> Some []" using args(3) by (cases v) auto
  with commitOne_holds [OF _ e(3) _ _ _ _ w c1(1), of] e h len
  have s: "store_rep cx (d1, eStore e1) (cBlocks (eChain e1))" "dWal d1 = None" "replayable (eChain e1)"
      "\<forall>b \<in> set (cBlocks (eChain e1)). gobBlock b = b" and st: "cState (eChain e1) = fmupd k (bytes_of v) (cState c)"
    by (simp_all add: holdsChain_def Let_def applyState_def)
  have h': "holdsChain cx dir fs' (eChain e1)" unfolding c1(2) by (rule close_holdsChain [OF s])
  from Run_get_holds [OF h' w' args(1), of "bytes_of v"] Run_get_holds [OF h' w'] h' st
  show ?thesis by auto
qed

definition exWorld :: "codec \<Rightarrow> cliWorld" where
  "exWorld cx = \<lparr>cwEnv = healthy, cwCodec = cx, cwUnicode = \<lparr>uLower = (\<lambda>s. s), uTrim = (\<lambda>s. s)\<rparr>,
     cwConfig = exJson (newCluster exNow ''a'' []), cwEmptyDir = (\<lambda>_. False), cwVault = exVault, cwPid = ''1'',
     cwStamp = \<lparr>sRandom = [1], sTxTime = exNow, sBlockTime = exNow\<rparr>, cwSalt = replicate 16 0, cwNonce = replicate 12 0,
     cwVisit = (\<lambda>x. x), cwSortOps = (\<lambda>ops. ops),
     cwModTime = (\<lambda>_. 0), cwSortItems = exNewestFirst, cwRemovable = (\<lambda>_. True),
     cwBackupsFirst = False, cwBackupName = ''b''\<rparr>"

lemma holdsChain_empty: "codec_laws cx \<Longrightarrow> holdsChain cx ''db'' fmempty emptyChain"
proof -
  assume cx: "codec_laws cx"
  have e: "subtree p fmempty = fmempty" for p by (rule fmap_ext) (simp add: fmlookup_subtree)
  then have d: "diskOf (readDir ''db'' fmempty) = emptyDisk" by (simp add: readDir_def diskOf_def emptyDisk_def)
  show ?thesis
    using dir_holds_emptyDisk [OF cx] unfolding holdsChain_def d by (simp add: emptyChain_def [symmetric]) (simp add: emptyChain_def emptyDisk_def)
qed

theorem put_then_get_witness:
  "\<exists>cx fs' fs''. Run (exWorld cx) [''put'', ''a'', ''x'', ''--dir'', ''db''] fmempty = (Inr Silent, fs') \<and>
     Run (exWorld cx) [''get'', ''a'', ''--dir'', ''db''] fs' = (Inr (ValueText ''x''), fs'')"
proof -
  let ?op = "\<lparr>opKey = ''a'', opValue = Some (bytes_of ''x''), opDelete = False\<rparr>"
  let ?txs = "[NewTransaction [1] exNow [?op] ''cli'' 0 []]"
  have "fmupd ''a'' (bytes_of ''x'') fmempty \<noteq> fmempty" by (simp add: fmupd_same_iff)
  then obtain b where b: "prepareBlock exNow ?txs emptyChain = Inr b"
    by (simp add: prepareBlock_def emptyChain_def NewTransaction_def applyState_def)
  let ?cx = "tableCodec [b]"
  have cx: "codec_laws ?cx" by (simp only: tableCodec_laws)
  note h = holdsChain_empty [OF cx]
  have w: "cwEnv (exWorld ?cx) = healthy" "cwCodec (exWorld ?cx) = ?cx" "cwStamp (exWorld ?cx) = \<lparr>sRandom = [1], sTxTime = exNow, sBlockTime = exNow\<rparr>"
    by (simp_all add: exWorld_def)
  obtain d e where e: "eChain e = emptyChain" "store_rep ?cx (d, eStore e) (cBlocks emptyChain)"
    and body: "\<And>body :: disk \<Rightarrow> Engine \<Rightarrow> (error + report) \<times> disk \<times> Engine. withEngine (exWorld ?cx) ''db'' body fmempty =
       (case body d e of (r, d, e) \<Rightarrow> (r, writeDir ''db'' (putDisk (cwPid (exWorld ?cx)) (fst (snd (Engine_Close healthy d e))) (readDir ''db'' fmempty)) fmempty))"
    using withEngine_healthy [OF h w(1,2)] by metis
  have len: "length (cBlocks emptyChain) + 2 < 2 ^ 64" by (simp add: emptyChain_def)
  have "\<exists>d1 e1. commitOne (exWorld ?cx) ?op d e = (Inr Silent, d1, e1)"
  proof (rule commitOne_healthy [OF _ w(1,2) _ tableCodec_single])
    show "store_rep ?cx (d, eStore e) (cBlocks (eChain e))" unfolding e(1) by (rule e(2))
    show "length (cBlocks (eChain e)) + 2 < 2 ^ 64" unfolding e(1) by (rule len)
    show "prepareBlock (sBlockTime (cwStamp (exWorld ?cx))) [NewTransaction (sRandom (cwStamp (exWorld ?cx)))
        (sTxTime (cwStamp (exWorld ?cx))) [?op] ''cli'' 0 []] (eChain e) = Inr b"
      unfolding w(3) e(1) stamp.select_convs by (rule b)
  qed
  then obtain d1 e1 where c: "commitOne (exWorld ?cx) ?op d e = (Inr Silent, d1, e1)" by blast
  have args: "(''a'' :: string) \<noteq> ''--dir''" "(''x'' :: string) \<noteq> ''--dir''" "(''x'' :: string) \<noteq> []" by simp_all
  have "\<exists>fs'. Run (exWorld ?cx) [''put'', ''a'', ''x'', ''--dir'', ''db''] fmempty = (Inr Silent, fs')"
    unfolding Run_put [OF args(1,2)] body c prod.case by blast
  then obtain fs' where r: "Run (exWorld ?cx) [''put'', ''a'', ''x'', ''--dir'', ''db''] fmempty = (Inr Silent, fs')"
    by blast
  from put_then_get [OF h len w(1,2) w(1,2) args r, THEN conjunct2, THEN conjunct1]
  obtain fs'' where g: "Run (exWorld ?cx) [''get'', ''a'', ''--dir'', ''db''] fs' = (Inr (ValueText ''x''), fs'')"
    by (rule exE)
  show ?thesis by (intro exI conjI) (rule r, rule g)
qed

subsection \<open>Replicas\<close>

lemma diskOf_backedUp: "diskOf (fmfilter backedUp t) = (diskOf t)\<lparr>dLock := False\<rparr>"
proof -
  have "subtree p (fmfilter backedUp t) = subtree p t" if "\<And>k. backedUp (p @ k)" for p
    by (rule fmap_ext) (simp add: fmlookup_subtree that)
  then show ?thesis by (simp add: diskOf_def backedUp_def HasPrefix_def)
qed

definition backupable :: "tree \<Rightarrow> bool" where
  "backupable t \<longleftrightarrow> wellFormed t \<and> t \<noteq> fmempty \<and>
     fBall (fmdom t) (\<lambda>k. backedUp k \<longrightarrow> \<not> HasPrefix k ''..'' \<and> length k < 2 ^ 16)"

lemma bare_backup_restores:
  assumes "vault_laws v" and t: "backupable t" and "target \<noteq> []"
  obtains payload digest where "Backup healthy v [] [] [] t = Inr (payload, digest)"
    "RestoreBackup healthy v payload target None [] = Inr (fmfilter backedUp t)"
proof -
  let ?es = "backupEntries t"
  have names: "\<forall>k. k |\<in>| fmdom t \<and> backedUp k \<longrightarrow> \<not> HasPrefix k ''..''" and w: "wellFormed t"
    using t by (auto simp: backupable_def)
  have "\<forall>e \<in> set ?es. length (fst e) < 2 ^ 16"
    using t backupKeys(2) [OF refl, of t] by (fastforce simp: backupable_def)
  then have z: "zipRead v (zipWrite v ?es) = Some ?es" using assms(1) by (simp add: vault_laws_def)
  have m: "length bakMagic = 8" by (simp add: bakMagic_def)
  show thesis
    by (rule that [of "bakMagic @ zipWrite v ?es" "Hash (bakMagic @ zipWrite v ?es)"])
      (simp_all add: Backup_def backupPayload_def Let_def RestoreBackup_def decodeBackup_def m z
        restore_backupEntries [OF w names] assms(3))
qed

lemma restoreEnv_healthy:
  "cwEnv w = healthy \<Longrightarrow> fBall (fmdom fs) (\<lambda>k. \<not> HasPrefix (Clean (target @ ''.restore.tmp'')) (k @ ''/'')) \<Longrightarrow>
   restoreEnv w target fs = healthy"
  by (auto simp: restoreEnv_def healthy_def fun_eq_iff)

text \<open>
  C25: \<open>replica-bootstrap\<close> copies the chain. When the source directory holds a chain, its file names fit an
  archive, and the target names nothing - no file, no directory, not even an empty one, and no name that
  ends in a slash - with no file above it, the command succeeds, reports the height, hash and state root
  of that chain, and the target then holds the same chain, ready for the next process.
\<close>

theorem replica_has_same_chain:
  assumes h: "holdsChain cx src fs c" and w: "cwEnv w = healthy" "cwCodec w = cx" "vault_laws (cwVault w)"
    and t: "backupable (readDir src fs)" and target: "existingDir w target fs = None" "target \<noteq> []" "src \<noteq> ''--target''"
    and above: "fBall (fmdom fs) (\<lambda>k. \<not> HasPrefix (Clean (target @ ''.restore.tmp'')) (k @ ''/''))"
  shows "\<exists>r fs'. Run w [''replica-bootstrap'', ''--dir'', src, ''--target'', target] fs = (Inr (ReplicaJson r), fs') \<and>
    rrHeight r = of_nat (length (cBlocks c)) \<and> rrLatestHash r = lastHash c \<and> rrStateRoot r = StateRoot (cState c) \<and>
    holdsChain cx target fs' c"
proof -
  let ?args = "[''replica-bootstrap'', ''--dir'', src, ''--target'', target]" and ?t = "readDir src fs"
  have a: "dbDir ?args = src" "arg ?args ''--target'' [] = target"
    using target(3) by (simp_all add: dbDir_def arg_def)
  have ne: "isDir w fs (Clean src)" using t by (intro readDir_isDir) (simp add: backupable_def)
  have env: "restoreEnv w target fs = healthy" using w(1) above by (rule restoreEnv_healthy)
  have run: "Run w ?args fs = replicaBootstrap w ?args fs" by (simp add: Run_def commands_def)
  obtain payload digest where b: "Backup healthy (cwVault w) [] [] [] ?t = Inr (payload, digest)"
    "RestoreBackup healthy (cwVault w) payload target None [] = Inr (fmfilter backedUp ?t)"
    using bare_backup_restores [OF w(3) t target(2)] .
  have hc: "dir_holds cx (diskOf ?t) (cBlocks c)" "dWal (diskOf ?t) = None" "applyAll (cBlocks c) emptyChain = Inr c"
      "replayable c" "\<forall>b \<in> set (cBlocks c). gobBlock b = b"
    using h by (simp_all add: holdsChain_def replayable_def Let_def)
  have "(diskOf ?t)\<lparr>dLock := False\<rparr> = diskOf ?t" using hc(1) by (simp add: dir_holds_def)
  then have d: "diskOf (fmfilter backedUp ?t) = diskOf ?t" by (simp only: diskOf_backedUp)
  obtain e d1 where o: "Engine_Open healthy cx True (diskOf ?t) = (Inr e, d1)" "eChain e = c"
      "store_rep cx (d1, eStore e) (cBlocks c)" "dWal d1 = None"
    using Engine_Open_no_wal [OF opens_to_clean [OF hc(1)] hc(5,3,2)] by blast
  have v: "Verify e = Inr ()" by (simp add: Verify_def o(2) hc(3))
  let ?left = "putDisk (cwPid w) (fst (snd (Engine_Close healthy d1 e))) (fmfilter backedUp ?t)"
  have "\<exists>r. replicaBootstrap w ?args fs = (Inr (ReplicaJson r), writeDir target ?left fs) \<and>
      rrHeight r = of_nat (length (cBlocks c)) \<and> rrLatestHash r = lastHash c \<and> rrStateRoot r = StateRoot (cState c)"
    by (simp add: replicaBootstrap_def a target ne env BootstrapReplica_def w b d o v Engine_Status_def Let_def)
  moreover have "holdsChain cx target (writeDir target ?left fs) c"
    using o hc by (intro close_holdsChain) simp_all
  ultimately show ?thesis unfolding run by blast
qed

text \<open>A directory with one block, and the files it has.\<close>

definition exBlockDisk :: disk where
  "exBlockDisk = setData 1 (blockFrame exChainCodec exFirst) exDisk"

definition exFiles :: tree where
  "exFiles = writeDir ''db'' (putDisk ''1'' exBlockDisk fmempty) fmempty"

lemma exFiles_tree: "putDisk ''1'' exBlockDisk fmempty =
    fmupd ''data/segment-00000000000000000001.agi'' (blockFrame exChainCodec exFirst) fmempty"
proof -
  have p: "segmentPath 1 = ''segment-00000000000000000001.agi''"
  proof -
    have "dec 1 = ''1''" by (simp add: dec.simps dchar_def char_of_def bit_0)
    then show ?thesis by (simp add: segmentPath_def pad0_def numeral_eq_Suc)
  qed
  have e: "prefixed q fmempty = fmempty" for q by (rule fmap_ext) (simp add: fmlookup_prefixed)
  have d: "dData exBlockDisk = fmupd ''segment-00000000000000000001.agi'' (blockFrame exChainCodec exFirst) fmempty"
    by (simp add: exBlockDisk_def setData_def exDisk_def emptyDisk_def p)
  have "prefixed q (fmupd k b fmempty) = fmupd (q @ k) b fmempty" for q k and b :: bytes
  proof (rule fmap_ext)
    fix x
    show "fmlookup (prefixed q (fmupd k b fmempty)) x = fmlookup (fmupd (q @ k) b fmempty) x"
      by (cases "HasPrefix x q") (auto simp: fmlookup_prefixed HasPrefix_iff)
  qed
  with e d show ?thesis
    by (simp add: putDisk_def) (simp add: exBlockDisk_def exDisk_def emptyDisk_def)
qed

lemma exFiles_single:
  "exFiles = fmupd ''db/data/segment-00000000000000000001.agi'' (blockFrame exChainCodec exFirst) fmempty"
proof (rule fmap_ext)
  fix k
  have d: "dirPrefix ''db'' = ''db/''" by (simp add: dirPrefix_def Clean_def isAbs_def HasPrefix_def Let_def)
  show "fmlookup exFiles k =
      fmlookup (fmupd ''db/data/segment-00000000000000000001.agi'' (blockFrame exChainCodec exFirst) fmempty) k"
    by (cases "HasPrefix k ''db/''")
      (auto simp: exFiles_def exFiles_tree writeDir_def d fmlookup_prefixed fmlookup_dom_iff HasPrefix_iff)
qed

lemma exFiles_holds: "holdsChain exChainCodec ''db'' exFiles (commitBlock exFirst emptyChain)"
proof -
  have b: "storable exChainCodec exFirst"
    using exFirst_encoded by (auto simp: storable_def max_eq_default)
  have rp: "replayable (commitBlock exFirst emptyChain)"
    using replayable_commitBlock [OF replayable_emptyChain exFirst_prepared] .
  have bs: "cBlocks (commitBlock exFirst emptyChain) = [exFirst]" by (simp add: emptyChain_def)
  have "disk_holds exChainCodec exBlockDisk [[exFirst]]"
    using disk_holds_grow [of exChainCodec exDisk "[]" "[]" exFirst] b by (simp add: exBlockDisk_def)
  moreover have "numbered [exFirst]"
    using wellLinked_numbered [OF replayable_wellLinked [OF rp]] bs by simp
  ultimately have "dir_holds exChainCodec exBlockDisk [exFirst]"
    unfolding dir_holds_def using exFirst_encoded(1)
    by (intro conjI exI [of _ "[[exFirst]]"]) (simp_all add: exBlockDisk_def tight_def)
  moreover have "gobBlock exFirst = exFirst"
    using prepareBlock_stable [OF exFirst_prepared] by (simp add: noEmptyValues_def exTx_def)
  moreover have "dWal exBlockDisk = None" by (simp add: exBlockDisk_def exDisk_def emptyDisk_def)
  ultimately show ?thesis using rp bs by (simp add: holdsChain_def exFiles_def del: commitBlock_simps)
qed

theorem replica_has_same_chain_witness:
  "\<exists>r fs'. Run (exWorld exChainCodec) [''replica-bootstrap'', ''--dir'', ''db'', ''--target'', ''copy''] exFiles =
       (Inr (ReplicaJson r), fs') \<and> rrHeight r = 1 \<and>
     holdsChain exChainCodec ''copy'' fs' (commitBlock exFirst emptyChain)"
proof -
  have t: "readDir ''db'' exFiles = fmupd ''data/segment-00000000000000000001.agi'' (blockFrame exChainCodec exFirst) fmempty"
    by (simp add: exFiles_def exFiles_tree)
  have bk: "backupable (readDir ''db'' exFiles)"
    unfolding t by (simp add: backupable_def wellFormed_def Clean_def isAbs_def HasPrefix_def fmupd_same_iff)
  have e: "existingDir (exWorld exChainCodec) ''copy'' exFiles = None"
    by (simp add: existingDir_def isDir_def exFiles_single exWorld_def Clean_def isAbs_def HasPrefix_def HasSuffix_def)
  have above: "fBall (fmdom exFiles) (\<lambda>k. \<not> HasPrefix (Clean (''copy'' @ ''.restore.tmp'')) (k @ ''/''))"
    by (simp add: exFiles_single Clean_def isAbs_def HasPrefix_def)
  have w: "cwEnv (exWorld exChainCodec) = healthy" "cwCodec (exWorld exChainCodec) = exChainCodec" "vault_laws (cwVault (exWorld exChainCodec))"
    by (simp_all add: exWorld_def exVault_laws)
  have n: "''copy'' \<noteq> []" "''db'' \<noteq> ''--target''" by simp_all
  from replica_has_same_chain [OF exFiles_holds w bk e n above] show ?thesis by (fastforce simp: emptyChain_def)
qed

subsection \<open>Proof files\<close>

lemma Run_proofGet:
  assumes "key \<noteq> ''--out''" "key \<noteq> ''--dir''" "out \<noteq> ''--dir''" "out \<noteq> []"
  shows "Run w [''proof-get'', key, ''--out'', out, ''--dir'', dir] fs =
    withEngineFiles w dir (\<lambda>e files.
      let p = Engine_StateProof e key in
      if \<not> pExists p then (Inl (KeyNotFound key), files)
      else case WriteFile (cwEnv w) (\<lambda>q. isDir w fs q \<or> madeByOpen dir q) out (encodeProof p) files of
          (Inl x, files) \<Rightarrow> (Inl x, files)
        | (Inr _, files) \<Rightarrow> (Inr (ProofWritten out), files)) fs" (is "_ = ?rhs")
proof -
  have a: "arg [''proof-get'', key, ''--out'', out, ''--dir'', dir] ''--out'' [] = out"
    "dbDir [''proof-get'', key, ''--out'', out, ''--dir'', dir] = dir"
    "[''proof-get'', key, ''--out'', out, ''--dir'', dir] ! 1 = key"
    using assms(1-3) by (simp_all add: dbDir_def arg_def)
  have "proofGet w [''proof-get'', key, ''--out'', out, ''--dir'', dir] fs = ?rhs" unfolding proofGet_def a using assms(4) by (simp add: Let_def)
  then show ?thesis by (simp add: Run_def commands_def)
qed

lemma Run_proofVerify:
  "Run w [''proof-verify'', out] fs =
    (case ReadFile out fs of
       Inl x \<Rightarrow> Inl x
     | Inr b \<Rightarrow> (case decodeProof b of
           None \<Rightarrow> Inl JSONDecodeFailed
         | Some p \<Rightarrow> if VerifyProof p then Inr (ProofVerified (pKey p) (pRoot p)) else Inl ProofFailed), fs)"
  by (simp add: Run_def commands_def proofVerify_def)

text \<open>Opening, and closing on whatever files there are by then: the lock file goes, all else stays.\<close>

lemma openIn_healthy:
  assumes "holdsChain cx dir fs c" and w: "cwEnv w = healthy" "cwCodec w = cx"
  obtains e files where "eChain e = c" "openIn w dir fs = (Inr e, files)"
    "\<And>files. closeIn w dir e files = fmdrop (dirPrefix dir @ ''meta/LOCK'') files"
proof -
  let ?d = "diskOf (readDir dir fs)"
  have h: "dir_holds cx ?d (cBlocks c)" "dWal ?d = None" "applyAll (cBlocks c) emptyChain = Inr c" "\<forall>b \<in> set (cBlocks c). gobBlock b = b"
    using assms(1) by (simp_all add: holdsChain_def replayable_def Let_def)
  obtain e d where o: "Engine_Open healthy cx True ?d = (Inr e, d)" "eChain e = c" "store_rep cx (d, eStore e) (cBlocks c)"
    using Engine_Open_no_wal [OF opens_to_clean [OF h(1)] h(4,3,2)] by blast
  then obtain sid where "fActive (eStore e) = OpenFile sid" by (auto simp: store_rep_def files_rep_def)
  then have "fst (snd (Engine_Close healthy d' e)) = d'\<lparr>dLock := False\<rparr>" for d'
    by (simp add: Engine_Close_def Storage_Close_def Let_def)
  then have "closeIn w dir e files = fmdrop (dirPrefix dir @ ''meta/LOCK'') files" for files
    by (simp add: closeIn_def onDisk_def onTree_def w putDisk_unlock writeDir_fmdrop)
  with o show thesis by (intro that) (auto simp: openIn_def onDisk_def onTree_def w)
qed

text \<open>
  C26: Across processes, \<open>proof-get\<close> and \<open>proof-verify\<close> fit together for keys in UTF-8 and only for those.
  When a directory holds a chain whose state has the key, and the output path can be written to - with the
  directories there are once the database is open - and is not the lock file, the proof is written to the
  file, and any later process that verifies the file names the key and the state root. For a key that is not valid
  UTF-8 the JSON holds another key (U+FFFD for the bad bytes), and the file fails to verify, unless
  SHA-256 maps the two different leaves to one digest.
\<close>

theorem proof_file_across_processes:
  assumes h: "holdsChain cx dir fs c" and w: "cwEnv w = healthy" "cwCodec w = cx"
    and args: "key \<noteq> ''--out''" "key \<noteq> ''--dir''" "out \<noteq> ''--dir''" "out \<noteq> []"
    and out: "writablePath (\<lambda>q. isDir w fs q \<or> madeByOpen dir q) out" "Clean out \<noteq> dirPrefix dir @ ''meta/LOCK''"
    and v: "fmlookup (cState c) key = Some v" and n: "fcard (fmdom (cState c)) < 2 ^ 63"
  shows "\<exists>fs'. Run w [''proof-get'', key, ''--out'', out, ''--dir'', dir] fs = (Inr (ProofWritten out), fs') \<and>
    (validUTF8 key \<longrightarrow> Run w' [''proof-verify'', out] fs' = (Inr (ProofVerified key (StateRoot (cState c))), fs')) \<and>
    (\<not> validUTF8 key \<longrightarrow> leafBytes (readKey key) v \<noteq> leafBytes key v \<and>
       (Run w' [''proof-verify'', out] fs' = (Inl ProofFailed, fs') \<or>
        sha256 (leafBytes (readKey key) v) = sha256 (leafBytes key v)))"
proof -
  let ?p = "StateProof (cState c) key"
  obtain e files where e: "eChain e = c" "openIn w dir fs = (Inr e, files)"
    and close: "\<And>files. closeIn w dir e files = fmdrop (dirPrefix dir @ ''meta/LOCK'') files"
    using openIn_healthy [OF h w] by metis
  have "VerifyProof ?p" using StateProof_correct v by simp
  then have ex: "pExists ?p" by (simp add: VerifyProof_def split: if_splits)
  have root: "pRoot ?p = StateRoot (cState c)" by (simp add: StateProof_correct)
  let ?fs = "fmdrop (dirPrefix dir @ ''meta/LOCK'') (fmupd (Clean out) (encodeProof ?p) files)"
  have g: "Run w [''proof-get'', key, ''--out'', out, ''--dir'', dir] fs = (Inr (ProofWritten out), ?fs)"
    unfolding Run_proofGet [OF args] using ex out(1)
    by (simp add: withEngineFiles_def e close Engine_StateProof_def WriteFile_def w(1) Let_def)
  have "Run w' [''proof-verify'', out] ?fs =
      (if sha256 (leafBytes (readKey key) v) = sha256 (leafBytes key v)
       then Inr (ProofVerified (readKey key) (StateRoot (cState c))) else Inl ProofFailed, ?fs)"
    unfolding Run_proofVerify using out(2)
    by (simp add: ReadFile_def proof_file_read [OF v n] proof_file_verifies [OF v] root)
  with g readKey leafBytes_key show ?thesis by auto
qed

theorem proof_file_across_processes_witness:
  "\<exists>fs'. Run (exWorld exChainCodec) [''proof-get'', ''a'', ''--out'', ''p.json'', ''--dir'', ''db''] exFiles =
       (Inr (ProofWritten ''p.json''), fs') \<and>
     Run (exWorld exChainCodec) [''proof-verify'', ''p.json''] fs' =
       (Inr (ProofVerified ''a'' (StateRoot (cState (commitBlock exFirst emptyChain)))), fs')"
proof -
  have w: "cwEnv (exWorld exChainCodec) = healthy" "cwCodec (exWorld exChainCodec) = exChainCodec"
    by (simp_all add: exWorld_def)
  have args: "''a'' \<noteq> ''--out''" "''a'' \<noteq> ''--dir''" "''p.json'' \<noteq> ''--dir''" "''p.json'' \<noteq> []" by simp_all
  have "blockOps exFirst = txOps (exTx [7])" by (simp add: blockOps_def exFirst_def)
  then have s: "cState (commitBlock exFirst emptyChain) = fmupd ''a'' [7] fmempty"
    by (simp add: emptyChain_def exTx_def applyState_def)
  have v: "fmlookup (cState (commitBlock exFirst emptyChain)) ''a'' = Some [7]"
    and n: "fcard (fmdom (cState (commitBlock exFirst emptyChain))) < 2 ^ 63" unfolding s by (simp_all add: fcard.rep_eq)
  have u: "validUTF8 ''a''" by simp
  have out: "writablePath (\<lambda>q. isDir (exWorld exChainCodec) exFiles q \<or> madeByOpen ''db'' q) ''p.json''"
    "Clean ''p.json'' \<noteq> dirPrefix ''db'' @ ''meta/LOCK''"
    by (simp_all add: writablePath_def upt_rec numeral_eq_Suc isDir_def madeByOpen_def exFiles_single exWorld_def dirPrefix_def
        Clean_def isAbs_def HasPrefix_def HasSuffix_def Let_def)
  from proof_file_across_processes [OF exFiles_holds w args out v n, of "exWorld exChainCodec"] u show ?thesis by blast
qed

end
