(* ===== verification/Spec2Isabelle.thy ===== *)
theory Spec2Isabelle
  imports EngineHistory DomainProofs EnterpriseProofs ServerProofs CliProofs
begin

text \<open>
  AGI-DB engine (\<open>src/engine\<close>): a key-value store whose history is a hash-linked chain of blocks.
  A commit turns transactions into a block, writes it to a write-ahead log, appends it to a segment
  file and applies it to the state in memory; opening a directory replays the segments and the log.
  A command line and an HTTP server drive one engine; the enterprise package works on whole
  directories (backup, restore, pruning, compaction, replicas) and on small configuration files.

  Parts and theories, in the order of their imports:

  \<^item> \<open>Prelude\<close>, \<open>Golib\<close>, \<open>GoText\<close>: bytes, strings and big-endian words; what the program uses of
    Go's \<open>strings\<close>, \<open>strconv\<close>, \<open>math/big\<close>, \<open>filepath\<close> and \<open>json.Valid\<close>, with their laws.
  \<^item> \<open>Sha256\<close>, \<open>Digests\<close>: SHA-256 and hexadecimal text, checked on test vectors; \<open>Json\<close>: what
    \<open>json.Marshal\<close> writes for transactions, blocks and strings; \<open>Crc32c\<close>: the Castagnoli checksum,
    linear, and different for two messages that differ by a burst of at most 32 bits.
  \<^item> \<open>JsonDecode\<close>: \<open>json.Unmarshal\<close> as the program uses it, the text read into a tree and stored into
    Go values; \<open>JsonDecodeProofs\<close>: every text that \<open>json.Valid\<close> accepts is read within the bound on calls
    (\<open>parseJson_valid\<close>), and strings, byte slices, numbers, arrays and objects as the encoder writes
    them are read back.
  \<^item> \<open>Model\<close> (\<open>internal/model/model.go\<close>): the structs as records, the operating-system calls that can
    fail (\<open>syscall\<close>, \<open>env\<close>) and every error value (\<open>error\<close>).
  \<^item> \<open>Merkle\<close> (\<open>internal/merkle/merkle.go\<close>): roots, inclusion proofs and their check. Proofs of keys in
    the state verify; a proof that verifies for another leaf yields a SHA-256 collision; equal
    roots of two states without zero bytes in their keys yield a collision or equal states.
  \<^item> \<open>Frame\<close> (\<open>frame\<close>, \<open>readFrame\<close> in \<open>internal/storage/files.go\<close>): the round trip of a record, records
    cut short, and the detection of bursts of errors.
  \<^item> \<open>Storage\<close> (the rest of \<open>files.go\<close>): the record \<open>disk\<close> is a database directory (lock, segments, log,
    snapshots), \<open>Files\<close> the handle; \<open>StorageLog\<close> proves each operation against the list of blocks that the
    segments hold, torn tails included; \<open>BlockLog\<close> states the contract as the locales \<open>block_log\<close> and
    \<open>durable_log\<close> (append, read all, close and open again) and interprets them on the model.
  \<^item> \<open>Engine\<close> (\<open>internal/engine/engine.go\<close>, opening to \<open>CommitOperations\<close>): \<open>Chain\<close> is the part of the
    struct that loading a block changes. \<open>EngineChain\<close>: the inductive \<open>reachable\<close> says which engines a
    process can hold, and the invariant \<open>replayable\<close> (replaying the blocks from nothing gives the chain)
    yields verification, links and heights, reads of any height, and what commits do.
    \<open>EngineStore\<close>: the engine over its directory; \<open>session\<close> adds restarts and crashes (each failed commit is
    followed by a restart), \<open>engine_rep\<close> relates directory and chain, and the last part shows where the
    program misses that contract; \<open>commit_after_failed_write_lost\<close> is what happens to a process that goes
    on after a failed write.
    \<open>EngineHistory\<close>: the locale \<open>temporal_store\<close>, the contract that the past never changes, interpreted
    on the engine; and progress of commits.
  \<^item> \<open>Domain\<close>, \<open>DomainProofs\<close> (the rest of \<open>engine.go\<close>): typed writes, log queries, field elements,
    snapshots and execution bundles.
  \<^item> \<open>Enterprise\<close>, \<open>EnterpriseProofs\<close> (\<open>internal/enterprise/enterprise.go\<close>): a directory as a \<open>tree\<close> of paths
    and contents; backup and restore, containment of restored paths, retention, cluster
    configuration and quorums, compaction under failing renames.
  \<^item> \<open>Server\<close>, \<open>ServerJson\<close>, \<open>ServerProofs\<close> (\<open>internal/server/server.go\<close>): routing, token check, the
    decoding of request bodies and the handlers; which requests change the engine, that a posted
    transaction is the one committed, what a state request reads, which response codes occur.
  \<^item> \<open>BundleJson\<close>, \<open>ProofJson\<close>, \<open>ProofJsonProofs\<close>: the files that commands exchange, an execution bundle as
    it is read and an inclusion proof as it is written with indentation and read back.
  \<^item> \<open>Cli\<close>, \<open>CliProofs\<close> (\<open>internal/cli/cli.go\<close>, \<open>cmd/agidb/main.go\<close>): every command as a function on the
    file system, which is the contents of all files by path, with the directories that hold no file given
    by \<open>cwEmptyDir\<close>; \<open>readDir\<close>, \<open>writeDir\<close>, \<open>diskOf\<close> and \<open>putDisk\<close> relate paths and the record \<open>disk\<close>; what
    one process puts the next one gets, a replica holds the chain of its source, and the file of a proof
    verifies in another process exactly for keys in UTF-8.

  How the code is rendered. Operations take the state and return it updated, with the error or the
  result as a sum; every error return is a branch. The mutex of the engine makes each operation
  atomic and has no counterpart. Heights, nonces and counters are 64-bit words, sizes and file
  offsets natural numbers; the batch size of \<open>CommitOperations\<close> is a signed 64-bit word, because its sum
  with a length can wrap around, and the panic that follows is the error \<open>CapacityPanic\<close>. Which
  of the operating-system calls named in \<open>syscall\<close> fail is the argument \<open>env\<close>; a read from a file that was opened
  delivers its contents, and the command line and the configuration files read every file that is there.
  A crash at an operating-system call is the failure of that call with nothing
  after it. Loops over files, frames and batches are functions with a termination proof; the
  only fuel is that of the JSON reader, two calls for each byte, which \<open>parseJson_valid\<close> proves enough,
  and that of the example archive format.

  Parameters, with the laws that the proofs assume of them: gob and zlib (\<open>codec\<close>, \<open>codec_laws\<close>:
  decoding gives back what was encoded, up to the nil slices that gob does not keep), zip and
  AES-GCM (\<open>vault\<close>, \<open>vault_laws\<close>), the JSON of the two configuration files (\<open>configCodec\<close>), Unicode case
  and space beyond ASCII (\<open>unicode\<close>), \<open>sort.Slice\<close> and the order of map ranges. Random bytes and clock readings are arguments. Each law is met by a concrete
  instance in the witnesses. SHA-256 is computed, and no collision freedom is assumed.

  Bounds: theorems about heights and segment ids ask for fewer blocks than \<open>2 ^ 64\<close> (by at most 2), those
  about stored blocks that a record fits a segment; \<open>oversized_block_blocks_open\<close> shows what
  happens otherwise. A snapshot is written whatever its size, and can be read up to 256 MiB
  (\<open>snapshot_verifies\<close> states both). Stored values in a session are not empty (\<open>empty_value_breaks_reopen\<close>).

  Not modelled: the wording of what is printed apart from the help text, the bytes of JSON responses, file modes,
  symbolic links, the temporary files and directories that a failed restore or compaction leaves beside
  the database (what stands under their names is taken to be theirs), and the TypeScript client under
  \<open>src/npm\<close>.
\<close>

end
